(* ===== verification/Prelude.thy ===== *)
theory Prelude
  imports Main "HOL-Library.Word"
begin

section \<open>Shared vocabulary of the development\<close>

text \<open>
  This theory holds what every component uses: the widths of the C++ types, byte buffers and the
  way a call writes into them, the exceptions and the undefined behaviours the code can run into,
  the optional combinators of \<^verbatim>\<open>include/utils/mbind.h\<close>, and the collections of rewrite rules that
  the component proofs rest on.

  Undefined behaviour is not silently given a meaning: where the C++ code leaves the defined part
  of the language, the model records an entry of type \<open>ub\<close> in the run's history.
  Nothing is claimed of a run after such an entry; a theorem that a component is free of them says
  that no entry is added.
\<close>

unbundle bit_operations_syntax

named_theorems ledger_simps
  "how each operation of the library changes the set of open descriptors"
named_theorems frame_simps
  "what an operation leaves alone"

subsection \<open>Widths\<close>

type_synonym byte = "8 word"
type_synonym uint16 = "16 word"
type_synonym uint32 = "32 word"
  \<comment> \<open>\<^verbatim>\<open>unsigned\<close> and \<^verbatim>\<open>uint32_t\<close>\<close>
type_synonym size_t = "64 word"
  \<comment> \<open>\<^verbatim>\<open>std::size_t\<close>, and \<^verbatim>\<open>std::uint_fast16_t\<close>, which is 64 bits wide on x86-64 Linux\<close>

text \<open>
  \<open>c_int\<close> is the conversion to \<^verbatim>\<open>int\<close>: 32 bits, two's complement. The model
  keeps descriptors and error numbers as \<open>int\<close> and writes the conversion out wherever
  the code narrows a wider integer.
\<close>

definition c_int :: "int \<Rightarrow> int" where
  "c_int x = sint (word_of_int x :: 32 word)"

lemma c_int_id: "- (2 ^ 31) \<le> x \<Longrightarrow> x < 2 ^ 31 \<Longrightarrow> c_int x = x"
  unfolding c_int_def
  by (simp add: signed_take_bit_int_eq_self sint_sbintrunc')

lemma c_int_range: "- (2 ^ 31) \<le> c_int x \<and> c_int x < 2 ^ 31"
  unfolding c_int_def using sint_range_size [of "word_of_int x :: 32 word"]
  by (simp add: word_size)

subsection \<open>Byte buffers\<close>

text \<open>
  \<open>overlay buf data\<close> is the buffer after \<open>data\<close> was written to its start. The
  buffer keeps its length; bytes that do not fit are not written.
\<close>

definition overlay :: "byte list \<Rightarrow> byte list \<Rightarrow> byte list" where
  "overlay buf data = take (length buf) data @ drop (length data) buf"

lemma length_overlay [simp]: "length (overlay buf data) = length buf"
  by (simp add: overlay_def)

lemma take_overlay: "length data \<le> length buf \<Longrightarrow> take (length data) (overlay buf data) = data"
  by (simp add: overlay_def)

lemma overlay_full: "length data = length buf \<Longrightarrow> overlay buf data = data"
  by (simp add: overlay_def)

subsection \<open>Exceptions and undefined behaviour\<close>

datatype exn =
  BadFunctionCall          \<comment> \<open>an empty \<^verbatim>\<open>std::function\<close> was called\<close>
| BadVariantAccess         \<comment> \<open>\<^verbatim>\<open>std::get\<close> on a variant that holds another alternative\<close>
| InvalidArgument
| OutOfRange
| RuntimeError int         \<comment> \<open>the error number that the message carries\<close>
| Terminated               \<comment> \<open>an exception left a \<^verbatim>\<open>noexcept\<close> function: \<^verbatim>\<open>std::terminate\<close>\<close>
| UserException nat        \<comment> \<open>whatever a callback of the application throws\<close>

datatype ub =
  EmptyOptional            \<comment> \<open>\<^verbatim>\<open>*opt\<close> on an empty optional\<close>
| ReadPastEnd nat          \<comment> \<open>that many bytes read behind an object\<close>
| WritePastEnd nat         \<comment> \<open>that many bytes written behind an object\<close>
| DanglingCapture          \<comment> \<open>a by-reference capture used after its function returned\<close>
| UseAfterFree             \<comment> \<open>an object used through a pointer after its lifetime\<close>
| NullText                 \<comment> \<open>a \<^verbatim>\<open>std::string\<close> made from a null pointer\<close>
| NoReturn                 \<comment> \<open>a loop that never ends: what the history has later does not happen\<close>

subsection \<open>Optional combinators (\<^verbatim>\<open>utils/mbind.h\<close>)\<close>

text \<open>
  \<open>opt_or\<close> is \<^verbatim>\<open>operator|\<close>: the left result if there is one, else the call.
  \<open>mbind\<close> is the pure bind. Where the bound value is an object with a destructor,
  \<^verbatim>\<open>mbind\<close> takes it by value, so it is destroyed after the call has returned:
  \<open>mbind_obj\<close> threads the state \<open>w\<close> through the bound function, which returns
  what is left of its argument, and destroys the remainder with \<open>dtor\<close>. The variadic
  overload evaluates the first function inside the parameter list of the recursive call, so the
  outer object dies after the inner one: \<open>mbind_obj2\<close>.
\<close>

definition opt_or :: "'a option \<Rightarrow> (unit \<Rightarrow> 'a option) \<Rightarrow> 'a option" where
  "opt_or result func = (case result of Some x \<Rightarrow> Some x | None \<Rightarrow> func ())"

definition mbind :: "'a option \<Rightarrow> ('a \<Rightarrow> 'b option) \<Rightarrow> 'b option" where
  "mbind opt f = (case opt of Some x \<Rightarrow> f x | None \<Rightarrow> None)"

definition mbind_obj ::
  "'a option \<Rightarrow> ('a \<Rightarrow> 'w \<Rightarrow> 'b option \<times> 'a \<times> 'w) \<Rightarrow> ('a \<Rightarrow> 'w \<Rightarrow> 'w) \<Rightarrow> 'w \<Rightarrow> 'b option \<times> 'w" where
  "mbind_obj opt f dtor w =
     (case opt of
        None \<Rightarrow> (None, w)
      | Some x \<Rightarrow> (case f x w of (r, x', w1) \<Rightarrow> (r, dtor x' w1)))"

definition mbind_obj2 ::
  "'a option \<Rightarrow> ('a \<Rightarrow> 'w \<Rightarrow> 'b option \<times> 'a \<times> 'w) \<Rightarrow> ('a \<Rightarrow> 'w \<Rightarrow> 'w)
   \<Rightarrow> ('b \<Rightarrow> 'w \<Rightarrow> 'c option \<times> 'b \<times> 'w) \<Rightarrow> ('b \<Rightarrow> 'w \<Rightarrow> 'w) \<Rightarrow> 'w \<Rightarrow> 'c option \<times> 'w" where
  "mbind_obj2 opt f0 dtor0 f1 dtor1 w =
     (case opt of
        None \<Rightarrow> (None, w)
      | Some x \<Rightarrow>
          (case f0 x w of
             (r0, x', w1) \<Rightarrow>
               (case mbind_obj r0 f1 dtor1 w1 of (r1, w2) \<Rightarrow> (r1, dtor0 x' w2))))"

lemma opt_or_simps [simp]:
  "opt_or (Some x) f = Some x"
  "opt_or None f = f ()"
  by (simp_all add: opt_or_def)

lemma opt_or_eq_None: "opt_or r f = None \<longleftrightarrow> r = None \<and> f () = None"
  by (cases r) simp_all

lemma mbind_simps [simp]:
  "mbind None f = None"
  "mbind (Some x) f = f x"
  by (simp_all add: mbind_def)

lemma mbind_eq_Some: "mbind opt f = Some y \<longleftrightarrow> (\<exists>x. opt = Some x \<and> f x = Some y)"
  by (cases opt) simp_all

lemma mbind_obj_simps [simp]:
  "mbind_obj None f dtor w = (None, w)"
  "mbind_obj (Some x) f dtor w = (case f x w of (r, x', w1) \<Rightarrow> (r, dtor x' w1))"
  by (simp_all add: mbind_obj_def)

subsection \<open>Operators on scoped enums (\<^verbatim>\<open>utils/enum_op.h\<close>)\<close>

text \<open>
  An enumeration value is the 32-bit word of its underlying integer: the operators cast to
  \<^verbatim>\<open>unsigned\<close>, combine and cast back.
\<close>

definition enum_or :: "uint32 \<Rightarrow> uint32 \<Rightarrow> uint32" where
  "enum_or lhs rhs = lhs OR rhs"

definition enum_and :: "uint32 \<Rightarrow> uint32 \<Rightarrow> uint32" where
  "enum_and lhs rhs = lhs AND rhs"

lemma bit_enum_or [simp]: "bit (enum_or a b) n \<longleftrightarrow> bit a n \<or> bit b n"
  by (simp add: enum_or_def bit_or_iff)

lemma bit_enum_and [simp]: "bit (enum_and a b) n \<longleftrightarrow> bit a n \<and> bit b n"
  by (simp add: enum_and_def bit_and_iff)

end
