(* ===== verification/Os.thy ===== *)
theory Os
  imports Prelude
begin

section \<open>The operating system and the process\<close>

text \<open>
  The library is a layer over the sockets and epoll calls of Linux. Those calls are not part of
  the repository, so the system is a parameter \<open>K\<close> of every definition that uses it:
  a function from its state (of any type \<open>'k\<close>) and a call to a reply and the next state.
  What a property relies on about the system is a hypothesis on \<open>K\<close>, such as
  \<open>posix_fds\<close> below.

  A \<open>world\<close> is the state of the process around the library's objects: the system, the
  thread's \<^verbatim>\<open>errno\<close>, the storage with static or thread duration that the library uses,
  the contents of memory behind an object (\<open>w_junk\<close>: unspecified bytes, which only
  reads past the end of an object see), and a history. The history is a ghost of the model:
  every call made, every callback of the application invoked and every undefined behaviour, the
  newest first.
\<close>

subsection \<open>Constants of the platform\<close>

abbreviation (input) "AF_INET \<equiv> (2::int)"
abbreviation (input) "AF_INET6 \<equiv> (10::int)"
abbreviation (input) "SOCK_STREAM \<equiv> (1::int)"
abbreviation (input) "SOCK_DGRAM \<equiv> (2::int)"
abbreviation (input) "SOCK_NONBLOCK \<equiv> (2048::int)"
abbreviation (input) "EAGAIN \<equiv> (11::int)"
abbreviation (input) "EWOULDBLOCK \<equiv> (11::int)"
abbreviation (input) "EINPROGRESS \<equiv> (115::int)"
abbreviation (input) "SHUT_RD \<equiv> (0::int)"
abbreviation (input) "SHUT_WR \<equiv> (1::int)"
abbreviation (input) "SHUT_RDWR \<equiv> (2::int)"
abbreviation (input) "EPOLL_CTL_ADD \<equiv> (1::int)"
abbreviation (input) "EPOLL_CTL_DEL \<equiv> (2::int)"
abbreviation (input) "EPOLL_CTL_MOD \<equiv> (3::int)"

subsection \<open>Calls and replies\<close>

text \<open>
  An address argument is the bytes of the \<^verbatim>\<open>sockaddr\<close> object; a buffer that is read is
  its bytes and the size given; a buffer that is written appears in the reply. An event of
  \<^verbatim>\<open>epoll\<close> is its mask and the descriptor stored in \<^verbatim>\<open>data.fd\<close>.
\<close>

datatype sys_call =
  SysSocket int int int
| SysBind int "byte list"
| SysConnect int "byte list"
| SysListen int int
| SysAccept4 int nat int
| SysSend int "byte list" size_t int
| SysSendto int "byte list" size_t int "byte list"
| SysRecv int size_t int
| SysRecvfrom int size_t int nat
| SysShutdown int int
| SysClose int
| SysEpollCreate int
| SysEpollCtl int int int "(uint32 \<times> int) option"
| SysEpollWait int int int

record reply =
  rp_ret :: int
  rp_errno :: int
  rp_data :: "byte list"
  rp_addr :: "byte list"
  rp_events :: "(uint32 \<times> int) list"

type_synonym 'k os = "'k \<Rightarrow> sys_call \<Rightarrow> reply \<times> 'k"

datatype event =
  Sys sys_call int int  \<comment> \<open>a call, what it returned and \<^verbatim>\<open>errno\<close> after it\<close>
| Upcall nat            \<comment> \<open>a callback of the application was invoked\<close>
| Ub ub

record 'k world =
  w_kern :: 'k
  w_errno :: int
  w_trace :: "event list"
  w_junk :: "nat \<Rightarrow> byte"
  w_connect_static :: "bool \<Rightarrow> bool"
    \<comment> \<open>are the static closures of \<^verbatim>\<open>client_t::connect\<close> initialised, per kind of protocol\<close>
  w_tl_events :: "nat option"
    \<comment> \<open>the length of the thread's event buffer in \<^verbatim>\<open>epoll_t::proceed\<close>, once created\<close>

text \<open>A call that fails returns \<open>-1\<close> and sets \<^verbatim>\<open>errno\<close>; one that succeeds leaves it.\<close>

definition do_sys :: "'k os \<Rightarrow> sys_call \<Rightarrow> 'k world \<Rightarrow> reply \<times> 'k world" where
  "do_sys K c w =
     (case K (w_kern w) c of
        (r, k) \<Rightarrow>
          let e = (if rp_ret r = -1 then rp_errno r else w_errno w)
          in (r, w\<lparr>w_kern := k, w_errno := e, w_trace := Sys c (rp_ret r) e # w_trace w\<rparr>))"

definition mark_ub :: "ub \<Rightarrow> 'k world \<Rightarrow> 'k world" where
  "mark_ub u w = w\<lparr>w_trace := Ub u # w_trace w\<rparr>"

definition upcall :: "nat \<Rightarrow> 'k world \<Rightarrow> 'k world" where
  "upcall cb w = w\<lparr>w_trace := Upcall cb # w_trace w\<rparr>"

lemma mark_ub_simps [simp]:
  "w_trace (mark_ub u w) = Ub u # w_trace w"
  "w_kern (mark_ub u w) = w_kern w"
  "w_errno (mark_ub u w) = w_errno w"
  "w_junk (mark_ub u w) = w_junk w"
  "w_connect_static (mark_ub u w) = w_connect_static w"
  "w_tl_events (mark_ub u w) = w_tl_events w"
  by (simp_all add: mark_ub_def)

lemma upcall_simps [simp]:
  "w_trace (upcall cb w) = Upcall cb # w_trace w"
  "w_kern (upcall cb w) = w_kern w"
  "w_errno (upcall cb w) = w_errno w"
  "w_connect_static (upcall cb w) = w_connect_static w"
  by (simp_all add: upcall_def)

lemma do_sys_frame [frame_simps]:
  "do_sys K c w = (r, w') \<Longrightarrow> w_junk w' = w_junk w"
  "do_sys K c w = (r, w') \<Longrightarrow> w_connect_static w' = w_connect_static w"
  "do_sys K c w = (r, w') \<Longrightarrow> w_tl_events w' = w_tl_events w"
  by (auto simp: do_sys_def Let_def split: prod.splits)

lemma do_sys_trace:
  "do_sys K c w = (r, w') \<Longrightarrow>
     w_trace w' = Sys c (rp_ret r) (w_errno w') # w_trace w
     \<and> w_errno w' = (if rp_ret r = -1 then rp_errno r else w_errno w)
     \<and> K (w_kern w) c = (r, w_kern w')"
  by (auto simp: do_sys_def Let_def split: prod.splits)

subsection \<open>The descriptors a history leaves open\<close>

fun creates :: "sys_call \<Rightarrow> bool" where
  "creates (SysSocket _ _ _) = True"
| "creates (SysAccept4 _ _ _) = True"
| "creates (SysEpollCreate _) = True"
| "creates _ = False"

definition ledger_step :: "sys_call \<Rightarrow> int \<Rightarrow> int set \<Rightarrow> int set" where
  "ledger_step c r S =
     (if creates c then (if r = -1 then S else insert r S)
      else (case c of SysClose fd \<Rightarrow> S - {fd} | _ \<Rightarrow> S))"

fun open_fds :: "event list \<Rightarrow> int set" where
  "open_fds [] = {}"
| "open_fds (Sys c r e # t) = ledger_step c r (open_fds t)"
| "open_fds (Upcall cb # t) = open_fds t"
| "open_fds (Ub u # t) = open_fds t"

lemma ledger_step_simps [simp]:
  "ledger_step (SysSocket a b c) r S = (if r = -1 then S else insert r S)"
  "ledger_step (SysBind fd sa) r S = S"
  "ledger_step (SysConnect fd sa) r S = S"
  "ledger_step (SysListen fd n) r S = S"
  "ledger_step (SysAccept4 fd al fl) r S = (if r = -1 then S else insert r S)"
  "ledger_step (SysSend fd buf sz fl) r S = S"
  "ledger_step (SysSendto fd buf sz fl sa) r S = S"
  "ledger_step (SysRecv fd sz fl) r S = S"
  "ledger_step (SysRecvfrom fd sz fl al) r S = S"
  "ledger_step (SysShutdown fd d) r S = S"
  "ledger_step (SysClose fd) r S = S - {fd}"
  "ledger_step (SysEpollCreate q) r S = (if r = -1 then S else insert r S)"
  "ledger_step (SysEpollCtl fd op s ev) r S = S"
  "ledger_step (SysEpollWait fd m t) r S = S"
  by (simp_all add: ledger_step_def)

lemma open_fds_do_sys [ledger_simps]:
  "do_sys K c w = (r, w') \<Longrightarrow>
     open_fds (w_trace w') = ledger_step c (rp_ret r) (open_fds (w_trace w))"
  by (drule do_sys_trace) simp

text \<open>
  What POSIX promises of descriptors: a call that creates one returns \<open>-1\<close> or a
  non-negative number that is not open, and no call but \<^verbatim>\<open>close\<close> closes one.
  \<open>live\<close> reads the open descriptors off the system's state; \<open>ledger_ok\<close> says
  that the history accounts for all of them.
\<close>

definition posix_fds :: "'k os \<Rightarrow> ('k \<Rightarrow> int set) \<Rightarrow> bool" where
  "posix_fds K live \<longleftrightarrow>
     (\<forall>k c r k'. K k c = (r, k') \<longrightarrow>
        live k' = ledger_step c (rp_ret r) (live k)
        \<and> (creates c \<and> rp_ret r \<noteq> -1 \<longrightarrow> 0 \<le> rp_ret r \<and> rp_ret r \<notin> live k))"

definition ledger_ok :: "('k \<Rightarrow> int set) \<Rightarrow> 'k world \<Rightarrow> bool" where
  "ledger_ok live w \<longleftrightarrow> live (w_kern w) = open_fds (w_trace w)"

lemma ledger_ok_mark_ub [simp]: "ledger_ok live (mark_ub u w) = ledger_ok live w"
  by (simp add: ledger_ok_def)

lemma ledger_ok_upcall [simp]: "ledger_ok live (upcall cb w) = ledger_ok live w"
  by (simp add: ledger_ok_def)

lemma posix_fdsD:
  assumes "posix_fds K live" and "K k c = (r, k')"
  shows "live k' = ledger_step c (rp_ret r) (live k)"
    and "creates c \<Longrightarrow> rp_ret r \<noteq> -1 \<Longrightarrow> 0 \<le> rp_ret r \<and> rp_ret r \<notin> live k"
  using assms unfolding posix_fds_def by blast+

lemma ledger_ok_do_sys:
  "posix_fds K live \<Longrightarrow> ledger_ok live w \<Longrightarrow> do_sys K c w = (r, w') \<Longrightarrow> ledger_ok live w'"
  by (drule do_sys_trace) (auto simp: ledger_ok_def dest: posix_fdsD(1))

lemma do_sys_fresh:
  "posix_fds K live \<Longrightarrow> ledger_ok live w \<Longrightarrow> do_sys K c w = (r, w') \<Longrightarrow> creates c \<Longrightarrow>
     rp_ret r \<noteq> -1 \<Longrightarrow> 0 \<le> rp_ret r \<and> rp_ret r \<notin> open_fds (w_trace w)"
  by (drule do_sys_trace) (auto simp: ledger_ok_def dest: posix_fdsD(2))

subsection \<open>Runs that make certain calls only\<close>

text \<open>
  \<open>via K A w w'\<close>: from \<open>w\<close> the process reaches \<open>w'\<close> by calls
  that satisfy \<open>A\<close> and by steps that make no call. Every operation of the library is
  such a run, so what all calls of \<open>A\<close> keep, the operation keeps.
\<close>

inductive via :: "'k os \<Rightarrow> (sys_call \<Rightarrow> bool) \<Rightarrow> 'k world \<Rightarrow> 'k world \<Rightarrow> bool"
  for K :: "'k os" and A :: "sys_call \<Rightarrow> bool" where
  via_refl: "via K A w w"
| via_sys: "via K A w w1 \<Longrightarrow> A c \<Longrightarrow> do_sys K c w1 = (r, w2) \<Longrightarrow> via K A w w2"
| via_ub: "via K A w w1 \<Longrightarrow> via K A w (mark_ub u w1)"
| via_upcall: "via K A w w1 \<Longrightarrow> via K A w (upcall cb w1)"
| via_static: "via K A w w1 \<Longrightarrow> via K A w (w1\<lparr>w_connect_static := f\<rparr>)"
| via_tl: "via K A w w1 \<Longrightarrow> via K A w (w1\<lparr>w_tl_events := b\<rparr>)"

lemmas via_intros = via_refl via_ub via_upcall via_static via_tl

lemma via_call: "do_sys K c w = (r, w') \<Longrightarrow> A c \<Longrightarrow> via K A w w'"
  by (blast intro: via_refl via_sys)

lemma via_trans:
  assumes "via K A w1 w2" and "via K A w0 w1"
  shows "via K A w0 w2"
  using assms by (induction rule: via.induct) (auto intro: via.intros)

lemma via_mono:
  assumes "via K A w w'" and "\<And>c. A c \<Longrightarrow> B c"
  shows "via K B w w'"
  using assms by (induction rule: via.induct) (auto intro: via.intros)

lemma via_ledger_ok: "via K A w w' \<Longrightarrow> posix_fds K live \<Longrightarrow> ledger_ok live w \<Longrightarrow> ledger_ok live w'"
proof (induction rule: via.induct)
  case (via_sys w w1 c r w2)
  then show ?case by (blast intro: ledger_ok_do_sys)
qed (simp_all add: ledger_ok_def)

text \<open>Calls that neither create nor close a descriptor.\<close>

definition quiet :: "sys_call \<Rightarrow> bool" where
  "quiet c \<longleftrightarrow> \<not> creates c \<and> (\<forall>fd. c \<noteq> SysClose fd)"

lemma quiet_simps [simp]:
  "quiet (SysBind fd sa)" "quiet (SysConnect fd sa)" "quiet (SysListen fd b)"
  "quiet (SysSend fd buf sz fl)" "quiet (SysSendto fd buf sz fl sa)" "quiet (SysRecv fd sz fl)"
  "quiet (SysRecvfrom fd sz fl al)" "quiet (SysShutdown fd d)" "quiet (SysEpollCtl fd op s ev)"
  "quiet (SysEpollWait fd m t)"
  "\<not> quiet (SysSocket a b c)" "\<not> quiet (SysAccept4 fd al fl)" "\<not> quiet (SysClose fd)"
  "\<not> quiet (SysEpollCreate q)"
  by (simp_all add: quiet_def)

lemma via_quiet [ledger_simps]:
  "via K quiet w w' \<Longrightarrow> open_fds (w_trace w') = open_fds (w_trace w)"
proof (induction rule: via.induct)
  case (via_sys w w1 c r w2)
  from open_fds_do_sys [OF via_sys.hyps(3)] via_sys.hyps(2) via_sys.IH show ?case
    by (cases c) simp_all
qed simp_all

subsection \<open>What a run adds to the history\<close>

definition adds :: "(event \<Rightarrow> bool) \<Rightarrow> 'k world \<Rightarrow> 'k world \<Rightarrow> bool" where
  "adds P w w' \<longleftrightarrow> (\<exists>t. w_trace w' = t @ w_trace w \<and> (\<forall>e \<in> set t. P e))"

lemma adds_refl [simp]: "adds P w w"
  by (simp add: adds_def)

lemma adds_trans: "adds P w0 w1 \<Longrightarrow> adds P w1 w2 \<Longrightarrow> adds P w0 w2"
  by (fastforce simp: adds_def)

lemma adds_mono: "adds P w w' \<Longrightarrow> (\<And>e. P e \<Longrightarrow> Q e) \<Longrightarrow> adds Q w w'"
  by (fastforce simp: adds_def)

lemma adds_do_sys: "do_sys K c w = (r, w') \<Longrightarrow> (\<And>x e. P (Sys c x e)) \<Longrightarrow> adds P w w'"
  by (drule do_sys_trace) (simp add: adds_def)

lemma adds_mark_ub: "P (Ub u) \<Longrightarrow> adds P w (mark_ub u w)"
  by (simp add: adds_def)

lemma adds_upcall: "P (Upcall cb) \<Longrightarrow> adds P w (upcall cb w)"
  by (simp add: adds_def)

lemma adds_frame [simp]:
  "adds P w (w1\<lparr>w_connect_static := f\<rparr>) = adds P w w1" "adds P (w\<lparr>w_connect_static := f\<rparr>) w1 = adds P w w1"
  "adds P w (w1\<lparr>w_tl_events := b\<rparr>) = adds P w w1" "adds P (w\<lparr>w_tl_events := b\<rparr>) w1 = adds P w w1"
  by (simp_all add: adds_def)

lemma adds_not_in: "adds P w w' \<Longrightarrow> \<not> P e \<Longrightarrow> e \<in> set (w_trace w') \<longleftrightarrow> e \<in> set (w_trace w)"
  by (auto simp: adds_def)

lemma adds_count: "adds P w w' \<Longrightarrow> \<not> P e \<Longrightarrow> count_list (w_trace w') e = count_list (w_trace w) e"
proof -
  have "(\<forall>x \<in> set t. P x) \<Longrightarrow> \<not> P e \<Longrightarrow> count_list t e = 0" for t by (auto simp: count_list_0_iff)
  then show "adds P w w' \<Longrightarrow> \<not> P e \<Longrightarrow> count_list (w_trace w') e = count_list (w_trace w) e"
    by (auto simp: adds_def)
qed

text \<open>Steps of the library itself: no callback, and no dereference of an empty optional.\<close>

fun benign :: "event \<Rightarrow> bool" where
  "benign (Sys c r e) = True"
| "benign (Upcall cb) = False"
| "benign (Ub u) = (u \<noteq> EmptyOptional \<and> u \<noteq> DanglingCapture)"

subsection \<open>The part of a history with a defined meaning\<close>

text \<open>
  C++ says nothing about a program after an undefined behaviour. A property of whole histories
  therefore speaks of \<open>defined_part\<close>: what a history has in front of the first event that
  \<open>derails\<close> the process. The one exception is a read of some bytes behind an object, which every
  accept and receive makes of its stack: it is undefined as well, but all it brings is the
  unspecified bytes \<open>w_junk\<close>.
\<close>

fun derails :: "event \<Rightarrow> bool" where
  "derails (Sys c r e) = False"
| "derails (Upcall cb) = False"
| "derails (Ub (ReadPastEnd n)) = False"
| "derails (Ub u) = True"

definition defined_part :: "event list \<Rightarrow> event list" where
  "defined_part t = rev (takeWhile (\<lambda>e. \<not> derails e) (rev t))"

lemma defined_part_older: "\<exists>later. t = later @ defined_part t"
proof -
  have "rev t = takeWhile (\<lambda>e. \<not> derails e) (rev t) @ dropWhile (\<lambda>e. \<not> derails e) (rev t)" by simp
  then have "t = rev (dropWhile (\<lambda>e. \<not> derails e) (rev t)) @ defined_part t"
    unfolding defined_part_def by (metis rev_append rev_rev_ident)
  then show ?thesis ..
qed

lemma defined_part_id: "\<forall>e \<in> set t. \<not> derails e \<Longrightarrow> defined_part t = t"
  by (simp add: defined_part_def takeWhile_eq_all_conv [THEN iffD2])

lemma defined_part_append:
  assumes "\<forall>e \<in> set X. \<not> derails e"
  shows "defined_part (t @ X) = defined_part t @ X"
proof -
  have "takeWhile (\<lambda>e. \<not> derails e) (rev X @ rev t) = rev X @ takeWhile (\<lambda>e. \<not> derails e) (rev t)"
    by (rule takeWhile_append2) (use assms in simp)
  then show ?thesis by (simp add: defined_part_def)
qed

lemma set_defined_part: "set (defined_part t) \<subseteq> set t"
  by (auto simp: defined_part_def dest: set_takeWhileD)

subsection \<open>Two executable systems for concrete runs\<close>

text \<open>
  \<open>script_os\<close> answers with the replies of a list, in order. \<open>counting_os\<close>
  hands out the number above the largest open descriptor and answers every other call with
  \<open>0\<close>. They stand for a system in the witnesses only; no property assumes them.
\<close>

definition answer :: "int \<Rightarrow> reply" where
  "answer n = \<lparr>rp_ret = n, rp_errno = 0, rp_data = [], rp_addr = [], rp_events = []\<rparr>"

definition failure :: "int \<Rightarrow> reply" where
  "failure e = \<lparr>rp_ret = -1, rp_errno = e, rp_data = [], rp_addr = [], rp_events = []\<rparr>"

lemma answer_simps [simp]:
  "rp_ret (answer n) = n" "rp_errno (answer n) = 0" "rp_data (answer n) = []"
  "rp_addr (answer n) = []" "rp_events (answer n) = []"
  by (simp_all add: answer_def)

lemma failure_simps [simp]:
  "rp_ret (failure e) = -1" "rp_errno (failure e) = e" "rp_data (failure e) = []"
  "rp_addr (failure e) = []" "rp_events (failure e) = []"
  by (simp_all add: failure_def)

fun script_os :: "reply list os" where
  "script_os [] c = (failure 9, [])"
| "script_os (r # rs) c = (r, rs)"

definition counting_os :: "int list os" where
  "counting_os k c =
     (if creates c then let n = foldr max k 2 + 1 in (answer n, n # k)
      else (case c of SysClose fd \<Rightarrow> (answer 0, removeAll fd k) | _ \<Rightarrow> (answer 0, k)))"

lemma foldr_max_ge: "x \<in> set k \<or> x = b \<Longrightarrow> x \<le> foldr max k (b::int)"
  by (induction k) auto

lemma counting_os_posix: "posix_fds counting_os set"
proof -
  have "foldr max k 2 + 1 \<notin> set k \<and> 0 \<le> foldr max k 2 + 1 \<and> 2 + foldr max k 2 \<noteq> (0::int)" for k
    using foldr_max_ge [of 2 k 2] foldr_max_ge [of "foldr max k 2 + 1" k 2] by auto
  then show ?thesis
    by (auto simp: posix_fds_def counting_os_def Let_def ledger_step_def
        split: if_splits sys_call.splits)
qed

definition init_world :: "'k \<Rightarrow> 'k world" where
  "init_world k =
     \<lparr>w_kern = k, w_errno = 0, w_trace = [], w_junk = (\<lambda>_. 0),
      w_connect_static = (\<lambda>_. False), w_tl_events = None\<rparr>"

lemma init_world_simps [simp]:
  "w_kern (init_world k) = k" "w_errno (init_world k) = 0" "w_trace (init_world k) = []"
  "w_junk (init_world k) = (\<lambda>_. 0)" "w_connect_static (init_world k) = (\<lambda>_. False)"
  "w_tl_events (init_world k) = None"
  by (simp_all add: init_world_def)

end
