(* ===== verification/Numerals.thy ===== *)
theory Numerals
  imports Prelude
begin

section \<open>Numbers in text\<close>

text \<open>
  What the source uses of the standard library to turn text into numbers and back: white space
  and digits of the C locale, \<^verbatim>\<open>std::stoi\<close>, and the decimal output of an unsigned number
  (\<^verbatim>\<open>std::to_string\<close>, \<^verbatim>\<open>operator<<\<close>). The service reads the numbers of a request with
  it, both example programs their ports.
\<close>

definition is_space :: "char \<Rightarrow> bool" where
  "is_space c \<longleftrightarrow> of_char c = (32 :: nat) \<or> (9 \<le> (of_char c :: nat) \<and> (of_char c :: nat) \<le> 13)"

definition is_digit :: "char \<Rightarrow> bool" where
  "is_digit c \<longleftrightarrow> 48 \<le> (of_char c :: nat) \<and> (of_char c :: nat) \<le> 57"

definition number_value :: "string \<Rightarrow> nat" where
  "number_value s = foldl (\<lambda>n c. 10 * n + (of_char c - 48)) 0 s"

text \<open>
  \<^verbatim>\<open>std::stoi\<close> skips white space, takes one sign if there is one, reads the longest row of
  digits and ignores the rest: \<^verbatim>\<open>invalid_argument\<close> if there is no digit, \<^verbatim>\<open>out_of_range\<close> if
  the value is no \<^verbatim>\<open>int\<close>.
\<close>

definition split_sign :: "string \<Rightarrow> int \<times> string" where
  "split_sign s =
     (case s of
        [] \<Rightarrow> (1, [])
      | c # t \<Rightarrow> if c = CHR ''-'' then (-1, t) else if c = CHR ''+'' then (1, t) else (1, s))"

definition stoi :: "string \<Rightarrow> exn + int" where
  "stoi s =
     (case split_sign (dropWhile is_space s) of
        (sign, t) \<Rightarrow>
          let ds = takeWhile is_digit t; v = sign * int (number_value ds)
          in if ds = [] then Inl InvalidArgument
             else if - (2 ^ 31) \<le> v \<and> v < 2 ^ 31 then Inr v else Inl OutOfRange)"

fun decimal :: "nat \<Rightarrow> string" where
  "decimal n = (if n < 10 then [char_of (48 + n)] else decimal (n div 10) @ [char_of (48 + n mod 10)])"

declare decimal.simps [simp del]

subsection \<open>Digits\<close>

definition is_numeral :: "string \<Rightarrow> bool" where
  "is_numeral s \<longleftrightarrow> s \<noteq> [] \<and> (\<forall>c \<in> set s. is_digit c)"

lemma digit_not_space: "is_digit c \<Longrightarrow> \<not> is_space c"
  by (auto simp: is_digit_def is_space_def)

lemma digit_not_sign: "is_digit c \<Longrightarrow> c \<noteq> CHR ''-'' \<and> c \<noteq> CHR ''+'' \<and> c \<noteq> CHR '':'' \<and> c \<noteq> CHR 0x00"
  by (auto simp: is_digit_def)

lemma decimal_is_numeral: "is_numeral (decimal n)"
proof (induction n rule: decimal.induct)
  case (1 n)
  have "is_digit (char_of (48 + n mod 10))" "n < 10 \<Longrightarrow> is_digit (char_of (48 + n))"
    by (auto simp: is_digit_def of_char_of)
  with 1 show ?case by (subst decimal.simps) (auto simp: is_numeral_def)
qed

lemma number_value_snoc: "number_value (s @ [c]) = 10 * number_value s + (of_char c - 48)"
  by (simp add: number_value_def)

lemma number_value_decimal [simp]: "number_value (decimal n) = n"
proof (induction n rule: decimal.induct)
  case (1 n)
  show ?case
  proof (cases "n < 10")
    case True
    then show ?thesis by (subst decimal.simps) (simp add: number_value_def of_char_of)
  next
    case False
    with 1 show ?thesis by (subst decimal.simps) (simp add: number_value_snoc of_char_of)
  qed
qed

lemma decimal_inject [simp]: "decimal m = decimal n \<longleftrightarrow> m = n"
  by (metis number_value_decimal)

lemma decimal_not_Nil [simp]: "decimal n \<noteq> []"
  using decimal_is_numeral [of n] by (simp add: is_numeral_def)

subsection \<open>What \<^verbatim>\<open>stoi\<close> returns\<close>

lemma split_sign_numeral: "is_numeral s \<Longrightarrow> split_sign (s @ t) = (1, s @ t)"
  by (cases s) (auto simp: is_numeral_def split_sign_def dest: digit_not_sign)

lemma takeWhile_numeral:
  assumes "is_numeral s" and "t = [] \<or> \<not> is_digit (hd t)"
  shows "takeWhile is_digit (s @ t) = s"
  using assms by (cases t) (auto simp: is_numeral_def takeWhile_append2)

lemma dropWhile_numeral: "is_numeral s \<Longrightarrow> dropWhile is_space (s @ t) = s @ t"
  by (cases s) (auto simp: is_numeral_def dest: digit_not_space)

lemma stoi_numeral:
  assumes "is_numeral s"
  shows "stoi s = (if number_value s < 2 ^ 31 then Inr (int (number_value s)) else Inl OutOfRange)"
proof -
  have tw: "takeWhile is_digit s = s" using takeWhile_numeral [OF assms, of "[]"] by simp
  have "split_sign (dropWhile is_space s) = (1, s)"
    using split_sign_numeral [OF assms, of "[]"] dropWhile_numeral [OF assms, of "[]"] by simp
  then show ?thesis using assms unfolding stoi_def by (simp add: tw is_numeral_def)
qed

text \<open>The text that \<^verbatim>\<open>stoi\<close> inverts: white space, a signed decimal number, anything but a digit.\<close>

definition signed_decimal :: "int \<Rightarrow> string" where
  "signed_decimal i = (if i < 0 then CHR ''-'' # decimal (nat (- i)) else decimal (nat i))"

lemma stoi_signed_decimal:
  assumes "\<forall>c \<in> set pre. is_space c" and "post = [] \<or> \<not> is_digit (hd post)"
  shows "stoi (pre @ signed_decimal i @ post) =
    (if - (2 ^ 31) \<le> i \<and> i < 2 ^ 31 then Inr i else Inl OutOfRange)"
proof -
  have skip: "dropWhile is_space (pre @ s) = dropWhile is_space s" for s
    using assms(1) by (simp add: dropWhile_append2)
  have tw: "takeWhile is_digit (decimal n @ post) = decimal n" for n
    using takeWhile_numeral [OF decimal_is_numeral assms(2)] .
  show ?thesis
  proof (cases "i < 0")
    case True
    have "\<not> is_space (CHR ''-'')" by (simp add: is_space_def)
    with True show ?thesis
      by (simp add: stoi_def skip signed_decimal_def split_sign_def tw Let_def)
  next
    case False
    then show ?thesis
      by (simp add: stoi_def skip signed_decimal_def dropWhile_numeral split_sign_numeral decimal_is_numeral tw Let_def)
  qed
qed

lemma stoi_range: "stoi s = Inr i \<Longrightarrow> - (2 ^ 31) \<le> i \<and> i < 2 ^ 31"
  by (auto simp: stoi_def Let_def split: prod.splits if_splits)

lemma stoi_port: "stoi ''7777'' = Inr 7777"
  by (simp add: stoi_def split_sign_def is_space_def is_digit_def number_value_def)

end
