(* ===== verification/In_Address.thy ===== *)
theory In_Address
  imports Os Numerals
begin

section \<open>Internet addresses\<close>

text \<open>
  Models \<^verbatim>\<open>include/socket/in_address.h\<close>, \<^verbatim>\<open>src/socket/in_address.cpp\<close>,
  \<^verbatim>\<open>src/socket/af_inet.cpp\<close>, \<^verbatim>\<open>src/utils/address_from_string.cpp\<close> and
  \<^verbatim>\<open>src/utils/to_string.cpp\<close>.

  The text conversions \<^verbatim>\<open>inet_pton\<close> and \<^verbatim>\<open>inet_ntop\<close> are the C library's: a
  parameter \<open>N\<close>. \<open>inet_pton\<close> answers its result and the bytes it writes;
  \<open>inet_ntop\<close> the text it writes in front of the final NUL, if it succeeds. The first
  argument \<open>junk\<close> of the parsers is the content of the uninitialised buffer that
  \<^verbatim>\<open>in_address_t::parser\<close> declares: for an IPv4 address only 4 of its 16 bytes are
  written.
\<close>

record inet =
  inet_pton :: "int \<Rightarrow> string \<Rightarrow> int \<times> byte list"
  inet_ntop :: "int \<Rightarrow> byte list \<Rightarrow> nat \<Rightarrow> string option"

record in_address_t =
  m_data :: "byte list"
  m_family :: int

record in_address_port_t =
  ap_addr :: in_address_t
  ap_port :: size_t

definition ipv4 :: int where
  "ipv4 = AF_INET"

definition ipv6 :: int where
  "ipv6 = AF_INET6"

definition MAX_IN_ADDR_BYTE_LEN :: nat where
  "MAX_IN_ADDR_BYTE_LEN = 16"

definition MAX_IP4_STR_LEN :: nat where
  "MAX_IP4_STR_LEN = 16"

definition MAX_IP6_STR_LEN :: nat where
  "MAX_IP6_STR_LEN = 46"

lemmas inet_consts = ipv4_def ipv6_def MAX_IN_ADDR_BYTE_LEN_def MAX_IP4_STR_LEN_def
  MAX_IP6_STR_LEN_def

text \<open>The characters a C function sees behind \<^verbatim>\<open>str.data()\<close>: up to the first NUL.\<close>

definition c_str :: "string \<Rightarrow> string" where
  "c_str s = takeWhile (\<lambda>c. c \<noteq> CHR 0x00) s"

definition parser ::
  "inet \<Rightarrow> (nat \<Rightarrow> byte) \<Rightarrow> int \<Rightarrow> nat \<Rightarrow> string \<Rightarrow> (byte list \<times> int) option" where
  "parser N junk af max_len str =
     (let buff = map junk [0..<MAX_IN_ADDR_BYTE_LEN]
      in if length str < max_len \<and> 0 < fst (inet_pton N af (c_str str))
         then Some (overlay buff (snd (inet_pton N af (c_str str))), af)
         else None)"

definition init :: "inet \<Rightarrow> (nat \<Rightarrow> byte) \<Rightarrow> string \<Rightarrow> (byte list \<times> int) option" where
  "init N junk addr =
     opt_or (opt_or None (\<lambda>_. parser N junk ipv4 MAX_IP4_STR_LEN addr))
            (\<lambda>_. parser N junk ipv6 MAX_IP6_STR_LEN addr)"

definition in_address_from_string :: "inet \<Rightarrow> (nat \<Rightarrow> byte) \<Rightarrow> string \<Rightarrow> exn + in_address_t" where
  "in_address_from_string N junk addr =
     (case init N junk addr of
        Some parsed \<Rightarrow> Inr \<lparr>m_data = fst parsed, m_family = snd parsed\<rparr>
      | None \<Rightarrow> Inl InvalidArgument)"

definition create :: "inet \<Rightarrow> (nat \<Rightarrow> byte) \<Rightarrow> string \<Rightarrow> in_address_t option" where
  "create N junk addr =
     (case init N junk addr of
        Some parsed \<Rightarrow> Some \<lparr>m_data = fst parsed, m_family = snd parsed\<rparr>
      | None \<Rightarrow> None)"

definition is_ipv4 :: "in_address_t \<Rightarrow> bool" where
  "is_ipv4 a \<longleftrightarrow> m_family a = ipv4"

definition is_ipv6 :: "in_address_t \<Rightarrow> bool" where
  "is_ipv6 a \<longleftrightarrow> m_family a = ipv6"

definition address_bytes :: "in_address_t \<Rightarrow> byte list" where
  "address_bytes a = m_data a"

definition address_family :: "in_address_t \<Rightarrow> int" where
  "address_family a = m_family a"

definition from_string_and_port ::
  "inet \<Rightarrow> (nat \<Rightarrow> byte) \<Rightarrow> string \<Rightarrow> size_t \<Rightarrow> in_address_port_t option" where
  "from_string_and_port N junk str prt =
     mbind (create N junk str) (\<lambda>a. Some \<lparr>ap_addr = a, ap_port = prt\<rparr>)"

text \<open>
  \<^verbatim>\<open>to_string\<close> lets \<^verbatim>\<open>inet_ntop\<close> write into a string of NULs and cuts it at the
  first NUL. \<^verbatim>\<open>find\<close> reports \<^verbatim>\<open>npos\<close> when there is none; the resize then throws
  inside a \<^verbatim>\<open>noexcept\<close> function.
\<close>

definition to_string :: "inet \<Rightarrow> in_address_t \<Rightarrow> exn + string" where
  "to_string N a =
     (let addr_len = (if address_family a = AF_INET then 16 else 46);
          ret = (case inet_ntop N (address_family a) (address_bytes a) addr_len of
                   None \<Rightarrow> replicate addr_len (CHR 0x00)
                 | Some s \<Rightarrow> take addr_len (s @ replicate (addr_len - length s) (CHR 0x00)))
      in if CHR 0x00 \<in> set ret then Inr (takeWhile (\<lambda>c. c \<noteq> CHR 0x00) ret)
         else Inl Terminated)"

text \<open>An address with its port; the concatenation is \<^verbatim>\<open>noexcept\<close> as well.\<close>

definition address_port_to_string :: "inet \<Rightarrow> in_address_port_t \<Rightarrow> exn + string" where
  "address_port_to_string N addr =
     (case to_string N (ap_addr addr) of
        Inl e \<Rightarrow> Inl e
      | Inr s \<Rightarrow> Inr (s @ '':'' @ decimal (unat (ap_port addr))))"

subsection \<open>Well-formed addresses\<close>

definition wf_address :: "in_address_t \<Rightarrow> bool" where
  "wf_address a \<longleftrightarrow> length (m_data a) = MAX_IN_ADDR_BYTE_LEN \<and> (is_ipv4 a \<or> is_ipv6 a)"

lemma init_None: "init N junk s = None \<longleftrightarrow>
    parser N junk ipv4 MAX_IP4_STR_LEN s = None \<and> parser N junk ipv6 MAX_IP6_STR_LEN s = None"
  by (simp add: init_def opt_or_eq_None)

lemma parser_wf: "parser N junk af n s = Some (d, f) \<Longrightarrow> length d = MAX_IN_ADDR_BYTE_LEN \<and> f = af"
  by (auto simp: parser_def Let_def split: if_splits)

lemma init_wf:
  "init N junk s = Some (d, f) \<Longrightarrow> length d = MAX_IN_ADDR_BYTE_LEN \<and> (f = ipv4 \<or> f = ipv6)"
  unfolding init_def
  by (cases "parser N junk ipv4 MAX_IP4_STR_LEN s") (auto dest: parser_wf)

lemma create_wf: "create N junk s = Some a \<Longrightarrow> wf_address a"
  by (auto simp: create_def wf_address_def is_ipv4_def is_ipv6_def split: option.splits
      dest: init_wf)

lemma from_string_and_port_wf:
  "from_string_and_port N junk s p = Some ap \<Longrightarrow> wf_address (ap_addr ap) \<and> ap_port ap = p"
  by (auto simp: from_string_and_port_def mbind_eq_Some dest: create_wf)

text \<open>The two ways to build an address agree: one throws where the other returns nothing.\<close>

lemma from_string_create:
  "in_address_from_string N junk s =
     (case create N junk s of Some a \<Rightarrow> Inr a | None \<Rightarrow> Inl InvalidArgument)"
  by (simp add: in_address_from_string_def create_def split: option.splits)

subsection \<open>What the C library documents of the text conversions\<close>

text \<open>
  \<open>inet_pton\<close> writes 4 or 16 bytes; \<open>inet_ntop\<close> succeeds in a buffer of the
  documented size, writes a text that fits with its NUL, and \<open>inet_pton\<close> reads that text
  back; a text of an IPv6 address is not one of an IPv4 address.
\<close>

definition addr_bytes :: "int \<Rightarrow> nat" where
  "addr_bytes af = (if af = AF_INET then 4 else 16)"

definition addr_text_len :: "int \<Rightarrow> nat" where
  "addr_text_len af = (if af = AF_INET then 16 else 46)"

definition inet_laws :: "inet \<Rightarrow> bool" where
  "inet_laws N \<longleftrightarrow>
     (\<forall>af bs. (af = AF_INET \<or> af = AF_INET6) \<and> length bs = 16 \<longrightarrow>
        (\<exists>s. inet_ntop N af bs (addr_text_len af) = Some s
             \<and> length s < addr_text_len af \<and> CHR 0x00 \<notin> set s
             \<and> 0 < fst (inet_pton N af s)
             \<and> snd (inet_pton N af s) = take (addr_bytes af) bs
             \<and> (af = AF_INET6 \<longrightarrow> fst (inet_pton N AF_INET s) \<le> 0)))"

lemma c_str_no_nul: "CHR 0x00 \<notin> set s \<Longrightarrow> c_str s = s"
  by (auto simp: c_str_def takeWhile_eq_all_conv)

lemma to_string_text:
  assumes "inet_ntop N (m_family a) (m_data a) (addr_text_len (m_family a)) = Some s"
    and "length s < addr_text_len (m_family a)" and "CHR 0x00 \<notin> set s"
  shows "to_string N a = Inr s"
proof -
  let ?n = "addr_text_len (m_family a)"
  let ?ret = "s @ replicate (?n - length s) (CHR 0x00)"
  have "take ?n ?ret = ?ret" using assms(2) by simp
  moreover have "CHR 0x00 \<in> set ?ret" using assms(2) by (auto simp: set_replicate_conv_if)
  moreover have "takeWhile (\<lambda>c. c \<noteq> CHR 0x00) ?ret = s"
  proof -
    have "\<And>x. x \<in> set s \<Longrightarrow> x \<noteq> CHR 0x00" using assms(3) by metis
    then have "takeWhile (\<lambda>c. c \<noteq> CHR 0x00) ?ret
        = s @ takeWhile (\<lambda>c. c \<noteq> CHR 0x00) (replicate (?n - length s) (CHR 0x00))"
      by (rule takeWhile_append2)
    then show ?thesis by (simp add: takeWhile_replicate)
  qed
  ultimately show ?thesis
    using assms(1) by (simp add: to_string_def address_family_def address_bytes_def addr_text_len_def Let_def)
qed

lemma parser_reads_back:
  assumes "length s < n" "CHR 0x00 \<notin> set s" "0 < fst (inet_pton N af s)"
    "snd (inet_pton N af s) = take k bs" "k \<le> 16" "length bs = 16"
  shows "\<exists>d. parser N junk af n s = Some (d, af) \<and> length d = 16 \<and> take k d = take k bs"
  using assms
  by (auto simp: parser_def c_str_no_nul Let_def MAX_IN_ADDR_BYTE_LEN_def overlay_def min_def)

subsection \<open>A sample of the text conversions for concrete runs\<close>

text \<open>
  Two letters per byte, and a colon in front of an IPv6 address: an executable stand-in that
  satisfies \<open>inet_laws\<close>, for the witnesses.
\<close>

definition letter :: "nat \<Rightarrow> char" where
  "letter n = char_of (65 + n)"

definition letter_val :: "char \<Rightarrow> nat" where
  "letter_val c = of_char c - 65"

fun enc_bytes :: "byte list \<Rightarrow> string" where
  "enc_bytes [] = []"
| "enc_bytes (b # bs) = letter (unat b div 16) # letter (unat b mod 16) # enc_bytes bs"

fun dec_bytes :: "string \<Rightarrow> byte list" where
  "dec_bytes (x # y # s) = word_of_nat (16 * letter_val x + letter_val y) # dec_bytes s"
| "dec_bytes _ = []"

definition sample_inet :: inet where
  "sample_inet =
     \<lparr>inet_pton = (\<lambda>af s.
        if af = AF_INET then (if length s = 8 then (1, dec_bytes s) else (0, []))
        else (case s of [] \<Rightarrow> (0, []) | c # cs \<Rightarrow>
                if c = CHR '':'' \<and> length cs = 32 then (1, dec_bytes cs) else (0, []))),
      inet_ntop = (\<lambda>af bs size.
        let s = (if af = AF_INET then enc_bytes (take 4 bs) else CHR '':'' # enc_bytes bs)
        in if length s < size then Some s else None)\<rparr>"

lemma letter_val_letter: "n < 16 \<Longrightarrow> letter_val (letter n) = n"
  by (simp add: letter_def letter_val_def)

lemma letter_not_nul: "n < 16 \<Longrightarrow> letter n \<noteq> CHR 0x00"
proof
  assume "n < 16" and "letter n = CHR 0x00"
  then have "of_char (letter n) = (0::nat)" by simp
  with \<open>n < 16\<close> show False by (simp add: letter_def)
qed

lemma unat_byte_less: "unat (b :: byte) < 256"
  using unsigned_less [where ?'a = nat and w = b] by simp

lemma dec_enc: "dec_bytes (enc_bytes bs) = bs"
proof (induction bs)
  case (Cons b bs)
  have "unat b div 16 < 16" using unat_byte_less [of b] by simp
  moreover have "16 * (unat b div 16) + unat b mod 16 = unat b" by simp
  ultimately show ?case using Cons by (simp add: letter_val_letter)
qed simp

lemma enc_no_nul: "CHR 0x00 \<notin> set (enc_bytes bs)"
proof (induction bs)
  case (Cons b bs)
  have "letter (unat b div 16) \<noteq> CHR 0x00"
    using unat_byte_less [of b] by (intro letter_not_nul) simp
  moreover have "letter (unat b mod 16) \<noteq> CHR 0x00" by (intro letter_not_nul) simp
  ultimately show ?case using Cons by (metis enc_bytes.simps(2) set_ConsD)
qed simp

lemma length_enc [simp]: "length (enc_bytes bs) = 2 * length bs"
  by (induction bs) simp_all

lemma sample_inet_laws: "inet_laws sample_inet"
  by (auto simp: inet_laws_def sample_inet_def addr_text_len_def addr_bytes_def dec_enc
      enc_no_nul)

definition sample_addr :: "size_t \<Rightarrow> in_address_port_t" where
  "sample_addr prt =
     \<lparr>ap_addr = \<lparr>m_data = [127, 0, 0, 1, 0, 0, 0, 0, 0, 0, 0, 0, 0, 0, 0, 0], m_family = AF_INET\<rparr>,
      ap_port = prt\<rparr>"

subsection \<open>Properties\<close>

lemma create_to_string:
  assumes laws: "inet_laws N" and wf: "wf_address a"
  shows "\<exists>s b. to_string N a = Inr s \<and> create N junk s = Some b \<and> m_family b = m_family a
           \<and> take (addr_bytes (m_family a)) (m_data b) = take (addr_bytes (m_family a)) (m_data a)"
proof -
  let ?f = "m_family a"
  from wf have f: "?f = AF_INET \<or> ?f = AF_INET6" and len: "length (m_data a) = 16"
    by (auto simp: wf_address_def is_ipv4_def is_ipv6_def inet_consts)
  with laws obtain s where s: "inet_ntop N ?f (m_data a) (addr_text_len ?f) = Some s"
      "length s < addr_text_len ?f" "CHR 0x00 \<notin> set s" "0 < fst (inet_pton N ?f s)"
      "snd (inet_pton N ?f s) = take (addr_bytes ?f) (m_data a)"
      "?f = AF_INET6 \<longrightarrow> fst (inet_pton N AF_INET s) \<le> 0"
    unfolding inet_laws_def by blast
  from s(1-3) have printed: "to_string N a = Inr s" by (rule to_string_text)
  have "addr_bytes ?f \<le> 16" by (simp add: addr_bytes_def)
  from parser_reads_back [OF s(2-5) this len, of junk] obtain d
    where d: "parser N junk ?f (addr_text_len ?f) s = Some (d, ?f)"
      "take (addr_bytes ?f) d = take (addr_bytes ?f) (m_data a)" by blast
  have "init N junk s = Some (d, ?f)"
  proof (cases "?f = AF_INET")
    case True
    with d(1) show ?thesis by (simp add: init_def inet_consts addr_text_len_def)
  next
    case False
    with f s(3,6) have "parser N junk ipv4 MAX_IP4_STR_LEN s = None"
      by (auto simp: parser_def c_str_no_nul inet_consts)
    with False f d(1) show ?thesis by (auto simp: init_def inet_consts addr_text_len_def)
  qed
  then show ?thesis using printed d(2) by (auto simp: create_def)
qed

text \<open>
  C34: An address printed as text and parsed again is an address of the same family with the
  same bytes; an IPv6 text is not mistaken for an IPv4 one.
\<close>

theorem address_text_roundtrip:
  assumes "inet_laws N" and "wf_address a"
  shows "\<exists>s b. to_string N a = Inr s \<and> create N junk s = Some b \<and> m_family b = m_family a
           \<and> take (addr_bytes (m_family a)) (m_data b) = take (addr_bytes (m_family a)) (m_data a)"
  using assms by (rule create_to_string)

theorem address_text_roundtrip_witness:
  "\<exists>s b. to_string sample_inet (ap_addr (sample_addr 80)) = Inr s
     \<and> create sample_inet (\<lambda>_. 7) s = Some b \<and> m_family b = AF_INET \<and> take 4 (m_data b) = [127, 0, 0, 1]"
proof -
  have "wf_address (ap_addr (sample_addr 80))"
    by (simp add: wf_address_def sample_addr_def is_ipv4_def inet_consts)
  from address_text_roundtrip [OF sample_inet_laws this, of "\<lambda>_. 7"]
  show ?thesis by (simp add: sample_addr_def addr_bytes_def)
qed

lemma last_colon:
  assumes "s @ '':'' @ decimal m = t @ '':'' @ decimal n"
  shows "s = t \<and> m = n"
proof -
  have d: "takeWhile (\<lambda>c. c \<noteq> CHR '':'') (rev (x @ '':'' @ decimal k)) = rev (decimal k)" for x k
  proof -
    have "\<And>c. c \<in> set (rev (decimal k)) \<Longrightarrow> c \<noteq> CHR '':''"
      using decimal_is_numeral [of k] digit_not_sign unfolding is_numeral_def by (metis set_rev)
    then have "takeWhile (\<lambda>c. c \<noteq> CHR '':'') (rev (decimal k) @ CHR '':'' # rev x)
        = rev (decimal k) @ takeWhile (\<lambda>c. c \<noteq> CHR '':'') (CHR '':'' # rev x)"
      by (rule takeWhile_append2)
    then show ?thesis by simp
  qed
  from arg_cong [OF assms, of "\<lambda>x. takeWhile (\<lambda>c. c \<noteq> CHR '':'') (rev x)"]
  have "decimal m = decimal n" unfolding d by simp
  with assms show ?thesis by simp
qed

text \<open>
  C35: Two addresses with ports that are printed alike have the same family, the same port and
  the same bytes as far as the family uses them.
\<close>

theorem address_port_text_is_unique:
  assumes "inet_laws N" and "wf_address (ap_addr a)" and "wf_address (ap_addr b)"
    and "address_port_to_string N a = address_port_to_string N b"
  shows "address_family (ap_addr a) = address_family (ap_addr b) \<and> ap_port a = ap_port b
    \<and> take (addr_bytes (address_family (ap_addr a))) (address_bytes (ap_addr a))
      = take (addr_bytes (address_family (ap_addr a))) (address_bytes (ap_addr b))"
proof -
  define junk :: "nat \<Rightarrow> byte" where "junk = (\<lambda>_. 0)"
  obtain s x where s: "to_string N (ap_addr a) = Inr s" "create N junk s = Some x" "m_family x = m_family (ap_addr a)"
    "take (addr_bytes (m_family (ap_addr a))) (m_data x) = take (addr_bytes (m_family (ap_addr a))) (m_data (ap_addr a))"
    using create_to_string [OF assms(1,2)] by blast
  obtain t y where t: "to_string N (ap_addr b) = Inr t" "create N junk t = Some y" "m_family y = m_family (ap_addr b)"
    "take (addr_bytes (m_family (ap_addr b))) (m_data y) = take (addr_bytes (m_family (ap_addr b))) (m_data (ap_addr b))"
    using create_to_string [OF assms(1,3)] by blast
  have "s @ '':'' @ decimal (unat (ap_port a)) = t @ '':'' @ decimal (unat (ap_port b))"
    using assms(4) s(1) t(1) by (simp add: address_port_to_string_def)
  then have eq: "s = t" "unat (ap_port a) = unat (ap_port b)" by (blast dest: last_colon)+
  then have "y = x" using s(2) t(2) by simp
  moreover have "ap_port a = ap_port b" using eq(2) by (rule word_unat_eq_iff [THEN iffD2])
  ultimately show ?thesis using s(3,4) t(3,4) by (simp add: address_family_def address_bytes_def)
qed

theorem address_port_text_is_unique_witness:
  "\<exists>b. address_port_to_string sample_inet (sample_addr 80) = address_port_to_string sample_inet b
     \<and> b \<noteq> sample_addr 80 \<and> ap_port b = 80 \<and> take 4 (address_bytes (ap_addr b)) = [127, 0, 0, 1]"
proof -
  let ?b = "(sample_addr 80)\<lparr>ap_addr := \<lparr>m_data = [127, 0, 0, 1, 9, 9, 9, 9, 9, 9, 9, 9, 9, 9, 9, 9], m_family = AF_INET\<rparr>\<rparr>"
  have eq: "address_port_to_string sample_inet (sample_addr 80) = address_port_to_string sample_inet ?b"
    by (simp add: address_port_to_string_def to_string_def address_family_def address_bytes_def sample_addr_def
        sample_inet_def)
  have "wf_address (ap_addr (sample_addr 80))" "wf_address (ap_addr ?b)"
    by (simp_all add: wf_address_def sample_addr_def is_ipv4_def inet_consts)
  from address_port_text_is_unique [OF sample_inet_laws this eq] eq show ?thesis
    by (intro exI [of _ ?b]) (simp add: sample_addr_def addr_bytes_def address_family_def address_bytes_def)
qed

text \<open>A system that knows the loopback address only, for the witnesses of the examples.\<close>

definition loopback_inet :: inet where
  "loopback_inet =
     \<lparr>inet_pton = (\<lambda>af s. if af = AF_INET \<and> s = ''127.0.0.1'' then (1, [127, 0, 0, 1]) else (0, [])),
      inet_ntop = (\<lambda>af bs size. if af = AF_INET \<and> 9 < size then Some ''127.0.0.1'' else None)\<rparr>"

lemma loopback_parse:
  "\<exists>a. from_string_and_port loopback_inet junk ''127.0.0.1'' prt = Some a \<and> is_ipv4 (ap_addr a)"
  by (simp add: from_string_and_port_def create_def init_def parser_def loopback_inet_def inet_consts Let_def
      c_str_def addr_bytes_def is_ipv4_def)

end
