(* ===== verification/Sockaddr.thy ===== *)
theory Sockaddr
  imports In_Address
begin

section \<open>Socket addresses as bytes\<close>

text \<open>
  Models the conversions of \<^verbatim>\<open>src/socket/socket_impl.cpp\<close> between the library's addresses
  and the system's \<^verbatim>\<open>sockaddr_in\<close> (16 bytes: family, port, 4 bytes of address, 8 bytes of
  padding) and \<^verbatim>\<open>sockaddr_in6\<close> (28 bytes: family, port, flow, 16 bytes of address, scope).
  An object is its bytes in memory on x86-64 Linux, so that the copies, which the source does with
  byte pointers, can be followed past the end of an object.
\<close>

abbreviation (input) "sizeof_sockaddr_in \<equiv> (16::nat)"
abbreviation (input) "sizeof_sockaddr_in6 \<equiv> (28::nat)"

text \<open>\<^verbatim>\<open>htons\<close> takes a \<^verbatim>\<open>uint16_t\<close>: a wider port is cut to its low 16 bits.\<close>

definition htons :: "size_t \<Rightarrow> byte list" where
  "htons prt = (let p = unat prt mod 2 ^ 16 in [word_of_nat (p div 256), word_of_nat (p mod 256)])"

definition ntohs :: "byte \<Rightarrow> byte \<Rightarrow> size_t" where
  "ntohs hi lo = word_of_nat (256 * unat hi + unat lo)"

definition sa_family :: "int \<Rightarrow> byte list" where
  "sa_family f = [word_of_int f, word_of_int (f div 256)]"

definition sock_addr4 :: "in_address_t \<Rightarrow> size_t \<Rightarrow> byte list" where
  "sock_addr4 a prt = sa_family (m_family a) @ htons prt @ take 4 (m_data a) @ replicate 8 0"

definition sock_addr6 :: "in_address_t \<Rightarrow> size_t \<Rightarrow> byte list" where
  "sock_addr6 a prt =
     sa_family (m_family a) @ htons prt @ replicate 4 0 @ take 16 (m_data a) @ replicate 4 0"

text \<open>What \<^verbatim>\<open>bind\<close> and \<^verbatim>\<open>connect\<close> pass for a parsed address.\<close>

definition sock_addr_of :: "in_address_port_t \<Rightarrow> byte list" where
  "sock_addr_of a =
     (if is_ipv4 (ap_addr a) then sock_addr4 (ap_addr a) (ap_port a) else sock_addr6 (ap_addr a) (ap_port a))"

text \<open>
  \<open>copy_out obj off n dest_size behind\<close> copies \<open>n\<close> bytes from offset
  \<open>off\<close> of \<open>obj\<close> to the start of an object of \<open>dest_size\<close> bytes:
  what the destination holds, and the undefined behaviours met. Bytes read past the end of
  \<open>obj\<close> come from the memory behind it.
\<close>

definition copy_out ::
  "byte list \<Rightarrow> nat \<Rightarrow> nat \<Rightarrow> nat \<Rightarrow> (nat \<Rightarrow> byte) \<Rightarrow> byte list \<times> ub list" where
  "copy_out obj off n dest_size behind =
     (let past = off + n - length obj;
          src = drop off obj @ map behind [0..<past]
      in (take dest_size (take n src),
          (if 0 < past then [ReadPastEnd past] else [])
          @ (if dest_size < n then [WritePastEnd (n - dest_size)] else [])))"

definition mark_ubs :: "ub list \<Rightarrow> 'k world \<Rightarrow> 'k world" where
  "mark_ubs us w = fold mark_ub us w"

text \<open>
  \<^verbatim>\<open>parse_addr\<close>: the source copies \<^verbatim>\<open>sizeof(sockaddr_in)\<close> bytes from the
  \<^emph>\<open>address field\<close> on, not \<^verbatim>\<open>sizeof\<close> of the field; likewise for IPv6, where the
  16-byte destination is too small as well.
\<close>

definition parse_addr4 :: "byte list \<Rightarrow> 'k world \<Rightarrow> in_address_port_t option \<times> 'k world" where
  "parse_addr4 obj w =
     (case copy_out obj 4 sizeof_sockaddr_in MAX_IN_ADDR_BYTE_LEN (w_junk w) of
        (bytes, us) \<Rightarrow>
          (Some \<lparr>ap_addr = \<lparr>m_data = bytes, m_family = ipv4\<rparr>, ap_port = ntohs (obj ! 2) (obj ! 3)\<rparr>,
           mark_ubs us w))"

definition parse_addr6 :: "byte list \<Rightarrow> 'k world \<Rightarrow> in_address_port_t option \<times> 'k world" where
  "parse_addr6 obj w =
     (case copy_out obj 8 sizeof_sockaddr_in6 MAX_IN_ADDR_BYTE_LEN (w_junk w) of
        (bytes, us) \<Rightarrow>
          (Some \<lparr>ap_addr = \<lparr>m_data = bytes, m_family = ipv6\<rparr>, ap_port = ntohs (obj ! 2) (obj ! 3)\<rparr>,
           mark_ubs us w))"

subsection \<open>Shapes\<close>

lemma length_htons [simp]: "length (htons p) = 2"
  by (simp add: htons_def Let_def)

lemma length_sa_family [simp]: "length (sa_family f) = 2"
  by (simp add: sa_family_def)

lemma length_sock_addr4: "4 \<le> length (m_data a) \<Longrightarrow> length (sock_addr4 a p) = sizeof_sockaddr_in"
  by (simp add: sock_addr4_def)

lemma length_sock_addr6: "16 \<le> length (m_data a) \<Longrightarrow> length (sock_addr6 a p) = sizeof_sockaddr_in6"
  by (simp add: sock_addr6_def)

lemma ntohs_htons: "ntohs (htons p ! 0) (htons p ! 1) = word_of_nat (unat p mod 2 ^ 16)"
proof -
  let ?p = "unat p mod 2 ^ 16"
  have "?p div 256 < 256" by simp
  then have "256 * (?p div 256 mod 256) + ?p mod 256 = ?p" by simp
  then show ?thesis by (simp add: htons_def ntohs_def Let_def unat_of_nat)
qed

lemma htons_of_int: "htons (word_of_int p) = [word_of_int (p div 256), word_of_int p]"
proof -
  have "int (unat (word_of_int p :: size_t) mod 2 ^ 16) = p mod 2 ^ 64 mod 2 ^ 16"
    by (simp add: unsigned_of_int take_bit_eq_mod zmod_int)
  then have n: "unat (word_of_int p :: size_t) mod 2 ^ 16 = nat (p mod 2 ^ 16)"
    by (simp add: mod_mod_cancel nat_eq_iff2)
  have split: "p mod 65536 = 256 * (p div 256 mod 256) + p mod 256"
    using zmod_zmult2_eq [of 256 p 256] by simp
  then have "p mod 65536 div 256 = p div 256 mod 256" "p mod 65536 mod 256 = p mod 256" by simp_all
  then have hi: "word_of_int (p mod 65536 div 256) = (word_of_int (p div 256) :: byte)"
    and lo: "word_of_int (p mod 65536 mod 256) = (word_of_int p :: byte)"
    by (simp_all add: word_of_int_eq_iff take_bit_eq_mod)
  have nat_int: "int (nat (p mod 65536) div 256) = p mod 65536 div 256" "int (nat (p mod 65536) mod 256) = p mod 65536 mod 256"
    by (simp_all add: zdiv_int zmod_int)
  have "(word_of_nat (nat (p mod 65536) div 256) :: byte) = word_of_int (int (nat (p mod 65536) div 256))"
    "(word_of_nat (nat (p mod 65536) mod 256) :: byte) = word_of_int (int (nat (p mod 65536) mod 256))"
    by (simp_all only: of_int_of_nat_eq)
  then show ?thesis unfolding htons_def n Let_def by (simp add: nat_int hi lo)
qed

lemma mark_ubs_simps [simp]:
  "mark_ubs [] w = w"
  "mark_ubs (u # us) w = mark_ubs us (mark_ub u w)"
  by (simp_all add: mark_ubs_def)

lemma mark_ubs_frame [simp]:
  "w_kern (mark_ubs us w) = w_kern w"
  "w_errno (mark_ubs us w) = w_errno w"
  "w_junk (mark_ubs us w) = w_junk w"
  "w_connect_static (mark_ubs us w) = w_connect_static w"
  "w_tl_events (mark_ubs us w) = w_tl_events w"
  "ledger_ok live (mark_ubs us w) = ledger_ok live w"
  "open_fds (w_trace (mark_ubs us w)) = open_fds (w_trace w)"
  by (induction us arbitrary: w) simp_all

lemma w_trace_mark_ubs [simp]: "w_trace (mark_ubs us w) = rev (map Ub us) @ w_trace w"
  by (induction us arbitrary: w) simp_all

text \<open>An address that came from the system goes back to it unchanged.\<close>

lemma htons_ntohs: "htons (ntohs h l) = [h, l]"
proof -
  have b: "unat h < 256" "unat l < 256" using unat_byte_less by auto
  then have "(256 * unat h + unat l) < 65536" by linarith
  then have "unat (ntohs h l) = 256 * unat h + unat l"
    unfolding ntohs_def unat_of_nat by simp
  with b show ?thesis by (simp add: htons_def Let_def)
qed

lemma sock_addr4_of_parsed:
  assumes "obj = sa_family AF_INET @ prt @ host @ replicate 8 0" and "length prt = 2" and "length host = 4"
    and "parse_addr4 obj w = (Some a, w')"
  shows "is_ipv4 (ap_addr a) \<and> sock_addr4 (ap_addr a) (ap_port a) = obj"
proof -
  obtain h l where prt: "prt = [h, l]" using assms(2) by (auto simp: numeral_2_eq_2 length_Suc_conv)
  have p: "ntohs (obj ! 2) (obj ! 3) = ntohs h l"
    using assms(1) prt by (simp add: sa_family_def)
  have d: "drop 4 obj = host @ replicate 8 0"
    using assms(1,2) by (simp add: sa_family_def)
  have len: "length obj = 16" using assms(1-3) by simp
  have data: "take 4 (m_data (ap_addr a)) = host" "m_family (ap_addr a) = ipv4" "ap_port a = ntohs h l"
    using assms(3,4) p d len by (auto simp: parse_addr4_def copy_out_def Let_def inet_consts)
  then show ?thesis
    using assms(1) prt by (simp add: is_ipv4_def sock_addr4_def htons_ntohs inet_consts)
qed

subsection \<open>Properties\<close>

text \<open>
  C36: An IPv4 address and port written as a sockaddr_in and parsed again keep the address
  bytes; the port comes back modulo 2 to the 16, the rest of the parsed bytes are the padding,
  and the parse reads 4 bytes past the end of the structure.
\<close>

theorem sockaddr_roundtrip4:
  assumes "is_ipv4 a" and "length (m_data a) = MAX_IN_ADDR_BYTE_LEN"
  shows "\<exists>b. fst (parse_addr4 (sock_addr4 a p) w) = Some \<lparr>ap_addr = b, ap_port = word_of_nat (unat p mod 2 ^ 16)\<rparr>
           \<and> is_ipv4 b \<and> length (m_data b) = MAX_IN_ADDR_BYTE_LEN
           \<and> take 4 (m_data b) = take 4 (m_data a)
           \<and> (\<forall>k\<in>{4..<12}. m_data b ! k = 0)
           \<and> w_trace (snd (parse_addr4 (sock_addr4 a p) w)) = Ub (ReadPastEnd 4) # w_trace w"
proof -
  have len: "length (sock_addr4 a p) = 16"
    using assms(2) by (intro length_sock_addr4) (simp add: inet_consts)
  have prt: "ntohs (sock_addr4 a p ! 2) (sock_addr4 a p ! 3) = word_of_nat (unat p mod 2 ^ 16)"
    using ntohs_htons [of p] by (simp add: sock_addr4_def nth_append)
  have src: "drop 4 (sock_addr4 a p) = take 4 (m_data a) @ replicate 8 0"
    by (simp add: sock_addr4_def)
  show ?thesis
    using assms len prt src
    by (auto simp: parse_addr4_def copy_out_def Let_def inet_consts is_ipv4_def nth_append
        min_def nth_Cons split: nat.splits)
qed

theorem sockaddr_roundtrip4_witness:
  "\<exists>b. fst (parse_addr4 (sock_addr4 (ap_addr (sample_addr 80)) 70000) (init_world ())) =
         Some \<lparr>ap_addr = b, ap_port = 4464\<rparr> \<and> take 4 (m_data b) = [127, 0, 0, 1]"
  using sockaddr_roundtrip4 [of "ap_addr (sample_addr 80)" 70000 "init_world ()"]
  by (auto simp: sample_addr_def is_ipv4_def inet_consts)

theorem parse_addr6_overflows:
  assumes "length obj = sizeof_sockaddr_in6"
  shows "w_trace (snd (parse_addr6 obj w)) = Ub (WritePastEnd 12) # Ub (ReadPastEnd 8) # w_trace w"
  using assms by (simp add: parse_addr6_def copy_out_def Let_def inet_consts)

theorem parse_addr6_overflows_witness:
  "w_trace (snd (parse_addr6 (sock_addr6 \<lparr>m_data = replicate 16 1, m_family = AF_INET6\<rparr> 80) (init_world ())))
     = [Ub (WritePastEnd 12), Ub (ReadPastEnd 8)]"
  using parse_addr6_overflows [of "sock_addr6 \<lparr>m_data = replicate 16 1, m_family = AF_INET6\<rparr> 80" "init_world ()"]
  by (simp add: length_sock_addr6)

end
