(* ===== verification/Socket_Impl.thy ===== *)
theory Socket_Impl
  imports Sockaddr
begin

section \<open>The socket implementation\<close>

text \<open>
  Models \<^verbatim>\<open>include/socket/socket_impl.h\<close> and \<^verbatim>\<open>src/socket/socket_impl.cpp\<close>: a
  descriptor that may be absent (a moved-from or never opened object) and its address family, with
  one operation per system call. The class has no destructor; the typed sockets close it.

  An operation takes the system, the object and the world and returns its result, the object where
  it changes, and the world. A call that fills a buffer returns the buffer; the buffer is at least as
  long as the size given, as every caller in the repository ensures.
\<close>

record socket_impl =
  si_fd :: "int option"
  si_family :: int

definition socket_impl_ctor :: "int \<Rightarrow> int \<Rightarrow> socket_impl" where
  "socket_impl_ctor fd fam = \<lparr>si_fd = Some fd, si_family = fam\<rparr>"

text \<open>
  The move constructor and the move assignment (of distinct objects) return the new or assigned
  object and what is left of the source. The assignment does not look at the descriptor the target
  held.
\<close>

definition move_impl :: "socket_impl \<Rightarrow> socket_impl \<times> socket_impl" where
  "move_impl other = (\<lparr>si_fd = si_fd other, si_family = si_family other\<rparr>, other\<lparr>si_fd := None\<rparr>)"

definition move_assign_impl :: "socket_impl \<Rightarrow> socket_impl \<Rightarrow> socket_impl \<times> socket_impl" where
  "move_assign_impl this other =
     (this\<lparr>si_fd := si_fd other, si_family := si_family other\<rparr>, other\<lparr>si_fd := None\<rparr>)"

definition impl_empty :: "socket_impl \<Rightarrow> bool" where
  "impl_empty s \<longleftrightarrow> si_fd s = None"

definition impl_fd :: "socket_impl \<Rightarrow> int" where
  "impl_fd s = (case si_fd s of Some fd \<Rightarrow> fd | None \<Rightarrow> -1)"

text \<open>
  \<^verbatim>\<open>socket_impl sock;\<close> leaves the family unset; every path that keeps the object sets it
  first.
\<close>

definition impl_default :: socket_impl where
  "impl_default = \<lparr>si_fd = None, si_family = 0\<rparr>"

definition impl_open :: "'k os \<Rightarrow> socket_impl \<Rightarrow> int \<Rightarrow> int \<Rightarrow> int \<Rightarrow> 'k world \<Rightarrow> bool \<times> socket_impl \<times> 'k world" where
  "impl_open K s fam proto flags w =
     (case do_sys K (SysSocket fam (SOCK_NONBLOCK OR proto) flags) w of
        (r, w1) \<Rightarrow>
          if rp_ret r \<noteq> -1
          then (True, s\<lparr>si_family := fam, si_fd := Some (rp_ret r)\<rparr>, w1)
          else (False, s, w1))"

definition dir_READ :: uint32 where
  "dir_READ = 1"

definition dir_WRITE :: uint32 where
  "dir_WRITE = push_bit 1 1"

definition dir_BOTH :: uint32 where
  "dir_BOTH = dir_READ OR dir_WRITE"

definition impl_shutdown :: "'k os \<Rightarrow> socket_impl \<Rightarrow> uint32 \<Rightarrow> 'k world \<Rightarrow> bool \<times> 'k world" where
  "impl_shutdown K s dir w =
     (let macro_dir = (if dir = dir_WRITE then SHUT_WR
                       else if dir = dir_READ then SHUT_RD else SHUT_RDWR)
      in case si_fd s of
           None \<Rightarrow> (True, w)
         | Some fd \<Rightarrow> (case do_sys K (SysShutdown fd macro_dir) w of (r, w1) \<Rightarrow> (rp_ret r = 0, w1)))"

definition impl_close :: "'k os \<Rightarrow> socket_impl \<Rightarrow> 'k world \<Rightarrow> bool \<times> 'k world" where
  "impl_close K s w =
     (case si_fd s of
        None \<Rightarrow> (True, w)
      | Some fd \<Rightarrow> (case do_sys K (SysClose fd) w of (r, w1) \<Rightarrow> (rp_ret r = 0, w1)))"

definition bind_addr :: "'k os \<Rightarrow> socket_impl \<Rightarrow> byte list \<Rightarrow> 'k world \<Rightarrow> bool \<times> 'k world" where
  "bind_addr K s sa w =
     (case si_fd s of
        None \<Rightarrow> (False, w)
      | Some fd \<Rightarrow> (case do_sys K (SysBind fd sa) w of (r, w1) \<Rightarrow> (rp_ret r = 0, w1)))"

definition impl_bind :: "'k os \<Rightarrow> socket_impl \<Rightarrow> in_address_port_t \<Rightarrow> 'k world \<Rightarrow> bool \<times> 'k world" where
  "impl_bind K s local w =
     (if is_ipv4 (ap_addr local) then bind_addr K s (sock_addr4 (ap_addr local) (ap_port local)) w
      else if is_ipv6 (ap_addr local) then bind_addr K s (sock_addr6 (ap_addr local) (ap_port local)) w
      else (False, w))"

text \<open>
  \<^verbatim>\<open>connect\<close> reads \<^verbatim>\<open>*m_fd\<close> before it tests \<^verbatim>\<open>m_fd\<close>: on an empty object
  that is undefined behaviour, and the test after it answers \<open>False\<close>.
\<close>

definition connect_addr :: "'k os \<Rightarrow> socket_impl \<Rightarrow> byte list \<Rightarrow> 'k world \<Rightarrow> bool \<times> 'k world" where
  "connect_addr K s sa w =
     (case si_fd s of
        None \<Rightarrow> (False, mark_ub EmptyOptional w)
      | Some fd \<Rightarrow>
          (case do_sys K (SysConnect fd sa) w of
             (r, w1) \<Rightarrow> (w_errno w1 = EINPROGRESS \<or> rp_ret r = 0, w1)))"

definition impl_connect :: "'k os \<Rightarrow> socket_impl \<Rightarrow> in_address_port_t \<Rightarrow> 'k world \<Rightarrow> bool \<times> 'k world" where
  "impl_connect K s remote w =
     (if is_ipv4 (ap_addr remote) then connect_addr K s (sock_addr4 (ap_addr remote) (ap_port remote)) w
      else if is_ipv6 (ap_addr remote) then connect_addr K s (sock_addr6 (ap_addr remote) (ap_port remote)) w
      else (False, w))"

definition impl_listen :: "'k os \<Rightarrow> socket_impl \<Rightarrow> uint32 \<Rightarrow> 'k world \<Rightarrow> bool \<times> 'k world" where
  "impl_listen K s max_conn w =
     (case si_fd s of
        None \<Rightarrow> (False, w)
      | Some fd \<Rightarrow>
          (case do_sys K (SysListen fd (c_int (uint max_conn))) w of (r, w1) \<Rightarrow> (rp_ret r = 0, w1)))"

definition accept_addr ::
  "'k os \<Rightarrow> nat \<Rightarrow> (byte list \<Rightarrow> 'k world \<Rightarrow> in_address_port_t option \<times> 'k world) \<Rightarrow> socket_impl \<Rightarrow> 'k world
   \<Rightarrow> (socket_impl \<times> in_address_port_t) option \<times> 'k world" where
  "accept_addr K addr_size parse s w =
     (case si_fd s of
        None \<Rightarrow> (None, w)
      | Some fd \<Rightarrow>
          (case do_sys K (SysAccept4 fd addr_size SOCK_NONBLOCK) w of
             (r, w1) \<Rightarrow>
               if rp_ret r \<noteq> -1
               then (case parse (overlay (replicate addr_size 0) (rp_addr r)) w1 of
                       (Some a, w2) \<Rightarrow> (Some (socket_impl_ctor (rp_ret r) (si_family s), a), w2)
                     | (None, w2) \<Rightarrow> (None, snd (do_sys K (SysClose (rp_ret r)) w2)))
               else (None, w1)))"

definition impl_accept ::
  "'k os \<Rightarrow> socket_impl \<Rightarrow> 'k world \<Rightarrow> (socket_impl \<times> in_address_port_t) option \<times> 'k world" where
  "impl_accept K s w =
     (if si_family s = ipv4 then accept_addr K sizeof_sockaddr_in parse_addr4 s w
      else if si_family s = ipv6 then accept_addr K sizeof_sockaddr_in6 parse_addr6 s w
      else (None, w))"

definition impl_send ::
  "'k os \<Rightarrow> socket_impl \<Rightarrow> byte list \<Rightarrow> size_t \<Rightarrow> int \<Rightarrow> 'k world \<Rightarrow> size_t option \<times> 'k world" where
  "impl_send K s buffer n flags w =
     (case si_fd s of
        None \<Rightarrow> (None, w)
      | Some fd \<Rightarrow>
          (case do_sys K (SysSend fd buffer n flags) w of
             (r, w1) \<Rightarrow> (if rp_ret r \<noteq> -1 then Some (word_of_int (rp_ret r)) else None, w1)))"

text \<open>
  \<^verbatim>\<open>send_to\<close> keeps the result of \<^verbatim>\<open>sendto\<close> in a \<^verbatim>\<open>std::size_t\<close> and compares it with
  \<^verbatim>\<open>static_cast<std::size_t>(-1)\<close>.
\<close>

definition send_to_impl ::
  "'k os \<Rightarrow> socket_impl \<Rightarrow> in_address_port_t \<Rightarrow> byte list \<Rightarrow> size_t \<Rightarrow> int
   \<Rightarrow> (in_address_t \<Rightarrow> size_t \<Rightarrow> byte list) \<Rightarrow> 'k world \<Rightarrow> size_t \<times> 'k world" where
  "send_to_impl K s remote buffer n flags f w =
     (case si_fd s of
        None \<Rightarrow> (-1, mark_ub EmptyOptional w)
      | Some fd \<Rightarrow>
          (case do_sys K (SysSendto fd buffer n flags (f (ap_addr remote) (ap_port remote))) w of
             (r, w1) \<Rightarrow> (word_of_int (rp_ret r), w1)))"

definition impl_send_to ::
  "'k os \<Rightarrow> socket_impl \<Rightarrow> in_address_port_t \<Rightarrow> byte list \<Rightarrow> size_t \<Rightarrow> int \<Rightarrow> 'k world \<Rightarrow> size_t option \<times> 'k world" where
  "impl_send_to K s remote buffer n flags w =
     (case (if si_fd s \<noteq> None \<and> si_family s = m_family (ap_addr remote)
            then (if is_ipv4 (ap_addr remote) then send_to_impl K s remote buffer n flags sock_addr4 w
                  else if is_ipv6 (ap_addr remote) then send_to_impl K s remote buffer n flags sock_addr6 w
                  else (-1, w))
            else (-1, w)) of
        (ret, w1) \<Rightarrow> (if ret = -1 then None else Some ret, w1))"

definition impl_receive ::
  "'k os \<Rightarrow> socket_impl \<Rightarrow> byte list \<Rightarrow> size_t \<Rightarrow> int \<Rightarrow> 'k world \<Rightarrow> size_t option \<times> byte list \<times> 'k world" where
  "impl_receive K s buffer n flags w =
     (case si_fd s of
        None \<Rightarrow> (None, buffer, w)
      | Some fd \<Rightarrow>
          (case do_sys K (SysRecv fd n flags) w of
             (r, w1) \<Rightarrow>
               if rp_ret r \<noteq> -1
               then (Some (word_of_int (rp_ret r)), overlay buffer (rp_data r), w1)
               else (None, buffer, w1)))"

definition recv_from_impl ::
  "'k os \<Rightarrow> nat \<Rightarrow> (byte list \<Rightarrow> 'k world \<Rightarrow> in_address_port_t option \<times> 'k world) \<Rightarrow> socket_impl
   \<Rightarrow> byte list \<Rightarrow> size_t \<Rightarrow> int \<Rightarrow> 'k world
   \<Rightarrow> (in_address_port_t \<times> size_t) option \<times> byte list \<times> 'k world" where
  "recv_from_impl K addr_size parse s buffer n flags w =
     (case si_fd s of
        None \<Rightarrow> (None, buffer, mark_ub EmptyOptional w)
      | Some fd \<Rightarrow>
          (case do_sys K (SysRecvfrom fd n flags addr_size) w of
             (r, w1) \<Rightarrow>
               if rp_ret r \<noteq> -1
               then (case parse (overlay (replicate addr_size 0) (rp_addr r)) w1 of
                       (Some a, w2) \<Rightarrow> (Some (a, word_of_int (rp_ret r)), overlay buffer (rp_data r), w2)
                     | (None, w2) \<Rightarrow> (None, overlay buffer (rp_data r), w2))
               else (None, buffer, w1)))"

definition impl_receive_from ::
  "'k os \<Rightarrow> socket_impl \<Rightarrow> byte list \<Rightarrow> size_t \<Rightarrow> int \<Rightarrow> 'k world
   \<Rightarrow> (in_address_port_t \<times> size_t) option \<times> byte list \<times> 'k world" where
  "impl_receive_from K s buffer n flags w =
     (if si_fd s \<noteq> None
      then (if si_family s = ipv4 then recv_from_impl K sizeof_sockaddr_in parse_addr4 s buffer n flags w
            else if si_family s = ipv6 then recv_from_impl K sizeof_sockaddr_in6 parse_addr6 s buffer n flags w
            else (None, buffer, w))
      else (None, buffer, w))"

definition eagain :: "'k world \<Rightarrow> bool" where
  "eagain w \<longleftrightarrow> w_errno w = EAGAIN"

definition would_block :: "'k world \<Rightarrow> bool" where
  "would_block w \<longleftrightarrow> w_errno w = EWOULDBLOCK"

end
