(* ===== verification/Typed_Sockets.thy ===== *)
theory Typed_Sockets
  imports Socket_Impl
begin

section \<open>Typed sockets\<close>

text \<open>
  Models the socket states of \<^verbatim>\<open>include/socket/socket.h\<close>, \<^verbatim>\<open>include/socket_states/\<close> and
  \<^verbatim>\<open>src/socket/socket.tpp\<close>, and the policies of \<^verbatim>\<open>include/policy/\<close> that give each state
  its operations. A state is a class of its own; an operation that changes the state moves the
  implementation out of the old object into one of the next class. The models return the result, the
  old object (moved-from after a success) and the world.

  A policy has one version for connection based and one for connectionless protocols; the
  compiler picks it by \<^verbatim>\<open>Proto::is_connectionless\<close>. The suffixes \<open>_conn\<close> and
  \<open>_less\<close> tell them apart; operations that exist in one version only have none.
\<close>

subsection \<open>Protocols (\<^verbatim>\<open>socket/proto.h\<close>)\<close>

record proto =
  is_connectionless :: bool
  proto_int :: int
  proto_flags :: "int option"

definition tcp :: proto where
  "tcp = \<lparr>is_connectionless = False, proto_int = SOCK_STREAM, proto_flags = None\<rparr>"

definition udp :: proto where
  "udp = \<lparr>is_connectionless = True, proto_int = SOCK_DGRAM, proto_flags = None\<rparr>"

lemma proto_simps [simp]:
  "is_connectionless tcp = False" "is_connectionless udp = True"
  by (simp_all add: tcp_def udp_def)

subsection \<open>The four states\<close>

record socket_t =
  s_impl :: socket_impl

record binded_socket_t =
  b_impl :: socket_impl
  b_local :: in_address_port_t

record listening_socket_t =
  l_impl :: socket_impl
  l_local :: in_address_port_t
  l_max_conn :: uint32

record active_socket_t =
  a_impl :: socket_impl
  a_remote :: "in_address_port_t option"
  a_local :: "in_address_port_t option"
  a_accepted :: bool

subsection \<open>Construction and destruction (\<^verbatim>\<open>src/socket/socket.tpp\<close>)\<close>

definition socket_create :: "'k os \<Rightarrow> proto \<Rightarrow> int \<Rightarrow> 'k world \<Rightarrow> socket_t option \<times> 'k world" where
  "socket_create K pr af w =
     (case impl_open K impl_default af (proto_int pr)
             (case proto_flags pr of Some f \<Rightarrow> f | None \<Rightarrow> 0) w of
        (opened, sock, w1) \<Rightarrow>
          (if opened then Some \<lparr>s_impl = fst (move_impl sock)\<rparr> else None, w1))"

text \<open>Each state's destructor closes a descriptor that was not moved out.\<close>

definition destroy_impl :: "'k os \<Rightarrow> socket_impl \<Rightarrow> 'k world \<Rightarrow> 'k world" where
  "destroy_impl K s w = (if \<not> impl_empty s then snd (impl_close K s w) else w)"

definition socket_dtor :: "'k os \<Rightarrow> socket_t \<Rightarrow> 'k world \<Rightarrow> 'k world" where
  "socket_dtor K s w = destroy_impl K (s_impl s) w"

definition binded_dtor :: "'k os \<Rightarrow> binded_socket_t \<Rightarrow> 'k world \<Rightarrow> 'k world" where
  "binded_dtor K s w = destroy_impl K (b_impl s) w"

definition listening_dtor :: "'k os \<Rightarrow> listening_socket_t \<Rightarrow> 'k world \<Rightarrow> 'k world" where
  "listening_dtor K s w = destroy_impl K (l_impl s) w"

definition active_dtor :: "'k os \<Rightarrow> active_socket_t \<Rightarrow> 'k world \<Rightarrow> 'k world" where
  "active_dtor K s w = destroy_impl K (a_impl s) w"

text \<open>What the states report of themselves.\<close>

definition binded_local :: "binded_socket_t \<Rightarrow> in_address_port_t" where
  "binded_local s = b_local s"

definition listening_local :: "listening_socket_t \<Rightarrow> in_address_port_t" where
  "listening_local s = l_local s"

definition listening_max_conn :: "listening_socket_t \<Rightarrow> uint32" where
  "listening_max_conn s = l_max_conn s"

definition active_accepted :: "active_socket_t \<Rightarrow> bool" where
  "active_accepted s = a_accepted s"

definition active_remote :: "active_socket_t \<Rightarrow> in_address_port_t option" where
  "active_remote s = a_remote s"

definition active_local :: "active_socket_t \<Rightarrow> in_address_port_t option" where
  "active_local s = a_local s"

text \<open>The constructors of the states take the implementation by move.\<close>

definition binded_ctor :: "in_address_port_t \<Rightarrow> socket_impl \<Rightarrow> binded_socket_t \<times> socket_impl" where
  "binded_ctor local impl =
     (case move_impl impl of (i, rest) \<Rightarrow> (\<lparr>b_impl = i, b_local = local\<rparr>, rest))"

definition listening_ctor ::
  "uint32 \<Rightarrow> in_address_port_t \<Rightarrow> socket_impl \<Rightarrow> listening_socket_t \<times> socket_impl" where
  "listening_ctor max_conn local impl =
     (case move_impl impl of
        (i, rest) \<Rightarrow> (\<lparr>l_impl = i, l_local = local, l_max_conn = max_conn\<rparr>, rest))"

definition active_ctor ::
  "socket_impl \<Rightarrow> in_address_port_t option \<Rightarrow> in_address_port_t option \<Rightarrow> bool
   \<Rightarrow> active_socket_t \<times> socket_impl" where
  "active_ctor impl remote local accepted =
     (case move_impl impl of
        (i, rest) \<Rightarrow>
          (\<lparr>a_impl = i, a_remote = remote, a_local = local, a_accepted = accepted\<rparr>, rest))"

subsection \<open>Policies\<close>

definition bind_conn ::
  "'k os \<Rightarrow> socket_t \<Rightarrow> in_address_port_t \<Rightarrow> 'k world \<Rightarrow> binded_socket_t option \<times> socket_t \<times> 'k world" where
  "bind_conn K der local w =
     (case impl_bind K (s_impl der) local w of
        (ok, w1) \<Rightarrow>
          if ok
          then (case binded_ctor local (s_impl der) of (b, rest) \<Rightarrow> (Some b, der\<lparr>s_impl := rest\<rparr>, w1))
          else (None, der, w1))"

definition bind_less ::
  "'k os \<Rightarrow> socket_t \<Rightarrow> in_address_port_t \<Rightarrow> 'k world \<Rightarrow> active_socket_t option \<times> socket_t \<times> 'k world" where
  "bind_less K der local w =
     (case impl_bind K (s_impl der) local w of
        (ok, w1) \<Rightarrow>
          if ok
          then (case active_ctor (s_impl der) None (Some local) False of
                  (a, rest) \<Rightarrow> (Some a, der\<lparr>s_impl := rest\<rparr>, w1))
          else (None, der, w1))"

definition socket_connect ::
  "'k os \<Rightarrow> socket_t \<Rightarrow> in_address_port_t \<Rightarrow> 'k world \<Rightarrow> active_socket_t option \<times> socket_t \<times> 'k world" where
  "socket_connect K der remote w =
     (case impl_connect K (s_impl der) remote w of
        (ok, w1) \<Rightarrow>
          if ok
          then (case active_ctor (s_impl der) (Some remote) None False of
                  (a, rest) \<Rightarrow> (Some a, der\<lparr>s_impl := rest\<rparr>, w1))
          else (None, der, w1))"

definition binded_connect ::
  "'k os \<Rightarrow> binded_socket_t \<Rightarrow> in_address_port_t \<Rightarrow> 'k world
   \<Rightarrow> active_socket_t option \<times> binded_socket_t \<times> 'k world" where
  "binded_connect K der remote w =
     (case impl_connect K (b_impl der) remote w of
        (ok, w1) \<Rightarrow>
          if ok
          then (case active_ctor (b_impl der) (Some remote) (Some (b_local der)) False of
                  (a, rest) \<Rightarrow> (Some a, der\<lparr>b_impl := rest\<rparr>, w1))
          else (None, der, w1))"

definition binded_listen ::
  "'k os \<Rightarrow> binded_socket_t \<Rightarrow> uint32 \<Rightarrow> 'k world
   \<Rightarrow> listening_socket_t option \<times> binded_socket_t \<times> 'k world" where
  "binded_listen K der max_conn w =
     (case impl_listen K (b_impl der) max_conn w of
        (ok, w1) \<Rightarrow>
          if ok
          then (case listening_ctor max_conn (b_local der) (b_impl der) of
                  (l, rest) \<Rightarrow> (Some l, der\<lparr>b_impl := rest\<rparr>, w1))
          else (None, der, w1))"

definition listening_accept ::
  "'k os \<Rightarrow> listening_socket_t \<Rightarrow> 'k world \<Rightarrow> active_socket_t option \<times> 'k world" where
  "listening_accept K der w =
     (case impl_accept K (l_impl der) w of
        (acc, w1) \<Rightarrow>
          (mbind acc (\<lambda>p. Some (fst (active_ctor (fst p) (Some (snd p)) (Some (l_local der)) True))), w1))"

definition send_conn ::
  "'k os \<Rightarrow> active_socket_t \<Rightarrow> byte list \<Rightarrow> size_t \<Rightarrow> int \<Rightarrow> 'k world \<Rightarrow> size_t option \<times> 'k world" where
  "send_conn K der buffer sz flags w = impl_send K (a_impl der) buffer sz flags w"

definition receive_conn ::
  "'k os \<Rightarrow> active_socket_t \<Rightarrow> byte list \<Rightarrow> size_t \<Rightarrow> int \<Rightarrow> 'k world \<Rightarrow> size_t option \<times> byte list \<times> 'k world" where
  "receive_conn K der buffer sz flags w = impl_receive K (a_impl der) buffer sz flags w"

definition send_less ::
  "'k os \<Rightarrow> active_socket_t \<Rightarrow> in_address_port_t \<Rightarrow> byte list \<Rightarrow> size_t \<Rightarrow> int \<Rightarrow> 'k world
   \<Rightarrow> size_t option \<times> 'k world" where
  "send_less K der remote buffer sz flags w = impl_send_to K (a_impl der) remote buffer sz flags w"

definition receive_less ::
  "'k os \<Rightarrow> active_socket_t \<Rightarrow> byte list \<Rightarrow> size_t \<Rightarrow> int \<Rightarrow> 'k world
   \<Rightarrow> (in_address_port_t \<times> size_t) option \<times> byte list \<times> 'k world" where
  "receive_less K der buffer sz flags w = impl_receive_from K (a_impl der) buffer sz flags w"

definition active_shutdown :: "'k os \<Rightarrow> active_socket_t \<Rightarrow> uint32 \<Rightarrow> 'k world \<Rightarrow> bool \<times> 'k world" where
  "active_shutdown K s dir w =
     (if impl_empty (a_impl s) then (True, w) else impl_shutdown K (a_impl s) dir w)"

definition again :: "'k world \<Rightarrow> bool" where
  "again w = eagain w"

definition active_would_block :: "'k world \<Rightarrow> bool" where
  "active_would_block w = would_block w"

subsection \<open>What one operation does to the history\<close>

lemma move_impl_simps [simp]:
  "si_fd (fst (move_impl s)) = si_fd s"
  "si_fd (snd (move_impl s)) = None"
  "si_family (fst (move_impl s)) = si_family s"
  "si_family (snd (move_impl s)) = si_family s"
  by (simp_all add: move_impl_def)

lemma impl_bind_trace:
  assumes "impl_bind K s local w = (ok, w1)"
  shows "(w1 = w \<and> \<not> ok) \<or>
         (\<exists>fd sa r e. si_fd s = Some fd \<and> ok = (r = 0) \<and> w_trace w1 = Sys (SysBind fd sa) r e # w_trace w)"
  using assms
  by (fastforce simp: impl_bind_def bind_addr_def split: if_splits option.splits prod.splits
      dest: do_sys_trace)

lemma impl_connect_trace:
  assumes "impl_connect K s remote w = (ok, w1)"
  shows "(w1 = w \<and> \<not> ok) \<or> (si_fd s = None \<and> w1 = mark_ub EmptyOptional w \<and> \<not> ok) \<or>
         (\<exists>fd sa r e. si_fd s = Some fd \<and> ok = (e = EINPROGRESS \<or> r = 0)
            \<and> w_trace w1 = Sys (SysConnect fd sa) r e # w_trace w)"
  using assms
  by (fastforce simp: impl_connect_def connect_addr_def split: if_splits option.splits prod.splits
      dest: do_sys_trace)

lemma impl_listen_trace:
  assumes "impl_listen K s n w = (ok, w1)"
  shows "(w1 = w \<and> \<not> ok) \<or>
         (\<exists>fd b r e. si_fd s = Some fd \<and> ok = (r = 0) \<and> w_trace w1 = Sys (SysListen fd b) r e # w_trace w)"
  using assms
  by (fastforce simp: impl_listen_def split: option.splits prod.splits dest: do_sys_trace)

lemma parse_addr_Some [simp]:
  "fst (parse_addr4 obj w) \<noteq> None"
  "fst (parse_addr6 obj w) \<noteq> None"
  by (simp_all add: parse_addr4_def parse_addr6_def split_def)

lemma parse_addr_trace:
  "parse_addr4 obj w = (a, w1) \<Longrightarrow> \<exists>us. w1 = mark_ubs us w"
  "parse_addr6 obj w = (a, w1) \<Longrightarrow> \<exists>us. w1 = mark_ubs us w"
  by (auto simp: parse_addr4_def parse_addr6_def split_def)

lemma impl_accept_trace:
  assumes "impl_accept K s w = (acc, w1)"
  shows "(w1 = w \<and> acc = None) \<or>
         (\<exists>fd al fl r. si_fd s = Some fd \<and> acc = None
            \<and> do_sys K (SysAccept4 fd al fl) w = (r, w1) \<and> rp_ret r = -1) \<or>
         (\<exists>fd al fl w0 r us a. si_fd s = Some fd \<and> do_sys K (SysAccept4 fd al fl) w = (r, w0)
            \<and> rp_ret r \<noteq> -1 \<and> w1 = mark_ubs us w0
            \<and> acc = Some (socket_impl_ctor (rp_ret r) (si_family s), a))"
proof -
  have *: ?thesis if acc: "accept_addr K al parse s w = (acc, w1)"
    and parse: "\<And>obj w. \<exists>a us. parse obj w = (Some a, mark_ubs us w)" for al parse
  proof (cases "si_fd s")
    case None
    with acc show ?thesis by (simp add: accept_addr_def)
  next
    case (Some fd)
    obtain r w0 where d: "do_sys K (SysAccept4 fd al SOCK_NONBLOCK) w = (r, w0)" by fastforce
    obtain a us where p: "parse (overlay (replicate al 0) (rp_addr r)) w0 = (Some a, mark_ubs us w0)"
      using parse by blast
    show ?thesis
    proof (cases "rp_ret r = -1")
      case True
      with acc Some d show ?thesis by (auto simp: accept_addr_def)
    next
      case False
      with acc Some d p show ?thesis by (fastforce simp: accept_addr_def)
    qed
  qed
  have "\<exists>a us. parse_addr4 obj w = (Some a, mark_ubs us w)"
    "\<exists>a us. parse_addr6 obj w = (Some a, mark_ubs us w)" for obj and w :: "'a world"
    by (auto simp: parse_addr4_def parse_addr6_def split: prod.splits)
  then show ?thesis
    using assms * by (auto simp: impl_accept_def split: if_splits)
qed

subsection \<open>The calls an operation makes\<close>

lemma via_mark_ubs: "via K A w w1 \<Longrightarrow> via K A w (mark_ubs us w1)"
  by (induction us arbitrary: w1) (auto intro: via_ub)

lemma via_impl [frame_simps]:
  "impl_bind K s l w = (b, w1) \<Longrightarrow> via K quiet w w1"
  "impl_connect K s l w = (b, w1) \<Longrightarrow> via K quiet w w1"
  "impl_listen K s mc w = (b, w1) \<Longrightarrow> via K quiet w w1"
  "impl_shutdown K s d w = (b, w1) \<Longrightarrow> via K quiet w w1"
  "impl_send K s buf n fl w = (sent, w1) \<Longrightarrow> via K quiet w w1"
  "impl_send_to K s a buf n fl w = (sent, w1) \<Longrightarrow> via K quiet w w1"
  "impl_receive K s buf n fl w = (rcvd, buf', w1) \<Longrightarrow> via K quiet w w1"
  by (auto simp: impl_bind_def bind_addr_def impl_connect_def connect_addr_def impl_listen_def
      impl_shutdown_def impl_send_def impl_send_to_def send_to_impl_def impl_receive_def Let_def
      split: if_splits option.splits prod.splits intro: via_call via_intros)

lemma via_recv_from [frame_simps]:
  "impl_receive_from K s buf n fl w = (rcvd, buf', w1) \<Longrightarrow> via K quiet w w1"
  by (auto simp: impl_receive_from_def recv_from_impl_def
      split: if_splits option.splits prod.splits dest!: parse_addr_trace
      intro!: via_mark_ubs intro: via_call via_intros)

lemma via_accept:
  "impl_accept K s w = (acc, w1) \<Longrightarrow> via K (\<lambda>c. (\<exists>fd al fl. c = SysAccept4 fd al fl) \<or> (\<exists>fd. c = SysClose fd)) w w1"
  by (drule impl_accept_trace)
    (auto intro!: via_intros via_mark_ubs intro: via_call)

lemma via_destroy: "via K (\<lambda>c. \<exists>fd. c = SysClose fd) w (destroy_impl K s w)"
  by (auto simp: destroy_impl_def impl_close_def split: option.splits prod.splits
      intro: via_intros via_call)

lemma via_open: "impl_open K s fam ty fl w = (ok, s', w1) \<Longrightarrow> via K (\<lambda>c. \<exists>a b d. c = SysSocket a b d) w w1"
  by (auto simp: impl_open_def split: if_splits prod.splits intro: via_call)

subsection \<open>The addresses that the states report\<close>

lemma bind_conn_local: "bind_conn K s local w = (Some b, s', w1) \<Longrightarrow> binded_local b = local"
  by (auto simp: bind_conn_def binded_ctor_def binded_local_def split: prod.splits if_splits)

lemma bind_less_local:
  "bind_less K s local w = (Some a, s', w1) \<Longrightarrow> active_local a = Some local \<and> active_remote a = None \<and> \<not> active_accepted a"
  by (auto simp: bind_less_def active_ctor_def active_local_def active_remote_def active_accepted_def
      split: prod.splits if_splits)

lemma connect_remote:
  "socket_connect K s remote w = (Some a, s', w1) \<Longrightarrow>
     active_remote a = Some remote \<and> active_local a = None \<and> \<not> active_accepted a"
  "binded_connect K b remote w = (Some a, b', w1) \<Longrightarrow>
     active_remote a = Some remote \<and> active_local a = Some (binded_local b) \<and> \<not> active_accepted a"
  by (auto simp: socket_connect_def binded_connect_def active_ctor_def active_local_def active_remote_def
      active_accepted_def binded_local_def split: prod.splits if_splits)

lemma listen_local:
  "binded_listen K b mc w = (Some l, b', w1) \<Longrightarrow> listening_local l = binded_local b \<and> listening_max_conn l = mc"
  by (auto simp: binded_listen_def listening_ctor_def listening_local_def listening_max_conn_def binded_local_def
      split: prod.splits if_splits)

lemma accept_local:
  "listening_accept K l w = (Some a, w1) \<Longrightarrow>
     active_local a = Some (listening_local l) \<and> active_remote a \<noteq> None \<and> active_accepted a"
  by (auto simp: listening_accept_def mbind_eq_Some active_ctor_def active_local_def active_remote_def
      active_accepted_def listening_local_def move_impl_def split: prod.splits)

theorem accepted_reports_the_bound_address:
  assumes "bind_conn K s local w = (Some b, s', w1)" and "binded_listen K b mc w2 = (Some l, b', w3)"
    and "listening_accept K l w4 = (Some a, w5)"
  shows "active_local a = Some local \<and> active_accepted a \<and> listening_max_conn l = mc"
  using bind_conn_local [OF assms(1)] listen_local [OF assms(2)] accept_local [OF assms(3)] by simp

end
