(* ===== verification/Typed_Safety.thy ===== *)
theory Typed_Safety
  imports Typed_Sockets
begin

section \<open>Programs over typed sockets follow the socket protocol\<close>

text \<open>
  The README promises that the typed sockets cannot be misused: \<^emph>\<open>"This design doesn't allow
  sockets to be misused at compile-time, not run-time (e.g. listening to an unbinded socket or
  writing to an unconnected socket)"\<close>. This theory states what that means for the calls that reach
  the system and proves it.

  The specification is abstract: from the history alone it computes in which phase the system sees
  each descriptor, and which calls that phase allows (\<open>phases\<close>, \<open>legal\<close>,
  \<open>well_ordered\<close>). The implementation side is every program over the typed sockets: a
  sequence of operations on a pool of named objects, where an operation applies to an object of the
  class that has it (anything else is not a C++ program) and includes calls on moved-from objects,
  moves and destruction at any point.
\<close>

subsection \<open>The socket protocol, read off a history\<close>

datatype phase = Unbound | Bound | Listening | Connected

text \<open>The phases in the order in which a descriptor goes through them.\<close>

fun phase_rank :: "phase \<Rightarrow> nat" where
  "phase_rank Unbound = 0"
| "phase_rank Bound = 1"
| "phase_rank Listening = 2"
| "phase_rank Connected = 3"

instantiation phase :: linorder
begin

definition less_eq_phase :: "phase \<Rightarrow> phase \<Rightarrow> bool" where
  "p \<le> q \<longleftrightarrow> phase_rank p \<le> phase_rank q"

definition less_phase :: "phase \<Rightarrow> phase \<Rightarrow> bool" where
  "p < q \<longleftrightarrow> phase_rank p < phase_rank q"

instance
proof
  fix p q :: phase
  show "p \<le> q \<Longrightarrow> q \<le> p \<Longrightarrow> p = q" by (cases p; cases q) (simp_all add: less_eq_phase_def)
qed (auto simp: less_eq_phase_def less_phase_def)

end

fun phase_step :: "sys_call \<Rightarrow> int \<Rightarrow> int \<Rightarrow> (int \<rightharpoonup> phase) \<Rightarrow> (int \<rightharpoonup> phase)" where
  "phase_step (SysSocket a b c) r e m = (if r = -1 then m else m(r \<mapsto> Unbound))"
| "phase_step (SysBind fd sa) r e m = (if r = 0 then m(fd \<mapsto> Bound) else m)"
| "phase_step (SysListen fd b) r e m = (if r = 0 then m(fd \<mapsto> Listening) else m)"
| "phase_step (SysConnect fd sa) r e m =
     (if e = EINPROGRESS \<or> r = 0 then m(fd \<mapsto> Connected) else m)"
| "phase_step (SysAccept4 fd al fl) r e m = (if r = -1 then m else m(r \<mapsto> Connected))"
| "phase_step (SysClose fd) r e m = m(fd := None)"
| "phase_step _ r e m = m"

fun phases :: "event list \<Rightarrow> (int \<rightharpoonup> phase)" where
  "phases [] = Map.empty"
| "phases (Sys c r e # t) = phase_step c r e (phases t)"
| "phases (Upcall cb # t) = phases t"
| "phases (Ub u # t) = phases t"

text \<open>
  A connection based socket sends, receives and shuts down when connected; a connectionless one
  exchanges addressed messages once bound. Only an open descriptor is closed, so a descriptor is
  never closed twice.
\<close>

fun legal :: "(int \<rightharpoonup> phase) \<Rightarrow> sys_call \<Rightarrow> bool" where
  "legal m (SysBind fd sa) \<longleftrightarrow> m fd = Some Unbound"
| "legal m (SysListen fd b) \<longleftrightarrow> m fd = Some Bound"
| "legal m (SysConnect fd sa) \<longleftrightarrow> m fd = Some Unbound \<or> m fd = Some Bound"
| "legal m (SysAccept4 fd al fl) \<longleftrightarrow> m fd = Some Listening"
| "legal m (SysSend fd buf n fl) \<longleftrightarrow> m fd = Some Connected"
| "legal m (SysRecv fd n fl) \<longleftrightarrow> m fd = Some Connected"
| "legal m (SysSendto fd buf n fl sa) \<longleftrightarrow> m fd = Some Bound"
| "legal m (SysRecvfrom fd n fl al) \<longleftrightarrow> m fd = Some Bound"
| "legal m (SysShutdown fd d) \<longleftrightarrow> m fd = Some Connected \<or> m fd = Some Bound"
| "legal m (SysClose fd) \<longleftrightarrow> m fd \<noteq> None"
| "legal m _ \<longleftrightarrow> True"

fun well_ordered :: "event list \<Rightarrow> bool" where
  "well_ordered [] = True"
| "well_ordered (Sys c r e # t) \<longleftrightarrow> legal (phases t) c \<and> well_ordered t"
| "well_ordered (Upcall cb # t) = well_ordered t"
| "well_ordered (Ub u # t) = well_ordered t"

lemma ubs_simps [simp]:
  "phases (map Ub us @ t) = phases t" "phases (rev (map Ub us) @ t) = phases t"
  "well_ordered (map Ub us @ t) = well_ordered t"
  "well_ordered (rev (map Ub us) @ t) = well_ordered t"
  "open_fds (rev (map Ub us) @ t) = open_fds t"
proof -
  show p: "phases (map Ub us @ t) = phases t" for us by (induction us) simp_all
  show o: "well_ordered (map Ub us @ t) = well_ordered t" for us by (induction us) simp_all
  show "phases (rev (map Ub us) @ t) = phases t" using p [of "rev us"] by (simp add: rev_map)
  show "well_ordered (rev (map Ub us) @ t) = well_ordered t" using o [of "rev us"] by (simp add: rev_map)
  have "open_fds (map Ub us @ t) = open_fds t" for us by (induction us) simp_all
  then show "open_fds (rev (map Ub us) @ t) = open_fds t" by (simp add: rev_map)
qed

lemma well_ordered_older: "well_ordered (t @ t0) \<Longrightarrow> well_ordered t0"
  by (induction t rule: well_ordered.induct) simp_all

lemma well_ordered_defined_part: "well_ordered t \<Longrightarrow> well_ordered (defined_part t)"
  using defined_part_older [of t] well_ordered_older by metis

text \<open>The protocol knows open descriptors only.\<close>

lemma dom_phases: "well_ordered t \<Longrightarrow> dom (phases t) \<subseteq> open_fds t"
proof (induction t rule: phases.induct)
  case (2 c r e t)
  then have "\<And>x y. phases t x = Some y \<Longrightarrow> x \<in> open_fds t" "legal (phases t) c" by auto
  then show ?case by (cases c) (auto split: if_splits)
qed simp_all

text \<open>
  In an orderly history a descriptor that is neither closed nor created anew only moves on.
\<close>

fun renews :: "int \<Rightarrow> event \<Rightarrow> bool" where
  "renews fd (Sys c r e) \<longleftrightarrow> (creates c \<and> r = fd) \<or> c = SysClose fd"
| "renews fd _ \<longleftrightarrow> False"

lemma legal_advances:
  "legal m c \<Longrightarrow> \<not> renews fd (Sys c r e) \<Longrightarrow> m fd = Some p \<Longrightarrow> \<exists>q. phase_step c r e m fd = Some q \<and> p \<le> q"
  by (cases c) (auto simp: less_eq_phase_def)

lemma well_ordered_advances:
  "well_ordered (t @ t0) \<Longrightarrow> \<forall>ev \<in> set t. \<not> renews fd ev \<Longrightarrow> phases t0 fd = Some p
     \<Longrightarrow> \<exists>q. phases (t @ t0) fd = Some q \<and> p \<le> q"
proof (induction t)
  case (Cons ev t)
  then show ?case
  proof (cases ev)
    case (Sys c r e)
    with Cons obtain q where q: "phases (t @ t0) fd = Some q" "p \<le> q" by auto
    have "legal (phases (t @ t0)) c" "\<not> renews fd (Sys c r e)" using Cons.prems(1,2) Sys by simp_all
    from legal_advances [OF this q(1)] q(2) Sys show ?thesis by (auto intro: order_trans)
  qed auto
qed simp

subsection \<open>Programs over the typed sockets\<close>

datatype tsock =
  TSocket socket_t | TBinded binded_socket_t | TListening listening_socket_t | TActive active_socket_t

fun impl_of :: "tsock \<Rightarrow> socket_impl" where
  "impl_of (TSocket s) = s_impl s"
| "impl_of (TBinded s) = b_impl s"
| "impl_of (TListening s) = l_impl s"
| "impl_of (TActive s) = a_impl s"

fun put_impl :: "socket_impl \<Rightarrow> tsock \<Rightarrow> tsock" where
  "put_impl i (TSocket s) = TSocket (s\<lparr>s_impl := i\<rparr>)"
| "put_impl i (TBinded s) = TBinded (s\<lparr>b_impl := i\<rparr>)"
| "put_impl i (TListening s) = TListening (s\<lparr>l_impl := i\<rparr>)"
| "put_impl i (TActive s) = TActive (s\<lparr>a_impl := i\<rparr>)"

fun same_class :: "tsock \<Rightarrow> tsock \<Rightarrow> bool" where
  "same_class (TSocket _) (TSocket _) = True"
| "same_class (TBinded _) (TBinded _) = True"
| "same_class (TListening _) (TListening _) = True"
| "same_class (TActive _) (TActive _) = True"
| "same_class _ _ = False"

datatype api_op =
  OpCreate nat int
| OpBind nat nat in_address_port_t
| OpConnect nat nat in_address_port_t
| OpListen nat nat uint32
| OpAccept nat nat
| OpSend nat in_address_port_t "byte list" size_t
| OpReceive nat "byte list" size_t
| OpShutdown nat uint32
| OpDestroy nat
| OpMove nat nat
| OpMoveAssign nat nat

type_synonym pool = "nat \<rightharpoonup> tsock"

text \<open>\<open>store\<close> puts the result of an operation on object \<open>s\<close> into the new object \<open>d\<close>.\<close>

definition store ::
  "('b \<Rightarrow> tsock) \<Rightarrow> ('a \<Rightarrow> tsock) \<Rightarrow> nat \<Rightarrow> nat \<Rightarrow> pool \<Rightarrow> 'b option \<times> 'a \<times> 'k world \<Rightarrow> pool \<times> 'k world" where
  "store mk bk s d p res =
     (case res of
        (Some b, x, w1) \<Rightarrow> (p(s \<mapsto> bk x, d \<mapsto> mk b), w1)
      | (None, x, w1) \<Rightarrow> (p(s \<mapsto> bk x), w1))"

fun api_step :: "'k os \<Rightarrow> proto \<Rightarrow> api_op \<Rightarrow> pool \<times> 'k world \<Rightarrow> pool \<times> 'k world" where
  "api_step K pr (OpCreate d af) (p, w) =
     (if p d = None
      then (case socket_create K pr af w of
              (Some s, w1) \<Rightarrow> (p(d \<mapsto> TSocket s), w1)
            | (None, w1) \<Rightarrow> (p, w1))
      else (p, w))"
| "api_step K pr (OpBind s d a) (p, w) =
     (case p s of
        Some (TSocket x) \<Rightarrow>
          (if p d \<noteq> None then (p, w)
           else if is_connectionless pr then store TActive TSocket s d p (bind_less K x a w)
           else store TBinded TSocket s d p (bind_conn K x a w))
      | _ \<Rightarrow> (p, w))"
| "api_step K pr (OpConnect s d a) (p, w) =
     (if is_connectionless pr \<or> p d \<noteq> None then (p, w)
      else (case p s of
              Some (TSocket x) \<Rightarrow> store TActive TSocket s d p (socket_connect K x a w)
            | Some (TBinded x) \<Rightarrow> store TActive TBinded s d p (binded_connect K x a w)
            | _ \<Rightarrow> (p, w)))"
| "api_step K pr (OpListen s d n) (p, w) =
     (if is_connectionless pr \<or> p d \<noteq> None then (p, w)
      else (case p s of
              Some (TBinded x) \<Rightarrow> store TListening TBinded s d p (binded_listen K x n w)
            | _ \<Rightarrow> (p, w)))"
| "api_step K pr (OpAccept s d) (p, w) =
     (if is_connectionless pr \<or> p d \<noteq> None then (p, w)
      else (case p s of
              Some (TListening x) \<Rightarrow>
                (case listening_accept K x w of
                   (Some a, w1) \<Rightarrow> (p(d \<mapsto> TActive a), w1)
                 | (None, w1) \<Rightarrow> (p, w1))
            | _ \<Rightarrow> (p, w)))"
| "api_step K pr (OpSend i a buf n) (p, w) =
     (case p i of
        Some (TActive x) \<Rightarrow>
          (p, if is_connectionless pr then snd (send_less K x a buf n 0 w)
              else snd (send_conn K x buf n 0 w))
      | _ \<Rightarrow> (p, w))"
| "api_step K pr (OpReceive i buf n) (p, w) =
     (case p i of
        Some (TActive x) \<Rightarrow>
          (p, if is_connectionless pr then snd (snd (receive_less K x buf n 0 w))
              else snd (snd (receive_conn K x buf n 0 w)))
      | _ \<Rightarrow> (p, w))"
| "api_step K pr (OpShutdown i dir) (p, w) =
     (case p i of Some (TActive x) \<Rightarrow> (p, snd (active_shutdown K x dir w)) | _ \<Rightarrow> (p, w))"
| "api_step K pr (OpDestroy i) (p, w) =
     (case p i of Some t \<Rightarrow> (p(i := None), destroy_impl K (impl_of t) w) | None \<Rightarrow> (p, w))"
| "api_step K pr (OpMove s d) (p, w) =
     (case p s of
        Some t \<Rightarrow>
          (if p d \<noteq> None then (p, w)
           else (case move_impl (impl_of t) of
                   (i, rest) \<Rightarrow> (p(s \<mapsto> put_impl rest t, d \<mapsto> put_impl i t), w)))
      | None \<Rightarrow> (p, w))"
| "api_step K pr (OpMoveAssign s d) (p, w) =
     (case (p s, p d) of
        (Some t, Some u) \<Rightarrow>
          (if s \<noteq> d \<and> same_class t u
           then (case move_assign_impl (impl_of u) (impl_of t) of
                   (i, rest) \<Rightarrow> (p(s \<mapsto> put_impl rest t, d \<mapsto> put_impl i t), w))
           else (p, w))
      | _ \<Rightarrow> (p, w))"

definition api_run :: "'k os \<Rightarrow> proto \<Rightarrow> api_op list \<Rightarrow> pool \<times> 'k world \<Rightarrow> pool \<times> 'k world" where
  "api_run K pr ops = fold (api_step K pr) ops"

subsection \<open>The view of a pool: which object stands for which descriptor, in which phase\<close>

fun expected :: "proto \<Rightarrow> tsock \<Rightarrow> phase" where
  "expected pr (TSocket _) = Unbound"
| "expected pr (TBinded _) = Bound"
| "expected pr (TListening _) = Listening"
| "expected pr (TActive _) = (if is_connectionless pr then Bound else Connected)"

definition view :: "proto \<Rightarrow> pool \<Rightarrow> nat \<Rightarrow> (int \<times> phase) option" where
  "view pr p i = (case p i of
                    None \<Rightarrow> None
                  | Some t \<Rightarrow> map_option (\<lambda>fd. (fd, expected pr t)) (si_fd (impl_of t)))"

lemma view_upd: "view pr (p(i := x)) = (view pr p)(i := (case x of
      None \<Rightarrow> None | Some t \<Rightarrow> map_option (\<lambda>fd. (fd, expected pr t)) (si_fd (impl_of t))))"
  by (rule ext) (simp add: view_def)

lemma view_None: "p i = None \<Longrightarrow> view pr p i = None"
  by (simp add: view_def)

lemma impl_of_put_impl [simp]: "impl_of (put_impl i t) = i"
  by (cases t) simp_all

lemma expected_put_impl [simp]: "expected pr (put_impl i t) = expected pr t"
  by (cases t) simp_all

definition consistent :: "(nat \<Rightarrow> (int \<times> phase) option) \<Rightarrow> (int \<rightharpoonup> phase) \<Rightarrow> bool" where
  "consistent v m \<longleftrightarrow>
     (\<forall>i fd ph. v i = Some (fd, ph) \<longrightarrow> m fd = Some ph)
     \<and> (\<forall>i j fd ph ph'. v i = Some (fd, ph) \<and> v j = Some (fd, ph') \<longrightarrow> i = j)"

definition fds_of :: "(nat \<Rightarrow> (int \<times> phase) option) \<Rightarrow> int set" where
  "fds_of v = {fd. \<exists>i ph. v i = Some (fd, ph)}"

definition owned :: "proto \<Rightarrow> pool \<Rightarrow> int set" where
  "owned pr p = fds_of (view pr p)"

lemma fds_ofI: "v i = Some (fd, ph) \<Longrightarrow> fd \<in> fds_of v"
  by (auto simp: fds_of_def)

lemma fds_ofE:
  assumes "fd \<in> fds_of v" obtains i ph where "v i = Some (fd, ph)"
  using assms by (auto simp: fds_of_def)

lemma fds_of_create:
  assumes "v d = None" shows "fds_of (v(d \<mapsto> (fd, ph))) = insert fd (fds_of v)"
proof (intro equalityI subsetI)
  fix f assume "f \<in> insert fd (fds_of v)"
  then show "f \<in> fds_of (v(d \<mapsto> (fd, ph)))"
  proof
    assume "f = fd" then show ?thesis by (intro fds_ofI [of _ d]) simp
  next
    assume "f \<in> fds_of v"
    then obtain i q where "v i = Some (f, q)" by (rule fds_ofE)
    with assms show ?thesis by (intro fds_ofI [of _ i f q]) auto
  qed
qed (auto elim!: fds_ofE split: if_splits intro: fds_ofI)

lemma fds_of_transfer:
  assumes s: "v s = Some (fd, ph)" and sd: "s \<noteq> d" and d: "v d = None"
  shows "fds_of (v(s := None, d \<mapsto> (fd, ph'))) = fds_of v"
proof (intro equalityI subsetI)
  fix f assume "f \<in> fds_of v"
  then obtain i q where i: "v i = Some (f, q)" by (rule fds_ofE)
  show "f \<in> fds_of (v(s := None, d \<mapsto> (fd, ph')))"
  proof (cases "i = s")
    case True with i s sd show ?thesis by (intro fds_ofI [of _ d]) auto
  next
    case False with i d sd show ?thesis by (intro fds_ofI [of _ i f q]) auto
  qed
qed (use s in \<open>auto elim!: fds_ofE split: if_splits intro: fds_ofI\<close>)

lemma fds_of_close:
  assumes inj: "\<And>i j f p q. v i = Some (f, p) \<Longrightarrow> v j = Some (f, q) \<Longrightarrow> i = j"
    and i: "v i = Some (fd, ph)"
  shows "fds_of (v(i := None)) = fds_of v - {fd}"
proof (intro equalityI subsetI)
  fix f assume "f \<in> fds_of (v(i := None))"
  then obtain k q where "(v(i := None)) k = Some (f, q)" by (rule fds_ofE)
  then have "v k = Some (f, q)" "k \<noteq> i" by (auto split: if_splits)
  with inj i show "f \<in> fds_of v - {fd}" by (blast intro: fds_ofI)
next
  fix f assume f: "f \<in> fds_of v - {fd}"
  then obtain k q where k: "v k = Some (f, q)" by (auto elim: fds_ofE)
  with f i have "k \<noteq> i" by auto
  with k show "f \<in> fds_of (v(i := None))" by (intro fds_ofI [of _ k]) simp
qed

lemma consistentD: "consistent v m \<Longrightarrow> v i = Some (fd, ph) \<Longrightarrow> m fd = Some ph"
  by (simp add: consistent_def)

lemma consistent_inj: "consistent v m \<Longrightarrow> v i = Some (f, a) \<Longrightarrow> v j = Some (f, b) \<Longrightarrow> i = j"
  unfolding consistent_def by blast

lemma consistent_create:
  "consistent v m \<Longrightarrow> m fd = None \<Longrightarrow> v d = None \<Longrightarrow> consistent (v(d \<mapsto> (fd, ph))) (m(fd \<mapsto> ph))"
  unfolding consistent_def by (auto split: if_splits)

lemma consistent_transfer:
  "consistent v m \<Longrightarrow> v s = Some (fd, ph0) \<Longrightarrow> s \<noteq> d \<Longrightarrow> v d = None \<Longrightarrow>
     consistent (v(s := None, d \<mapsto> (fd, ph))) (m(fd \<mapsto> ph))"
  unfolding consistent_def by (auto split: if_splits)

lemma consistent_move:
  "consistent v m \<Longrightarrow> v s = Some (fd, ph) \<Longrightarrow> s \<noteq> d \<Longrightarrow> consistent (v(s := None, d \<mapsto> (fd, ph))) m"
  unfolding consistent_def by (auto split: if_splits)

lemma consistent_drop: "consistent v m \<Longrightarrow> consistent (v(i := None)) m"
  unfolding consistent_def by (auto split: if_splits)

lemma consistent_close:
  "consistent v m \<Longrightarrow> v i = Some (fd, ph) \<Longrightarrow> consistent (v(i := None)) (m(fd := None))"
  unfolding consistent_def by (fastforce split: if_splits)

subsection \<open>Operations that move an object to its next state\<close>

text \<open>
  \<open>transit pr t res rest w w1\<close>: an operation on \<open>t\<close> either makes no call and
  fails, or makes one call on the object's descriptor that its phase allows; then it fails and
  leaves \<open>t\<close> as it was, or moves the descriptor into \<open>res\<close>, whose phase is the one the
  system now sees.
\<close>

definition transit ::
  "proto \<Rightarrow> tsock \<Rightarrow> tsock option \<Rightarrow> tsock \<Rightarrow> 'k world \<Rightarrow> 'k world \<Rightarrow> bool" where
  "transit pr t res rest w w1 \<longleftrightarrow>
     (res = None \<and> rest = t \<and> (\<exists>us. w1 = mark_ubs us w)) \<or>
     (\<exists>fd c r e. si_fd (impl_of t) = Some fd \<and> w_trace w1 = Sys c r e # w_trace w \<and> quiet c
        \<and> (\<forall>m. m fd = Some (expected pr t) \<longrightarrow> legal m c)
        \<and> (case res of
              None \<Rightarrow> rest = t \<and> (\<forall>m. phase_step c r e m = m)
            | Some u \<Rightarrow> si_fd (impl_of u) = Some fd \<and> si_fd (impl_of rest) = None
                \<and> (\<forall>m. phase_step c r e m = m(fd \<mapsto> expected pr u))))"

lemma transit_nop: "transit pr t None t w w" "transit pr t None t w (mark_ub u w)"
proof -
  have "w = mark_ubs [] w" "mark_ub u w = mark_ubs [u] w" by simp_all
  then show "transit pr t None t w w" "transit pr t None t w (mark_ub u w)"
    unfolding transit_def by blast+
qed

lemma transit_bind:
  "bind_less K x a w = (res, x', w1) \<Longrightarrow> is_connectionless pr \<Longrightarrow>
     transit pr (TSocket x) (map_option TActive res) (TSocket x') w w1"
  "bind_conn K x a w = (res1, x', w1) \<Longrightarrow>
     transit pr (TSocket x) (map_option TBinded res1) (TSocket x') w w1"
  by (auto simp: bind_less_def bind_conn_def binded_ctor_def active_ctor_def move_impl_def
      split: if_splits prod.splits dest!: impl_bind_trace intro: transit_nop)
    (fastforce simp: transit_def)+

lemma transit_connect:
  "socket_connect K x a w = (res, x', w1) \<Longrightarrow> \<not> is_connectionless pr \<Longrightarrow>
     transit pr (TSocket x) (map_option TActive res) (TSocket x') w w1"
  "binded_connect K y a w = (res, y', w1) \<Longrightarrow> \<not> is_connectionless pr \<Longrightarrow>
     transit pr (TBinded y) (map_option TActive res) (TBinded y') w w1"
  by (auto simp: socket_connect_def binded_connect_def active_ctor_def move_impl_def
      split: if_splits prod.splits dest!: impl_connect_trace intro: transit_nop)
    (fastforce simp: transit_def)+

lemma transit_listen:
  "binded_listen K y mc w = (res, y', w1) \<Longrightarrow>
     transit pr (TBinded y) (map_option TListening res) (TBinded y') w w1"
  by (auto simp: binded_listen_def listening_ctor_def move_impl_def
      split: if_splits prod.splits dest!: impl_listen_trace intro: transit_nop)
    (fastforce simp: transit_def)+

subsection \<open>The invariant\<close>

text \<open>
  \<open>sys_inv\<close>: the history accounts for the open descriptors, it follows the protocol, and
  the pool agrees with it. \<open>leaked\<close>: the open descriptors that no object of the pool
  holds any more. \<open>keeps\<close>: a step keeps the invariant and leaks nothing (nor does it
  ever recover what has leaked).
\<close>

definition sys_inv :: "('k \<Rightarrow> int set) \<Rightarrow> proto \<Rightarrow> pool \<Rightarrow> 'k world \<Rightarrow> bool" where
  "sys_inv live pr p w \<longleftrightarrow>
     ledger_ok live w \<and> well_ordered (w_trace w) \<and> consistent (view pr p) (phases (w_trace w))"

definition leaked :: "proto \<Rightarrow> pool \<Rightarrow> 'k world \<Rightarrow> int set" where
  "leaked pr p w = open_fds (w_trace w) - owned pr p"

definition keeps :: "('k \<Rightarrow> int set) \<Rightarrow> proto \<Rightarrow> pool \<Rightarrow> 'k world \<Rightarrow> pool \<Rightarrow> 'k world \<Rightarrow> bool" where
  "keeps live pr p w p' w' \<longleftrightarrow> sys_inv live pr p' w' \<and> leaked pr p' w' = leaked pr p w"

lemma keeps_refl: "sys_inv live pr p w \<Longrightarrow> keeps live pr p w p w"
  by (simp add: keeps_def)

lemma keeps_same_view:
  assumes "sys_inv live pr p w" and "view pr p' = view pr p"
  shows "keeps live pr p w p' (mark_ubs us w)"
  using assms by (simp add: keeps_def sys_inv_def leaked_def owned_def)

text \<open>A legal call that neither creates nor closes a descriptor, the pool unchanged.\<close>

lemma keeps_call:
  assumes inv: "sys_inv live pr p w" and K: "posix_fds K live" and via: "via K quiet w w1"
    and tr: "w_trace w1 = Sys c r e # w_trace w" and legal: "legal (phases (w_trace w)) c"
    and step: "phase_step c r e (phases (w_trace w)) = phases (w_trace w)"
  shows "keeps live pr p w p w1"
  using inv tr legal step via_ledger_ok [OF via K] via_quiet [OF via]
  by (simp add: keeps_def sys_inv_def leaked_def)

lemma keeps_transit:
  assumes inv: "sys_inv live pr p w" and K: "posix_fds K live" and via: "via K quiet w w1"
    and s: "p s = Some t" and d: "p d = None" and tr: "transit pr t res rest w w1"
  shows "keeps live pr p w (case res of None \<Rightarrow> p(s \<mapsto> rest) | Some u \<Rightarrow> p(s \<mapsto> rest, d \<mapsto> u)) w1"
proof -
  have same: "p(s \<mapsto> t) = p" using s by auto
  from tr consider (nop) us where "res = None" "rest = t" "w1 = mark_ubs us w"
    | (fail) fd c r e where "res = None" "rest = t" "si_fd (impl_of t) = Some fd"
        "w_trace w1 = Sys c r e # w_trace w" "\<forall>m. m fd = Some (expected pr t) \<longrightarrow> legal m c"
        "\<forall>m. phase_step c r e m = m"
    | (move) fd c r e u where "res = Some u" "si_fd (impl_of t) = Some fd"
        "w_trace w1 = Sys c r e # w_trace w" "\<forall>m. m fd = Some (expected pr t) \<longrightarrow> legal m c"
        "si_fd (impl_of u) = Some fd" "si_fd (impl_of rest) = None"
        "\<forall>m. phase_step c r e m = m(fd \<mapsto> expected pr u)"
    unfolding transit_def by (cases res) auto
  then show ?thesis
  proof cases
    case nop
    with inv same show ?thesis by (simp add: keeps_same_view)
  next
    case fail
    have "view pr p s = Some (fd, expected pr t)" using s fail(3) by (simp add: view_def)
    with inv have "phases (w_trace w) fd = Some (expected pr t)"
      unfolding sys_inv_def by (blast dest: consistentD)
    with fail(5) have "legal (phases (w_trace w)) c" by blast
    then show ?thesis using keeps_call [OF inv K via fail(4)] fail(1,2,6) same by simp
  next
    case move
    have sv: "view pr p s = Some (fd, expected pr t)" using s move(2) by (simp add: view_def)
    have dv: "view pr p d = None" using d by (rule view_None)
    have sd: "s \<noteq> d" using s d by auto
    from sv inv have ph: "phases (w_trace w) fd = Some (expected pr t)"
      unfolding sys_inv_def by (blast dest: consistentD)
    let ?v = "(view pr p)(s := None, d \<mapsto> (fd, expected pr u))"
    have v': "view pr (p(s \<mapsto> rest, d \<mapsto> u)) = ?v"
      using move(5,6) by (simp add: view_upd)
    have "consistent ?v (phases (w_trace w1))"
      using inv consistent_transfer [OF _ sv sd dv] move(3,7) by (simp add: sys_inv_def)
    moreover have "legal (phases (w_trace w)) c" using ph move(4) by blast
    ultimately have "sys_inv live pr (p(s \<mapsto> rest, d \<mapsto> u)) w1"
      using inv move(3) v' via_ledger_ok [OF via K] by (simp add: sys_inv_def)
    moreover have "owned pr (p(s \<mapsto> rest, d \<mapsto> u)) = owned pr p"
      unfolding owned_def v' using sv sd dv by (rule fds_of_transfer)
    ultimately show ?thesis
      using move(1) via_quiet [OF via] by (simp add: keeps_def leaked_def)
  qed
qed

lemma keeps_new:
  assumes inv: "sys_inv live pr p w" and K: "posix_fds K live" and d: "p d = None"
    and call: "do_sys K c w = (r, w0)" and c: "creates c" "legal (phases (w_trace w)) c"
    and ok: "rp_ret r \<noteq> -1" and u: "si_fd (impl_of u) = Some (rp_ret r)"
    and step: "\<And>e m. phase_step c (rp_ret r) e m = m(rp_ret r \<mapsto> expected pr u)"
  shows "keeps live pr p w (p(d \<mapsto> u)) (mark_ubs us w0)"
proof -
  let ?fd = "rp_ret r" and ?t = "w_trace w"
  have inv': "ledger_ok live w" "well_ordered ?t" "consistent (view pr p) (phases ?t)"
    using inv by (simp_all add: sys_inv_def)
  have fresh: "?fd \<notin> open_fds ?t"
    using do_sys_fresh [OF K inv'(1) call c(1) ok] by simp
  then have new: "phases ?t ?fd = None" using dom_phases [OF inv'(2)] by auto
  have dv: "view pr p d = None" using d by (rule view_None)
  have v': "view pr (p(d \<mapsto> u)) = (view pr p)(d \<mapsto> (?fd, expected pr u))"
    using u by (simp add: view_upd)
  have tr: "w_trace w0 = Sys c ?fd (w_errno w0) # ?t" using do_sys_trace [OF call] by simp
  have "sys_inv live pr (p(d \<mapsto> u)) (mark_ubs us w0)"
    using inv' c tr step v' consistent_create [OF inv'(3) new dv] ledger_ok_do_sys [OF K inv'(1) call]
    by (simp add: sys_inv_def)
  moreover have "open_fds (w_trace w0) = insert ?fd (open_fds ?t)"
    using tr c(1) ok by (simp add: ledger_step_def)
  moreover have "owned pr (p(d \<mapsto> u)) = insert ?fd (owned pr p)"
    unfolding owned_def v' using dv by (rule fds_of_create)
  ultimately show ?thesis using fresh by (auto simp: keeps_def leaked_def)
qed

lemma keeps_new_fail:
  assumes inv: "sys_inv live pr p w" and K: "posix_fds K live" and call: "do_sys K c w = (r, w0)"
    and c: "creates c" "legal (phases (w_trace w)) c" "rp_ret r = -1"
    and step: "\<And>e m. phase_step c (-1) e m = m"
  shows "keeps live pr p w p w0"
proof -
  have "w_trace w0 = Sys c (-1) (w_errno w0) # w_trace w" using do_sys_trace [OF call] c(3) by simp
  with inv c step ledger_ok_do_sys [OF K _ call] show ?thesis
    by (simp add: keeps_def sys_inv_def leaked_def ledger_step_def)
qed

lemma keeps_destroy:
  assumes inv: "sys_inv live pr p w" and K: "posix_fds K live" and i: "p i = Some t"
  shows "keeps live pr p w (p(i := None)) (destroy_impl K (impl_of t) w)"
proof (cases "si_fd (impl_of t)")
  case None
  then have "destroy_impl K (impl_of t) w = mark_ubs [] w" "view pr p i = None"
    using i by (simp_all add: destroy_impl_def impl_empty_def view_def)
  then show ?thesis using inv by (simp add: keeps_same_view [where us = "[]", simplified] view_upd fun_upd_idem)
next
  case (Some fd)
  obtain r w0 where call: "do_sys K (SysClose fd) w = (r, w0)" by fastforce
  have w1: "destroy_impl K (impl_of t) w = w0"
    using Some call by (simp add: destroy_impl_def impl_empty_def impl_close_def)
  have tr: "w_trace w0 = Sys (SysClose fd) (rp_ret r) (w_errno w0) # w_trace w"
    using do_sys_trace [OF call] by simp
  have v: "view pr p i = Some (fd, expected pr t)" using i Some by (simp add: view_def)
  have inv': "ledger_ok live w" "well_ordered (w_trace w)" "consistent (view pr p) (phases (w_trace w))"
    using inv by (simp_all add: sys_inv_def)
  have ph: "phases (w_trace w) fd \<noteq> None" using consistentD [OF inv'(3) v] by simp
  have "sys_inv live pr (p(i := None)) w0"
    using inv' tr ph consistent_close [OF inv'(3) v] ledger_ok_do_sys [OF K inv'(1) call]
    by (simp add: sys_inv_def view_upd)
  moreover have "owned pr (p(i := None)) = owned pr p - {fd}"
    using fds_of_close [where v = "view pr p" and i = i, OF consistent_inj [OF inv'(3)]] v
    by (simp add: owned_def view_upd)
  moreover have "fd \<in> owned pr p" using v unfolding owned_def by (rule fds_ofI)
  ultimately show ?thesis using w1 tr by (auto simp: keeps_def leaked_def)
qed

lemma keeps_move:
  assumes inv: "sys_inv live pr p w" and s: "p s = Some t" and d: "p d = None"
  shows "keeps live pr p w (p(s \<mapsto> put_impl (snd (move_impl (impl_of t))) t,
                                d \<mapsto> put_impl (fst (move_impl (impl_of t))) t)) w"
proof (cases "si_fd (impl_of t)")
  case None
  then have "view pr p s = None" "view pr p d = None" using s d by (simp_all add: view_def)
  with None have "view pr (p(s \<mapsto> put_impl (snd (move_impl (impl_of t))) t,
      d \<mapsto> put_impl (fst (move_impl (impl_of t))) t)) = view pr p"
    by (simp add: view_upd fun_upd_idem)
  from keeps_same_view [OF inv this, of "[]"] show ?thesis by simp
next
  case (Some fd)
  have sd: "s \<noteq> d" using s d by auto
  have sv: "view pr p s = Some (fd, expected pr t)" and dv: "view pr p d = None"
    using s d Some by (simp_all add: view_def)
  let ?v = "(view pr p)(s := None, d \<mapsto> (fd, expected pr t))"
  have v': "view pr (p(s \<mapsto> put_impl (snd (move_impl (impl_of t))) t,
      d \<mapsto> put_impl (fst (move_impl (impl_of t))) t)) = ?v"
    using Some by (simp add: view_upd)
  have "consistent ?v (phases (w_trace w))"
    using inv sv sd by (auto simp: sys_inv_def intro: consistent_move)
  moreover have "fds_of ?v = fds_of (view pr p)" using sv sd dv by (rule fds_of_transfer)
  ultimately show ?thesis using inv v' by (simp add: keeps_def sys_inv_def leaked_def owned_def)
qed

text \<open>
  A move assignment keeps the protocol, but the descriptor that the target held is forgotten: it
  has no owner any more.
\<close>

lemma inv_move_assign:
  assumes inv: "sys_inv live pr p w" and s: "p s = Some t" and d: "p d = Some u"
    and sd: "s \<noteq> d" and cls: "same_class t u"
  shows "sys_inv live pr (p(s \<mapsto> put_impl (snd (move_assign_impl (impl_of u) (impl_of t))) t,
                            d \<mapsto> put_impl (fst (move_assign_impl (impl_of u) (impl_of t))) t)) w"
proof -
  let ?p = "p(s \<mapsto> put_impl (snd (move_assign_impl (impl_of u) (impl_of t))) t,
              d \<mapsto> put_impl (fst (move_assign_impl (impl_of u) (impl_of t))) t)"
  have v': "view pr ?p = (view pr p)(s := None, d := view pr p s)"
    using s by (simp add: view_upd move_assign_impl_def view_def)
  have c: "consistent (view pr p) (phases (w_trace w))" using inv by (simp add: sys_inv_def)
  have "consistent ((view pr p)(s := None, d := view pr p s)) (phases (w_trace w))"
  proof (cases "view pr p s")
    case None
    then show ?thesis using consistent_drop [OF consistent_drop [OF c, of s], of d] by simp
  next
    case (Some a)
    then obtain fd ph where "view pr p s = Some (fd, ph)" by (cases a) auto
    with consistent_move [OF c this sd] show ?thesis by simp
  qed
  with inv v' show ?thesis by (simp add: sys_inv_def)
qed

subsection \<open>Transfers: at most one call on the object's own descriptor\<close>

definition one_call ::
  "'k os \<Rightarrow> socket_impl \<Rightarrow> (int \<Rightarrow> sys_call \<Rightarrow> bool) \<Rightarrow> 'k world \<Rightarrow> 'k world \<Rightarrow> bool" where
  "one_call K s P w w1 \<longleftrightarrow>
     (\<exists>us. w1 = mark_ubs us w) \<or>
     (\<exists>fd c r w0 us. si_fd s = Some fd \<and> P fd c \<and> do_sys K c w = (r, w0) \<and> w1 = mark_ubs us w0)"

lemma one_callI:
  "one_call K s P w w" "one_call K s P w (mark_ub u w)"
  "do_sys K c w = (r, w0) \<Longrightarrow> si_fd s = Some fd \<Longrightarrow> P fd c \<Longrightarrow> one_call K s P w w0"
  "do_sys K c w = (r, w0) \<Longrightarrow> si_fd s = Some fd \<Longrightarrow> P fd c \<Longrightarrow> one_call K s P w (mark_ubs us w0)"
proof -
  have "w = mark_ubs [] w" "mark_ub u w = mark_ubs [u] w" by simp_all
  then show "one_call K s P w w" "one_call K s P w (mark_ub u w)"
    unfolding one_call_def by blast+
  assume d: "do_sys K c w = (r, w0)" and s: "si_fd s = Some fd" "P fd c"
  then show m: "one_call K s P w (mark_ubs us w0)" for us unfolding one_call_def by blast
  show "one_call K s P w w0" using m [of "[]"] by simp
qed

lemma one_call_send: "one_call K s (\<lambda>fd c. \<exists>b n fl. c = SysSend fd b n fl) w (snd (impl_send K s buf n fl w))"
  by (auto simp: impl_send_def split: option.splits prod.splits intro: one_callI)

lemma one_call_recv: "one_call K s (\<lambda>fd c. \<exists>n fl. c = SysRecv fd n fl) w (snd (snd (impl_receive K s buf n fl w)))"
  by (auto simp: impl_receive_def split: option.splits prod.splits intro: one_callI)

lemma one_call_shutdown: "one_call K s (\<lambda>fd c. \<exists>d. c = SysShutdown fd d) w (snd (impl_shutdown K s dir w))"
  by (auto simp: impl_shutdown_def Let_def split: option.splits prod.splits intro: one_callI)

lemma one_call_send_to:
  "one_call K s (\<lambda>fd c. \<exists>b n fl sa. c = SysSendto fd b n fl sa) w (snd (impl_send_to K s a buf n fl w))"
  by (auto simp: impl_send_to_def send_to_impl_def split: option.splits prod.splits if_splits
      intro: one_callI)

lemma one_call_recv_from:
  "one_call K s (\<lambda>fd c. \<exists>n fl al. c = SysRecvfrom fd n fl al) w
     (snd (snd (impl_receive_from K s buf n fl w)))"
  by (auto simp: impl_receive_from_def recv_from_impl_def split: option.splits prod.splits if_splits
      dest!: parse_addr_trace intro: one_callI)

lemma keeps_one_call:
  assumes inv: "sys_inv live pr p w" and K: "posix_fds K live" and i: "p i = Some t"
    and call: "one_call K (impl_of t) P w w1"
    and P: "\<And>fd c. P fd c \<Longrightarrow> quiet c \<and> (\<forall>m. m fd = Some (expected pr t) \<longrightarrow> legal m c)
                     \<and> (\<forall>r e m. phase_step c r e m = m)"
  shows "keeps live pr p w p w1"
proof -
  from call consider (none) us where "w1 = mark_ubs us w"
    | (one) fd c r w0 us where "si_fd (impl_of t) = Some fd" "P fd c" "do_sys K c w = (r, w0)"
        "w1 = mark_ubs us w0"
    unfolding one_call_def by blast
  then show ?thesis
  proof cases
    case none
    with keeps_same_view [OF inv refl] show ?thesis by simp
  next
    case one
    have "view pr p i = Some (fd, expected pr t)" using i one(1) by (simp add: view_def)
    then have "phases (w_trace w) fd = Some (expected pr t)"
      using inv unfolding sys_inv_def by (blast dest: consistentD)
    with P [OF one(2)] have c: "quiet c" "legal (phases (w_trace w)) c"
      "\<And>r e m. phase_step c r e m = m" by blast+
    have "w_trace w0 = Sys c (rp_ret r) (w_errno w0) # w_trace w" using do_sys_trace [OF one(3)] by simp
    moreover have "via K quiet w w0" using one(3) c(1) by (rule via_call)
    ultimately have k: "keeps live pr p w p w0" using keeps_call [OF inv K] c(2,3) by blast
    then have "keeps live pr p w0 p w1"
      using one(4) keeps_same_view [of live pr p w0 p us] by (simp add: keeps_def)
    with k show ?thesis by (simp add: keeps_def)
  qed
qed

subsection \<open>Every operation keeps the invariant\<close>

lemma keeps_create:
  assumes inv: "sys_inv live pr p w" and K: "posix_fds K live" and d: "p d = None"
  shows "keeps live pr p w (case fst (socket_create K pr af w) of Some s \<Rightarrow> p(d \<mapsto> TSocket s) | None \<Rightarrow> p)
           (snd (socket_create K pr af w))"
proof -
  let ?c = "SysSocket af (SOCK_NONBLOCK OR proto_int pr) (case proto_flags pr of Some f \<Rightarrow> f | None \<Rightarrow> 0)"
  obtain r w0 where call: "do_sys K ?c w = (r, w0)" by fastforce
  show ?thesis
  proof (cases "rp_ret r = -1")
    case True
    then have "socket_create K pr af w = (None, w0)"
      using call by (simp add: socket_create_def impl_open_def split_def)
    with keeps_new_fail [OF inv K call _ _ True] show ?thesis by simp
  next
    case False
    then obtain s where s: "socket_create K pr af w = (Some s, w0)" "si_fd (s_impl s) = Some (rp_ret r)"
      using call by (simp add: socket_create_def impl_open_def split_def)
    with False keeps_new [OF inv K d call, of "TSocket s" "[]"] show ?thesis by simp
  qed
qed

lemma keeps_accept:
  assumes inv: "sys_inv live pr p w" and K: "posix_fds K live" and s: "p s = Some (TListening x)"
    and d: "p d = None" and pr: "\<not> is_connectionless pr"
  shows "keeps live pr p w (case fst (listening_accept K x w) of Some a \<Rightarrow> p(d \<mapsto> TActive a) | None \<Rightarrow> p)
           (snd (listening_accept K x w))"
proof -
  obtain acc w1 where acc: "impl_accept K (l_impl x) w = (acc, w1)" by fastforce
  have legal: "legal (phases (w_trace w)) (SysAccept4 fd al fl)" if "si_fd (l_impl x) = Some fd" for fd al fl
  proof -
    have "view pr p s = Some (fd, Listening)" using s that by (simp add: view_def)
    with inv show ?thesis by (auto simp: sys_inv_def dest: consistentD)
  qed
  from impl_accept_trace [OF acc] consider (none) "w1 = w" "acc = None"
    | (fail) fd al fl r where "si_fd (l_impl x) = Some fd" "acc = None"
        "do_sys K (SysAccept4 fd al fl) w = (r, w1)" "rp_ret r = -1"
    | (ok) fd al fl w0 r us a where "si_fd (l_impl x) = Some fd" "do_sys K (SysAccept4 fd al fl) w = (r, w0)"
        "rp_ret r \<noteq> -1" "w1 = mark_ubs us w0" "acc = Some (socket_impl_ctor (rp_ret r) (si_family (l_impl x)), a)"
    by blast
  then show ?thesis
  proof cases
    case none
    then show ?thesis using acc inv by (simp add: listening_accept_def keeps_refl)
  next
    case fail
    then show ?thesis
      using acc keeps_new_fail [OF inv K fail(3) _ legal [OF fail(1)] fail(4)]
      by (simp add: listening_accept_def)
  next
    case ok
    then show ?thesis
      using acc pr keeps_new [OF inv K d ok(2) _ legal [OF ok(1)] ok(3), of _ us]
      by (simp add: listening_accept_def active_ctor_def socket_impl_ctor_def split_def)
  qed
qed

fun is_move_assign :: "api_op \<Rightarrow> bool" where
  "is_move_assign (OpMoveAssign _ _) = True"
| "is_move_assign _ = False"

lemma keeps_store:
  assumes inv: "sys_inv live pr p w" and K: "posix_fds K live"
    and s: "p s = Some (bk x)" and d: "p d = None"
    and res: "res = (r, x', w1)" and via: "via K quiet w w1"
    and tr: "transit pr (bk x) (map_option mk r) (bk x') w w1"
  shows "keeps live pr p w (fst (store mk bk s d p res)) (snd (store mk bk s d p res))"
  using keeps_transit [OF inv K via s d tr] res by (cases r) (simp_all add: store_def)

lemma via_policies:
  "bind_less K x a w = (r1, x', w1) \<Longrightarrow> via K quiet w w1"
  "bind_conn K x a w = (r2, x', w1) \<Longrightarrow> via K quiet w w1"
  "socket_connect K x a w = (r1, x', w1) \<Longrightarrow> via K quiet w w1"
  "binded_connect K y a w = (r1, y', w1) \<Longrightarrow> via K quiet w w1"
  "binded_listen K y mc w = (r3, y', w1) \<Longrightarrow> via K quiet w w1"
  by (auto simp: bind_less_def bind_conn_def socket_connect_def binded_connect_def binded_listen_def
      split: prod.splits if_splits dest: via_impl)

lemma keeps_policies:
  assumes inv: "sys_inv live pr p w" and K: "posix_fds K live" and d: "p d = None"
  shows
    "p s = Some (TSocket x) \<Longrightarrow> is_connectionless pr \<Longrightarrow>
       keeps live pr p w (fst (store TActive TSocket s d p (bind_less K x a w)))
                         (snd (store TActive TSocket s d p (bind_less K x a w)))"
    "p s = Some (TSocket x) \<Longrightarrow>
       keeps live pr p w (fst (store TBinded TSocket s d p (bind_conn K x a w)))
                         (snd (store TBinded TSocket s d p (bind_conn K x a w)))"
    "p s = Some (TSocket x) \<Longrightarrow> \<not> is_connectionless pr \<Longrightarrow>
       keeps live pr p w (fst (store TActive TSocket s d p (socket_connect K x a w)))
                         (snd (store TActive TSocket s d p (socket_connect K x a w)))"
    "p s = Some (TBinded y) \<Longrightarrow> \<not> is_connectionless pr \<Longrightarrow>
       keeps live pr p w (fst (store TActive TBinded s d p (binded_connect K y a w)))
                         (snd (store TActive TBinded s d p (binded_connect K y a w)))"
    "p s = Some (TBinded y) \<Longrightarrow>
       keeps live pr p w (fst (store TListening TBinded s d p (binded_listen K y mc w)))
                         (snd (store TListening TBinded s d p (binded_listen K y mc w)))"
proof -
  show "keeps live pr p w (fst (store TActive TSocket s d p (bind_less K x a w)))
          (snd (store TActive TSocket s d p (bind_less K x a w)))"
    if "p s = Some (TSocket x)" "is_connectionless pr"
  proof -
    obtain r o' w1 where e: "bind_less K x a w = (r, o', w1)" by (cases "bind_less K x a w")
    show ?thesis
      using that(1) d e via_policies(1) [OF e] transit_bind(1) [OF e that(2)]
      by (rule keeps_store [where mk = TActive and bk = TSocket and x = x, OF inv K])
  qed
  show "keeps live pr p w (fst (store TBinded TSocket s d p (bind_conn K x a w)))
          (snd (store TBinded TSocket s d p (bind_conn K x a w)))"
    if "p s = Some (TSocket x)"
  proof -
    obtain r o' w1 where e: "bind_conn K x a w = (r, o', w1)" by (cases "bind_conn K x a w")
    show ?thesis
      using that(1) d e via_policies(2) [OF e] transit_bind(2) [OF e]
      by (rule keeps_store [where mk = TBinded and bk = TSocket and x = x, OF inv K])
  qed
  show "keeps live pr p w (fst (store TActive TSocket s d p (socket_connect K x a w)))
          (snd (store TActive TSocket s d p (socket_connect K x a w)))"
    if "p s = Some (TSocket x)" "\<not> is_connectionless pr"
  proof -
    obtain r o' w1 where e: "socket_connect K x a w = (r, o', w1)" by (cases "socket_connect K x a w")
    show ?thesis
      using that(1) d e via_policies(3) [OF e] transit_connect(1) [OF e that(2)]
      by (rule keeps_store [where mk = TActive and bk = TSocket and x = x, OF inv K])
  qed
  show "keeps live pr p w (fst (store TActive TBinded s d p (binded_connect K y a w)))
          (snd (store TActive TBinded s d p (binded_connect K y a w)))"
    if "p s = Some (TBinded y)" "\<not> is_connectionless pr"
  proof -
    obtain r o' w1 where e: "binded_connect K y a w = (r, o', w1)" by (cases "binded_connect K y a w")
    show ?thesis
      using that(1) d e via_policies(4) [OF e] transit_connect(2) [OF e that(2)]
      by (rule keeps_store [where mk = TActive and bk = TBinded and x = y, OF inv K])
  qed
  show "keeps live pr p w (fst (store TListening TBinded s d p (binded_listen K y mc w)))
          (snd (store TListening TBinded s d p (binded_listen K y mc w)))"
    if "p s = Some (TBinded y)"
  proof -
    obtain r o' w1 where e: "binded_listen K y mc w = (r, o', w1)" by (cases "binded_listen K y mc w")
    show ?thesis
      using that(1) d e via_policies(5) [OF e] transit_listen [OF e]
      by (rule keeps_store [where mk = TListening and bk = TBinded and x = y, OF inv K])
  qed
qed

lemma keeps_transfers:
  assumes inv: "sys_inv live pr p w" and K: "posix_fds K live" and i: "p i = Some (TActive x)"
  shows
    "\<not> is_connectionless pr \<Longrightarrow> keeps live pr p w p (snd (send_conn K x buf n 0 w))"
    "is_connectionless pr \<Longrightarrow> keeps live pr p w p (snd (send_less K x a buf n 0 w))"
    "\<not> is_connectionless pr \<Longrightarrow> keeps live pr p w p (snd (snd (receive_conn K x buf n 0 w)))"
    "is_connectionless pr \<Longrightarrow> keeps live pr p w p (snd (snd (receive_less K x buf n 0 w)))"
    "keeps live pr p w p (snd (active_shutdown K x dir w))"
proof -
  note k = keeps_one_call [OF inv K i, unfolded impl_of.simps]
  show "\<not> is_connectionless pr \<Longrightarrow> keeps live pr p w p (snd (send_conn K x buf n 0 w))"
    unfolding send_conn_def by (rule k [OF one_call_send]) auto
  show "is_connectionless pr \<Longrightarrow> keeps live pr p w p (snd (send_less K x a buf n 0 w))"
    unfolding send_less_def by (rule k [OF one_call_send_to]) auto
  show "\<not> is_connectionless pr \<Longrightarrow> keeps live pr p w p (snd (snd (receive_conn K x buf n 0 w)))"
    unfolding receive_conn_def by (rule k [OF one_call_recv]) auto
  show "is_connectionless pr \<Longrightarrow> keeps live pr p w p (snd (snd (receive_less K x buf n 0 w)))"
    unfolding receive_less_def by (rule k [OF one_call_recv_from]) auto
  have "keeps live pr p w p (snd (impl_shutdown K (a_impl x) dir w))"
    by (rule k [OF one_call_shutdown]) auto
  then show "keeps live pr p w p (snd (active_shutdown K x dir w))"
    using keeps_refl [OF inv] by (simp add: active_shutdown_def)
qed

lemma api_step_keeps:
  assumes inv: "sys_inv live pr p w" and K: "posix_fds K live" and op: "\<not> is_move_assign op"
  shows "keeps live pr p w (fst (api_step K pr op (p, w))) (snd (api_step K pr op (p, w)))"
proof -
  note refl = keeps_refl [OF inv]
  show ?thesis
  proof (cases op)
    case (OpCreate d af)
    show ?thesis
      using refl keeps_create [OF inv K, of d af]
      by (auto simp: OpCreate split: option.splits prod.splits)
  next
    case (OpBind s d a)
    show ?thesis
      using refl keeps_policies(1,2) [OF inv K]
      by (auto simp: OpBind split: option.split tsock.split)
  next
    case (OpConnect s d a)
    show ?thesis
      using refl keeps_policies(3,4) [OF inv K]
      by (auto simp: OpConnect split: option.split tsock.split)
  next
    case (OpListen s d mc)
    show ?thesis
      using refl keeps_policies(5) [OF inv K]
      by (auto simp: OpListen split: option.split tsock.split)
  next
    case (OpAccept s d)
    show ?thesis
      using refl keeps_accept [OF inv K, of s _ d]
      by (fastforce simp: OpAccept split: option.splits prod.splits tsock.splits)
  next
    case (OpSend i a buf n)
    show ?thesis
      using refl keeps_transfers(1,2) [OF inv K]
      by (auto simp: OpSend split: option.split tsock.split)
  next
    case (OpReceive i buf n)
    show ?thesis
      using refl keeps_transfers(3,4) [OF inv K]
      by (auto simp: OpReceive split: option.split tsock.split)
  next
    case (OpShutdown i dir)
    show ?thesis
      using refl keeps_transfers(5) [OF inv K]
      by (auto simp: OpShutdown split: option.split tsock.split)
  next
    case (OpDestroy i)
    show ?thesis
      using refl keeps_destroy [OF inv K, of i] by (auto simp: OpDestroy split: option.split)
  next
    case (OpMove s d)
    show ?thesis
      using refl keeps_move [OF inv, of s _ d] by (auto simp: OpMove split_def split: option.split)
  next
    case (OpMoveAssign s d)
    with op show ?thesis by simp
  qed
qed

lemma api_step_inv:
  assumes "posix_fds K live" "sys_inv live pr p w"
  shows "sys_inv live pr (fst (api_step K pr op (p, w))) (snd (api_step K pr op (p, w)))"
proof (cases "is_move_assign op")
  case True
  then obtain s d where "op = OpMoveAssign s d" by (cases op) auto
  then show ?thesis
    using assms inv_move_assign [OF assms(2), of s _ d]
    by (auto simp: split_def split: option.split)
next
  case False
  with api_step_keeps [OF assms(2,1)] show ?thesis by (simp add: keeps_def)
qed

lemma sys_inv_init: "ledger_ok live w \<Longrightarrow> w_trace w = [] \<Longrightarrow> sys_inv live pr Map.empty w"
  by (simp add: sys_inv_def consistent_def view_def)

lemma api_run_inv:
  "posix_fds K live \<Longrightarrow> sys_inv live pr (fst s) (snd s) \<Longrightarrow>
     sys_inv live pr (fst (api_run K pr ops s)) (snd (api_run K pr ops s))"
proof (induction ops arbitrary: s)
  case (Cons op ops)
  then show ?case using api_step_inv [of K live pr "fst s" "snd s" op] by (simp add: api_run_def)
qed (simp add: api_run_def)

lemma api_run_leaked:
  "posix_fds K live \<Longrightarrow> sys_inv live pr (fst s) (snd s) \<Longrightarrow>
     list_all (\<lambda>op. \<not> is_move_assign op) ops \<Longrightarrow>
     leaked pr (fst (api_run K pr ops s)) (snd (api_run K pr ops s)) = leaked pr (fst s) (snd s)"
proof (induction ops arbitrary: s)
  case (Cons op ops)
  then show ?case
    using api_step_keeps [of live pr "fst s" "snd s" K op] by (simp add: api_run_def keeps_def)
qed (simp add: api_run_def)

lemma api_step_leaked_grows:
  assumes "posix_fds K live" and "sys_inv live pr p w"
  shows "leaked pr p w \<subseteq> leaked pr (fst (api_step K pr op (p, w))) (snd (api_step K pr op (p, w)))"
proof (cases "is_move_assign op")
  case True
  then obtain s d where op: "op = OpMoveAssign s d" by (cases op) auto
  have w: "snd (api_step K pr op (p, w)) = w" by (simp add: op split_def split: option.split)
  have "owned pr (fst (api_step K pr op (p, w))) \<subseteq> owned pr p"
  proof (cases "\<exists>t u. p s = Some t \<and> p d = Some u \<and> s \<noteq> d \<and> same_class t u")
    case True
    then have "view pr (fst (api_step K pr op (p, w))) = (view pr p)(s := None, d := view pr p s)"
      unfolding op by (auto simp: split_def view_upd move_assign_impl_def view_def)
    then show ?thesis by (auto simp: owned_def fds_of_def split: if_splits)
  next
    case False
    then have "fst (api_step K pr op (p, w)) = p" unfolding op by (auto simp: split_def split: option.splits)
    then show ?thesis by simp
  qed
  with w show ?thesis by (auto simp: leaked_def)
next
  case False
  with api_step_keeps [OF assms(2,1)] show ?thesis by (simp add: keeps_def)
qed

lemma api_run_leaked_grows:
  "posix_fds K live \<Longrightarrow> sys_inv live pr (fst s) (snd s) \<Longrightarrow>
     leaked pr (fst s) (snd s) \<subseteq> leaked pr (fst (api_run K pr ops s)) (snd (api_run K pr ops s))"
proof (induction ops arbitrary: s)
  case (Cons op ops)
  then show ?case
    using api_step_leaked_grows [of K live pr "fst s" "snd s" op] api_step_inv [of K live pr "fst s" "snd s" op]
    by (fastforce simp: api_run_def)
qed (simp add: api_run_def)

lemma owned_open: "sys_inv live pr p w \<Longrightarrow> owned pr p \<subseteq> open_fds (w_trace w)"
  by (fastforce simp: sys_inv_def owned_def elim!: fds_ofE dest: consistentD dom_phases)

lemma owned_empty [simp]: "owned pr Map.empty = {}"
  by (simp add: owned_def fds_of_def view_def)

lemma leaked_move_assign:
  assumes inv: "sys_inv live pr p w" and s: "p s = Some t" and d: "p d = Some u"
    and sd: "s \<noteq> d" and cls: "same_class t u" and fd: "si_fd (impl_of u) = Some fd"
  shows "fd \<in> leaked pr (fst (api_step K pr (OpMoveAssign s d) (p, w)))
                       (snd (api_step K pr (OpMoveAssign s d) (p, w)))"
proof -
  let ?st = "api_step K pr (OpMoveAssign s d) (p, w)"
  have w: "snd ?st = w" and v': "view pr (fst ?st) = (view pr p)(s := None, d := view pr p s)"
    using s d sd cls by (simp_all add: split_def view_upd move_assign_impl_def view_def)
  have dv: "view pr p d = Some (fd, expected pr u)" using d fd by (simp add: view_def)
  have c: "consistent (view pr p) (phases (w_trace w))" using inv by (simp add: sys_inv_def)
  have "fd \<in> owned pr p" using dv unfolding owned_def by (rule fds_ofI)
  then have "fd \<in> open_fds (w_trace w)" using owned_open [OF inv] by blast
  moreover have "fd \<notin> owned pr (fst ?st)"
  proof
    assume "fd \<in> owned pr (fst ?st)"
    then obtain i q where "((view pr p)(s := None, d := view pr p s)) i = Some (fd, q)"
      unfolding owned_def v' by (rule fds_ofE)
    then show False
      using consistent_inj [OF c dv] sd by (auto split: if_splits)
  qed
  ultimately show ?thesis using w by (simp add: leaked_def)
qed

subsection \<open>Properties\<close>

text \<open>
  C1: Every program over the typed sockets, with moves, move assignments, failed operations,
  early destruction and calls on moved-from objects, makes system calls, up to its first
  undefined behaviour, only in an order the socket protocol allows: bind before listen before
  accept, data only on a connected (or, for a connectionless protocol, bound) descriptor, and no
  descriptor is used or closed after it was closed; and between its creation and its close a
  descriptor never falls back to an earlier phase. An undefined behaviour, such as a connect on
  a moved-from socket, ends the part of the history that this speaks of; bytes read behind a
  socket address do not.
\<close>

theorem typed_programs_follow_protocol:
  assumes "posix_fds K live" and "ledger_ok live w" and "w_trace w = []"
    and "api_run K pr ops (Map.empty, w) = (p', w')"
  shows "well_ordered (defined_part (w_trace w'))
    \<and> (\<forall>t t0 fd p. defined_part (w_trace w') = t @ t0 \<and> (\<forall>ev \<in> set t. \<not> renews fd ev) \<and> phases t0 fd = Some p \<longrightarrow>
         (\<exists>q. phases (defined_part (w_trace w')) fd = Some q \<and> p \<le> q))"
proof -
  have "well_ordered (w_trace w')"
    using api_run_inv [OF assms(1), of pr "(Map.empty, w)" ops] sys_inv_init [OF assms(2,3)] assms(4)
    by (simp add: sys_inv_def)
  then have "well_ordered (defined_part (w_trace w'))" by (rule well_ordered_defined_part)
  then show ?thesis using well_ordered_advances by metis
qed

theorem typed_programs_follow_protocol_witness:
  "well_ordered (defined_part (w_trace (snd (api_run counting_os tcp
     [OpCreate 0 AF_INET, OpBind 0 1 (sample_addr 80), OpListen 1 2 5, OpAccept 2 3,
      OpSend 3 (sample_addr 80) [1, 2] 2, OpDestroy 3, OpConnect 0 4 (sample_addr 80)]
     (Map.empty, init_world [])))))"
  by (rule typed_programs_follow_protocol [THEN conjunct1, OF counting_os_posix _ _ prod.collapse [symmetric]])
    (simp_all add: ledger_ok_def)

text \<open>
  C4: In a program over the typed sockets that does not move-assign, the descriptors the process
  has open are at every moment exactly the ones held by its live objects, so destruction of all
  objects closes everything.
\<close>

theorem typed_programs_do_not_leak:
  assumes "posix_fds K live" and "ledger_ok live w" and "w_trace w = []"
    and "list_all (\<lambda>op. \<not> is_move_assign op) ops"
    and "api_run K pr ops (Map.empty, w) = (p', w')"
  shows "open_fds (w_trace w') = owned pr p'"
proof -
  have "sys_inv live pr p' w'" "leaked pr p' w' = {}"
    using api_run_inv [OF assms(1), of pr "(Map.empty, w)" ops]
      api_run_leaked [OF assms(1), of pr "(Map.empty, w)" ops] sys_inv_init [OF assms(2,3)] assms(3-5)
    by (simp_all add: leaked_def)
  then show ?thesis using owned_open [of live pr p' w'] by (auto simp: leaked_def)
qed

theorem typed_programs_do_not_leak_witness:
  "\<exists>p' w'. api_run counting_os tcp
       [OpCreate 0 AF_INET, OpBind 0 1 (sample_addr 80), OpDestroy 0] (Map.empty, init_world []) = (p', w')
     \<and> open_fds (w_trace w') = owned tcp p'"
proof -
  let ?ops = "[OpCreate 0 AF_INET, OpBind 0 1 (sample_addr 80), OpDestroy 0]"
  obtain p' w' where run: "api_run counting_os tcp ?ops (Map.empty, init_world []) = (p', w')" by fastforce
  have "open_fds (w_trace w') = owned tcp p'"
    by (rule typed_programs_do_not_leak [OF counting_os_posix _ _ _ run]) (simp_all add: ledger_ok_def)
  with run show ?thesis by blast
qed

text \<open>
  C40: Move-assigning to a typed socket that holds a descriptor loses that descriptor: it stays
  open, and after no further sequence of operations, move assignments included, does any object
  hold it, as long as the run shows no undefined behaviour.
\<close>

theorem move_assignment_leaks:
  assumes "posix_fds K live" and "sys_inv live pr p w"
    and "p s = Some t" "p d = Some u" "s \<noteq> d" "same_class t u" "si_fd (impl_of u) = Some fd"
    and "api_run K pr (OpMoveAssign s d # ops) (p, w) = (p', w')"
    and "defined_part (w_trace w') = w_trace w'"
  shows "fd \<in> open_fds (w_trace w') \<and> fd \<notin> owned pr p'"
proof -
  let ?s = "api_step K pr (OpMoveAssign s d) (p, w)"
  have "sys_inv live pr (fst ?s) (snd ?s)" by (rule api_step_inv [OF assms(1,2)])
  from api_run_leaked_grows [OF assms(1) this] leaked_move_assign [OF assms(2-7), of K]
  have "fd \<in> leaked pr (fst (api_run K pr ops ?s)) (snd (api_run K pr ops ?s))" by blast
  moreover have "api_run K pr ops ?s = (p', w')" using assms(8) by (simp only: api_run_def fold_simps o_def)
  ultimately show ?thesis by (simp add: leaked_def)
qed

theorem move_assignment_leaks_witness:
  "\<exists>p' w'. api_run counting_os tcp [OpCreate 0 AF_INET, OpCreate 1 AF_INET, OpMoveAssign 0 1, OpDestroy 1]
       (Map.empty, init_world []) = (p', w')
     \<and> 4 \<in> open_fds (w_trace w') \<and> 4 \<notin> owned tcp p'"
proof -
  let ?i = "(Map.empty, init_world []) :: pool \<times> int list world"
  let ?s = "api_run counting_os tcp [OpCreate 0 AF_INET, OpCreate 1 AF_INET] ?i"
  let ?r = "api_run counting_os tcp (OpMoveAssign 0 1 # [OpDestroy 1]) (fst ?s, snd ?s)"
  have eval: "fst ?s 0 = Some (TSocket \<lparr>s_impl = \<lparr>si_fd = Some 3, si_family = AF_INET\<rparr>\<rparr>)"
    "fst ?s 1 = Some (TSocket \<lparr>s_impl = \<lparr>si_fd = Some 4, si_family = AF_INET\<rparr>\<rparr>)"
    by (simp_all add: api_run_def socket_create_def impl_open_def do_sys_def counting_os_def
        impl_default_def move_impl_def tcp_def Let_def)
  have "\<forall>e \<in> set (w_trace (snd ?r)). \<not> derails e"
    by (simp add: api_run_def socket_create_def impl_open_def do_sys_def counting_os_def impl_default_def move_impl_def
        move_assign_impl_def destroy_impl_def impl_empty_def impl_close_def tcp_def Let_def)
  then have defined: "defined_part (w_trace (snd ?r)) = w_trace (snd ?r)" by (rule defined_part_id)
  have "sys_inv set tcp (fst ?s) (snd ?s)"
    by (rule api_run_inv [OF counting_os_posix]) (simp add: sys_inv_init ledger_ok_def)
  then have "4 \<in> open_fds (w_trace (snd ?r)) \<and> 4 \<notin> owned tcp (fst ?r)"
    by (rule move_assignment_leaks [OF counting_os_posix _ eval]) (use defined in simp_all)
  then show ?thesis by (intro exI [of _ "fst ?r"] exI [of _ "snd ?r"]) (simp add: api_run_def)
qed

end
