(* ===== verification/Epoll.thy ===== *)
theory Epoll
  imports Socket_Impl
begin

section \<open>Epoll\<close>

text \<open>
  Models \<^verbatim>\<open>include/epoll/epoll.h\<close>, \<^verbatim>\<open>src/epoll/epoll.cpp\<close>,
  \<^verbatim>\<open>include/socket/sock_op.h\<close> and \<^verbatim>\<open>include/poll_event/event.h\<close>. Masks are 32-bit
  words; an event type is a mask over the six kinds of event. The mutex of the class only guards
  \<^verbatim>\<open>exchange\<close> and has no effect in a sequential run.
\<close>

subsection \<open>Enumerations\<close>

definition op_READ :: uint32 where
  "op_READ = 1"

definition op_WRITE :: uint32 where
  "op_WRITE = push_bit 1 1"

definition op_READ_WRITE :: uint32 where
  "op_READ_WRITE = op_READ OR op_WRITE"

definition NONE :: uint32 where "NONE = 0"
definition EXCEPTION :: uint32 where "EXCEPTION = 1"
definition READ_READY :: uint32 where "READ_READY = push_bit 1 1"
definition WRITE_READY :: uint32 where "WRITE_READY = push_bit 2 1"
definition PEER_CLOSED :: uint32 where "PEER_CLOSED = push_bit 3 1"
definition ERROR_EV :: uint32 where "ERROR_EV = push_bit 4 1"
definition HANGUP :: uint32 where "HANGUP = push_bit 5 1"

lemmas event_type_defs = NONE_def EXCEPTION_def READ_READY_def WRITE_READY_def PEER_CLOSED_def
  ERROR_EV_def HANGUP_def

lemma event_types_distinct [simp]:
  "NONE \<noteq> EXCEPTION" "NONE \<noteq> READ_READY" "NONE \<noteq> WRITE_READY" "NONE \<noteq> PEER_CLOSED" "NONE \<noteq> ERROR_EV"
  "NONE \<noteq> HANGUP" "EXCEPTION \<noteq> READ_READY" "EXCEPTION \<noteq> WRITE_READY" "EXCEPTION \<noteq> PEER_CLOSED"
  "EXCEPTION \<noteq> ERROR_EV" "EXCEPTION \<noteq> HANGUP" "READ_READY \<noteq> WRITE_READY" "READ_READY \<noteq> PEER_CLOSED"
  "READ_READY \<noteq> ERROR_EV" "READ_READY \<noteq> HANGUP" "WRITE_READY \<noteq> PEER_CLOSED" "WRITE_READY \<noteq> ERROR_EV"
  "WRITE_READY \<noteq> HANGUP" "PEER_CLOSED \<noteq> ERROR_EV" "PEER_CLOSED \<noteq> HANGUP" "ERROR_EV \<noteq> HANGUP"
  by (simp_all add: event_type_defs)

lemmas event_types_distinct' [simp] = event_types_distinct [symmetric]

text \<open>The masks of \<^verbatim>\<open><sys/epoll.h>\<close>.\<close>

abbreviation (input) "EPOLLIN \<equiv> (1::uint32)"
abbreviation (input) "EPOLLPRI \<equiv> (2::uint32)"
abbreviation (input) "EPOLLOUT \<equiv> (4::uint32)"
abbreviation (input) "EPOLLERR \<equiv> (8::uint32)"
abbreviation (input) "EPOLLHUP \<equiv> (16::uint32)"
abbreviation (input) "EPOLLRDHUP \<equiv> (8192::uint32)"
abbreviation (input) "EPOLLET \<equiv> (2147483648::uint32)"

record poll_event =
  ev_fd :: int
  ev_type :: uint32

subsection \<open>The class\<close>

record epoll_t =
  ep_fd :: int
  ep_max_events :: uint32

definition epoll_ctor :: "'k os \<Rightarrow> int \<Rightarrow> uint32 \<Rightarrow> 'k world \<Rightarrow> (exn + epoll_t) \<times> 'k world" where
  "epoll_ctor K queue_size max_events w =
     (case do_sys K (SysEpollCreate queue_size) w of
        (r, w1) \<Rightarrow>
          (if rp_ret r = -1 then Inl (RuntimeError (w_errno w1))
           else Inr \<lparr>ep_fd = rp_ret r, ep_max_events = max_events\<rparr>, w1))"

definition epoll_create_opt :: "'k os \<Rightarrow> int \<Rightarrow> uint32 \<Rightarrow> 'k world \<Rightarrow> epoll_t option \<times> 'k world" where
  "epoll_create_opt K queue_size max_events w =
     (case do_sys K (SysEpollCreate queue_size) w of
        (r, w1) \<Rightarrow>
          (if rp_ret r \<noteq> -1 then Some \<lparr>ep_fd = rp_ret r, ep_max_events = max_events\<rparr> else None, w1))"

text \<open>
  \<open>exchange this other\<close>: the new \<^verbatim>\<open>*this\<close> and the emptied source. The move constructor
  calls it on an object with indeterminate members, the move assignment on a live one.
\<close>

definition epoll_exchange :: "epoll_t \<Rightarrow> epoll_t \<Rightarrow> epoll_t \<times> epoll_t" where
  "epoll_exchange this other =
     (this\<lparr>ep_fd := ep_fd other, ep_max_events := ep_max_events other\<rparr>,
      other\<lparr>ep_fd := -1, ep_max_events := 0\<rparr>)"

text \<open>The first argument of the move constructor is the object's indeterminate memory.\<close>

definition epoll_move :: "epoll_t \<Rightarrow> epoll_t \<Rightarrow> epoll_t \<times> epoll_t" where
  "epoll_move this other = epoll_exchange this other"

definition epoll_move_assign :: "epoll_t \<Rightarrow> epoll_t \<Rightarrow> epoll_t \<times> epoll_t" where
  "epoll_move_assign this other = epoll_exchange this other"

definition epoll_dtor :: "'k os \<Rightarrow> epoll_t \<Rightarrow> 'k world \<Rightarrow> 'k world" where
  "epoll_dtor K ep w = (if ep_fd ep \<noteq> -1 then snd (do_sys K (SysClose (ep_fd ep)) w) else w)"

text \<open>A \<^verbatim>\<open>sock_op\<close> outside the enumeration trips the assertion, or subscribes to the base mask only.\<close>

definition flags_from_op :: "uint32 \<Rightarrow> uint32" where
  "flags_from_op op =
     (let flags = EPOLLRDHUP OR EPOLLET OR EPOLLPRI OR EPOLLERR OR EPOLLHUP
      in if op = op_READ then flags OR EPOLLIN
         else if op = op_WRITE then flags OR EPOLLOUT
         else if op = op_READ_WRITE then flags OR (EPOLLOUT OR EPOLLIN)
         else flags)"

definition epoll_ctl :: "'k os \<Rightarrow> epoll_t \<Rightarrow> int \<Rightarrow> int \<Rightarrow> uint32 option \<Rightarrow> 'k world \<Rightarrow> bool \<times> 'k world" where
  "epoll_ctl K ep sock_fd ctl_op op w =
     (let event_ptr = (case op of Some p \<Rightarrow> Some (flags_from_op p, sock_fd) | None \<Rightarrow> None)
      in case do_sys K (SysEpollCtl (ep_fd ep) ctl_op sock_fd event_ptr) w of
           (r, w1) \<Rightarrow> (rp_ret r = 0, w1))"

definition add_socket :: "'k os \<Rightarrow> epoll_t \<Rightarrow> int \<Rightarrow> uint32 \<Rightarrow> 'k world \<Rightarrow> bool \<times> 'k world" where
  "add_socket K ep sock_fd op w = epoll_ctl K ep sock_fd EPOLL_CTL_ADD (Some op) w"

definition mod_socket :: "'k os \<Rightarrow> epoll_t \<Rightarrow> int \<Rightarrow> uint32 \<Rightarrow> 'k world \<Rightarrow> bool \<times> 'k world" where
  "mod_socket K ep sock_fd op w = epoll_ctl K ep sock_fd EPOLL_CTL_MOD (Some op) w"

definition del_socket :: "'k os \<Rightarrow> epoll_t \<Rightarrow> int \<Rightarrow> 'k world \<Rightarrow> bool \<times> 'k world" where
  "del_socket K ep sock_fd w = epoll_ctl K ep sock_fd EPOLL_CTL_DEL None w"

definition add_flag :: "uint32 \<Rightarrow> uint32 \<Rightarrow> uint32 \<Rightarrow> uint32 \<Rightarrow> uint32" where
  "add_flag flags msk tp ret = (if flags AND msk \<noteq> 0 then enum_or ret tp else ret)"

definition event_type_from_flags :: "uint32 \<Rightarrow> uint32" where
  "event_type_from_flags flags =
     add_flag flags EPOLLRDHUP PEER_CLOSED
      (add_flag flags EPOLLERR ERROR_EV
       (add_flag flags EPOLLHUP HANGUP
        (add_flag flags EPOLLPRI EXCEPTION
         (add_flag flags EPOLLOUT WRITE_READY
          (add_flag flags EPOLLIN READ_READY NONE)))))"

text \<open>
  \<^verbatim>\<open>proceed\<close>: the event buffer is a \<^verbatim>\<open>static thread_local\<close> vector, created by the first
  call on the thread with the \<^verbatim>\<open>m_max_events\<close> of \<^emph>\<open>that\<close> object. A later object passes its
  own limit to \<^verbatim>\<open>epoll_wait\<close>; an answer longer than the buffer is written past its end. The
  descriptor count is 12 bytes per event.
\<close>

definition epoll_proceed :: "'k os \<Rightarrow> epoll_t \<Rightarrow> int \<Rightarrow> 'k world \<Rightarrow> poll_event list \<times> 'k world" where
  "epoll_proceed K ep timeout w =
     (let size = (case w_tl_events w of Some n \<Rightarrow> n | None \<Rightarrow> unat (ep_max_events ep));
          w0 = w\<lparr>w_tl_events := Some size\<rparr>
      in case do_sys K (SysEpollWait (ep_fd ep) (c_int (uint (ep_max_events ep))) (c_int timeout)) w0 of
           (r, w1) \<Rightarrow>
             if 0 < rp_ret r
             then (let cnt = nat (rp_ret r);
                       w2 = (if size < cnt then mark_ub (WritePastEnd (12 * (cnt - size))) w1 else w1)
                   in (map (\<lambda>(flags, fd). \<lparr>ev_fd = fd, ev_type = event_type_from_flags flags\<rparr>)
                         (take cnt (rp_events r)), w2))
             else ([], w1))"

subsection \<open>Masks\<close>

lemma flag_bits:
  fixes flags :: uint32
  shows "flags AND EPOLLIN \<noteq> 0 \<longleftrightarrow> bit flags 0" "flags AND EPOLLPRI \<noteq> 0 \<longleftrightarrow> bit flags 1"
    "flags AND EPOLLOUT \<noteq> 0 \<longleftrightarrow> bit flags 2" "flags AND EPOLLERR \<noteq> 0 \<longleftrightarrow> bit flags 3"
    "flags AND EPOLLHUP \<noteq> 0 \<longleftrightarrow> bit flags 4" "flags AND EPOLLRDHUP \<noteq> 0 \<longleftrightarrow> bit flags 13"
  using and_exp_eq_0_iff_not_bit [of flags 0] and_exp_eq_0_iff_not_bit [of flags 1]
    and_exp_eq_0_iff_not_bit [of flags 2] and_exp_eq_0_iff_not_bit [of flags 3]
    and_exp_eq_0_iff_not_bit [of flags 4] and_exp_eq_0_iff_not_bit [of flags 13]
  by simp_all

lemma bit_add_flag: "bit (add_flag flags msk tp ret) n \<longleftrightarrow> bit ret n \<or> (flags AND msk \<noteq> 0 \<and> bit tp n)"
  by (simp add: add_flag_def)

lemma bit_event_types:
  "bit NONE n \<longleftrightarrow> False" "bit EXCEPTION n \<longleftrightarrow> n = 0" "bit READ_READY n \<longleftrightarrow> n = 1"
  "bit WRITE_READY n \<longleftrightarrow> n = 2" "bit PEER_CLOSED n \<longleftrightarrow> n = 3" "bit ERROR_EV n \<longleftrightarrow> n = 4"
  "bit HANGUP n \<longleftrightarrow> n = 5"
  unfolding event_type_defs bit_push_bit_iff by (auto simp: bit_1_iff)

theorem event_type_bits:
  "bit (event_type_from_flags flags) n \<longleftrightarrow>
     (n = 0 \<and> bit flags 1) \<or> (n = 1 \<and> bit flags 0) \<or> (n = 2 \<and> bit flags 2)
     \<or> (n = 3 \<and> bit flags 13) \<or> (n = 4 \<and> bit flags 3) \<or> (n = 5 \<and> bit flags 4)"
  unfolding event_type_from_flags_def bit_add_flag flag_bits bit_event_types by auto

text \<open>
  What the observer can be told of a socket, given the operations it was added with: every
  subscription brings the four terminal kinds (with the flags of \<^verbatim>\<open>flags_from_op\<close> raised), and
  the readiness kinds asked for.
\<close>

theorem subscription_kinds:
  "event_type_from_flags (flags_from_op op_READ) =
     enum_or READ_READY (enum_or EXCEPTION (enum_or HANGUP (enum_or ERROR_EV PEER_CLOSED)))
   \<and> event_type_from_flags (flags_from_op op_WRITE) =
     enum_or WRITE_READY (enum_or EXCEPTION (enum_or HANGUP (enum_or ERROR_EV PEER_CLOSED)))
   \<and> event_type_from_flags (flags_from_op op_READ_WRITE) =
     enum_or READ_READY (enum_or WRITE_READY
       (enum_or EXCEPTION (enum_or HANGUP (enum_or ERROR_EV PEER_CLOSED))))
   \<and> (\<forall>op. bit (flags_from_op op) 31)"
proof -
  have "bit (flags_from_op op) 31" for op
    by (simp add: flags_from_op_def Let_def bit_or_iff)
  then show ?thesis
    by (simp add: flags_from_op_def event_type_from_flags_def add_flag_def enum_or_def event_type_defs
        op_READ_def op_WRITE_def op_READ_WRITE_def Let_def)
qed

subsection \<open>Effects\<close>

lemma via_epoll_ctl [frame_simps]: "epoll_ctl K ep fd ctl op w = (ok, w1) \<Longrightarrow> via K quiet w w1"
  by (auto simp: epoll_ctl_def Let_def split: prod.splits intro: via_call)

lemma via_sockets [frame_simps]:
  "add_socket K ep fd op w = (ok, w1) \<Longrightarrow> via K quiet w w1"
  "mod_socket K ep fd op w = (ok, w1) \<Longrightarrow> via K quiet w w1"
  "del_socket K ep fd w = (ok, w1) \<Longrightarrow> via K quiet w w1"
  unfolding add_socket_def mod_socket_def del_socket_def by (rule via_epoll_ctl, assumption)+

lemma via_epoll_proceed [frame_simps]: "epoll_proceed K ep t w = (evs, w1) \<Longrightarrow> via K quiet w w1"
proof -
  define w0 where "w0 = w\<lparr>w_tl_events :=
    Some (case w_tl_events w of Some n \<Rightarrow> n | None \<Rightarrow> unat (ep_max_events ep))\<rparr>"
  obtain r w2 where d: "do_sys K (SysEpollWait (ep_fd ep) (c_int (uint (ep_max_events ep))) (c_int t)) w0 = (r, w2)"
    by fastforce
  assume "epoll_proceed K ep t w = (evs, w1)"
  then have "w1 = w2 \<or> (\<exists>u. w1 = mark_ub u w2)"
    using d by (auto simp: epoll_proceed_def w0_def Let_def split: if_splits)
  moreover have "via K quiet w w2"
    by (rule via_sys [OF via_tl [OF via_refl] _ d [unfolded w0_def]]) simp
  ultimately show ?thesis by (auto intro: via_ub)
qed

text \<open>What the operations on a created epoll add to the history.\<close>

fun is_epoll :: "event \<Rightarrow> bool" where
  "is_epoll (Sys (SysEpollCtl ep op fd ev) r e) = True"
| "is_epoll (Sys (SysEpollWait ep m t) r e) = True"
| "is_epoll (Ub (WritePastEnd n)) = True"
| "is_epoll _ = False"

lemma epoll_adds:
  "adds is_epoll w (snd (epoll_ctl K ep fd ctl op w))"
  "adds is_epoll w (snd (add_socket K ep fd opr w))"
  "adds is_epoll w (snd (mod_socket K ep fd opr w))"
  "adds is_epoll w (snd (del_socket K ep fd w))"
proof -
  show *: "adds is_epoll w (snd (epoll_ctl K ep fd ctl op w))" for ctl op
    by (auto simp: epoll_ctl_def Let_def split: prod.splits intro: adds_do_sys)
  show "adds is_epoll w (snd (add_socket K ep fd opr w))"
    "adds is_epoll w (snd (mod_socket K ep fd opr w))"
    "adds is_epoll w (snd (del_socket K ep fd w))"
    by (simp_all add: add_socket_def mod_socket_def del_socket_def *)
qed

lemma epoll_proceed_adds: "adds is_epoll w (snd (epoll_proceed K ep t w))"
proof -
  define size where "size = (case w_tl_events w of Some n \<Rightarrow> n | None \<Rightarrow> unat (ep_max_events ep))"
  obtain r w1 where d: "do_sys K (SysEpollWait (ep_fd ep) (c_int (uint (ep_max_events ep))) (c_int t))
      (w\<lparr>w_tl_events := Some size\<rparr>) = (r, w1)" by fastforce
  have "adds is_epoll w w1" using adds_do_sys [OF d, of is_epoll] by simp
  moreover from this have "adds is_epoll w (mark_ub (WritePastEnd n) w1)" for n
    by (rule adds_trans) (simp add: adds_mark_ub)
  ultimately show ?thesis
    using d by (simp add: epoll_proceed_def size_def [symmetric] Let_def)
qed

lemma epoll_create_opt_trace:
  "epoll_create_opt K q m w = (res, w1) \<Longrightarrow>
     \<exists>r. do_sys K (SysEpollCreate q) w = (r, w1)
       \<and> res = (if rp_ret r \<noteq> -1 then Some \<lparr>ep_fd = rp_ret r, ep_max_events = m\<rparr> else None)"
  by (auto simp: epoll_create_opt_def split: prod.splits)

lemma via_epoll_dtor: "via K (\<lambda>c. \<exists>fd. c = SysClose fd) w (epoll_dtor K ep w)"
  by (cases "do_sys K (SysClose (ep_fd ep)) w")
    (auto simp: epoll_dtor_def intro: via_refl via_call)

lemma open_fds_epoll_dtor [ledger_simps]:
  "open_fds (w_trace (epoll_dtor K ep w)) =
     (if ep_fd ep \<noteq> -1 then open_fds (w_trace w) - {ep_fd ep} else open_fds (w_trace w))"
  by (cases "do_sys K (SysClose (ep_fd ep)) w") (simp add: epoll_dtor_def ledger_simps)

theorem epoll_owns_its_descriptor:
  assumes "posix_fds K live" and "ledger_ok live w"
    and "epoll_create_opt K q m w = (Some ep, w1)" and "via K quiet w1 w2"
  shows "ep_fd ep \<notin> open_fds (w_trace w)
       \<and> open_fds (w_trace w2) = insert (ep_fd ep) (open_fds (w_trace w))
       \<and> open_fds (w_trace (epoll_dtor K ep w2)) = open_fds (w_trace w)
       \<and> epoll_dtor K (snd (epoll_exchange ep' ep)) w2 = w2"
proof -
  obtain r where d: "do_sys K (SysEpollCreate q) w = (r, w1)" and r: "rp_ret r \<noteq> -1" "ep_fd ep = rp_ret r"
    using epoll_create_opt_trace [OF assms(3)] by (auto split: if_splits)
  have fresh: "0 \<le> rp_ret r \<and> rp_ret r \<notin> open_fds (w_trace w)"
    using do_sys_fresh [OF assms(1,2) d] r by simp
  have "open_fds (w_trace w2) = insert (ep_fd ep) (open_fds (w_trace w))"
    using open_fds_do_sys [OF d] r via_quiet [OF assms(4)] by simp
  with fresh r show ?thesis
    by (simp add: open_fds_epoll_dtor) (simp add: epoll_dtor_def epoll_exchange_def)
qed

theorem epoll_owns_its_descriptor_witness:
  "open_fds (w_trace (epoll_dtor counting_os \<lparr>ep_fd = 3, ep_max_events = 10\<rparr>
     (snd (epoll_create_opt counting_os 5 10 (init_world []))))) = {}"
  using epoll_owns_its_descriptor [of counting_os set "init_world []" 5 10
      "\<lparr>ep_fd = 3, ep_max_events = 10\<rparr>" _ _ undefined, OF counting_os_posix _ _ via_refl]
  by (simp add: ledger_ok_def epoll_create_opt_def do_sys_def counting_os_def Let_def answer_def)

text \<open>
  The example programs build the epoll as a temporary and move it into the endpoint: the endpoint
  gets all of it, and the temporary's destructor makes no call.
\<close>

lemma epoll_move_temporary:
  "epoll_move this ep = (this', rest) \<Longrightarrow> this' = ep \<and> epoll_dtor K rest w = w"
  by (auto simp: epoll_move_def epoll_exchange_def epoll_dtor_def)

theorem epoll_move_assign_leaks:
  assumes "ep_fd this \<noteq> -1" and "ep_fd this \<in> open_fds (w_trace w)" and "ep_fd other \<noteq> ep_fd this"
    and "epoll_move_assign this other = (this', other')"
  shows "ep_fd this \<in> open_fds (w_trace (epoll_dtor K other' (epoll_dtor K this' w)))"
  using assms by (auto simp: epoll_move_assign_def epoll_exchange_def open_fds_epoll_dtor)

theorem epoll_move_assign_leaks_witness:
  "3 \<in> open_fds (w_trace (epoll_dtor counting_os \<lparr>ep_fd = -1, ep_max_events = 0\<rparr>
     (epoll_dtor counting_os \<lparr>ep_fd = 4, ep_max_events = 7\<rparr>
       (init_world [4, 3] \<lparr>w_trace := [Sys (SysEpollCreate 5) 4 0, Sys (SysEpollCreate 5) 3 0]\<rparr>))))"
  using epoll_move_assign_leaks [of "\<lparr>ep_fd = 3, ep_max_events = 9\<rparr>"
      "init_world [4, 3] \<lparr>w_trace := [Sys (SysEpollCreate 5) 4 0, Sys (SysEpollCreate 5) 3 0]\<rparr>"
      "\<lparr>ep_fd = 4, ep_max_events = 7\<rparr>" "\<lparr>ep_fd = 4, ep_max_events = 7\<rparr>"
      "\<lparr>ep_fd = -1, ep_max_events = 0\<rparr>" counting_os]
  by (simp add: epoll_move_assign_def epoll_exchange_def)

subsection \<open>Waiting for events\<close>

text \<open>
  What \<^verbatim>\<open>epoll_wait\<close> promises: at most as many events as asked for, and as many as it says.
\<close>

definition epoll_wait_ok :: "'k os \<Rightarrow> bool" where
  "epoll_wait_ok K \<longleftrightarrow>
     (\<forall>k ep m t r k'. K k (SysEpollWait ep m t) = (r, k') \<and> 0 < rp_ret r \<longrightarrow>
        rp_ret r \<le> m \<and> length (rp_events r) = nat (rp_ret r))"

definition decode_event :: "uint32 \<times> int \<Rightarrow> poll_event" where
  "decode_event e = \<lparr>ev_fd = snd e, ev_type = event_type_from_flags (fst e)\<rparr>"

lemma c_int_le_unat: "c_int (uint (x :: uint32)) \<le> int (unat x)"
proof -
  have "sint x \<le> uint x"
    unfolding sint_uint by (rule iffD2 [OF signed_take_bit_int_less_eq_self_iff]) (simp add: order_trans [of _ 0])
  then show ?thesis by (simp add: c_int_def)
qed

text \<open>
  C23: When the thread's event buffer is not smaller than the object's limit and epoll_wait
  fills in as many events as it says and no more than it was asked for, proceed makes one
  epoll_wait with the object's limit and timeout, and returns the events of the very reply the
  system gave to that call, one for one and in order, with their descriptors and translated
  kinds, and never more than the limit; without a positive result it returns none.
\<close>

theorem epoll_proceed_faithful:
  assumes "epoll_wait_ok K"
    and "w_tl_events w = None \<or> (\<exists>n. w_tl_events w = Some n \<and> unat (ep_max_events ep) \<le> n)"
    and "epoll_proceed K ep timeout w = (evs, w')"
  shows "\<exists>r. K (w_kern w) (SysEpollWait (ep_fd ep) (c_int (uint (ep_max_events ep))) (c_int timeout)) = (r, w_kern w')
         \<and> w_trace w' =
             Sys (SysEpollWait (ep_fd ep) (c_int (uint (ep_max_events ep))) (c_int timeout)) (rp_ret r) (w_errno w')
             # w_trace w
         \<and> evs = (if 0 < rp_ret r then map decode_event (rp_events r) else [])
         \<and> length evs = nat (max 0 (rp_ret r))
         \<and> length evs \<le> unat (ep_max_events ep)"
proof -
  define n where "n = (case w_tl_events w of Some n \<Rightarrow> n | None \<Rightarrow> unat (ep_max_events ep))"
  define c where "c = SysEpollWait (ep_fd ep) (c_int (uint (ep_max_events ep))) (c_int timeout)"
  obtain r w1 where d: "do_sys K c (w\<lparr>w_tl_events := Some n\<rparr>) = (r, w1)"
    by fastforce
  note tr = do_sys_trace [OF d]
  have n: "unat (ep_max_events ep) \<le> n"
    using assms(2) by (auto simp: n_def)
  have bounded: "rp_ret r \<le> int (unat (ep_max_events ep)) \<and> length (rp_events r) = nat (rp_ret r)"
    if "0 < rp_ret r"
  proof -
    from tr assms(1) that have "rp_ret r \<le> c_int (uint (ep_max_events ep))"
      and len: "length (rp_events r) = nat (rp_ret r)"
      unfolding epoll_wait_ok_def c_def by blast+
    with c_int_le_unat [of "ep_max_events ep"] show ?thesis by linarith
  qed
  have "\<not> n < nat (rp_ret r)" using bounded n by linarith
  then have "evs = (if 0 < rp_ret r then map decode_event (rp_events r) else []) \<and> w' = w1"
    using assms(3) d bounded
    by (auto simp: epoll_proceed_def n_def [symmetric] c_def Let_def decode_event_def split_def split: if_splits)
  moreover have "K (w_kern w) c = (r, w_kern w1)" "w_trace w1 = Sys c (rp_ret r) (w_errno w1) # w_trace w"
    using tr by simp_all
  ultimately show ?thesis
    using bounded \<open>\<not> n < nat (rp_ret r)\<close> unfolding c_def
    by (intro exI [of _ r]) (auto simp: max_def nat_le_iff)
qed

text \<open>
  The witness: two events of a fresh thread, one of them an error with a hangup.
\<close>

definition two_events_os :: "nat os" where
  "two_events_os k c =
     (case c of
        SysEpollWait ep m t \<Rightarrow>
          (if 2 \<le> m then (answer 2)\<lparr>rp_events := [(1, 7), (24, 8)]\<rparr> else failure 22, k + 1)
      | _ \<Rightarrow> (answer 0, k + 1))"

theorem epoll_proceed_faithful_witness:
  "\<exists>w'. epoll_proceed two_events_os \<lparr>ep_fd = 3, ep_max_events = 10\<rparr> 50 (init_world 0) =
       ([\<lparr>ev_fd = 7, ev_type = READ_READY\<rparr>, \<lparr>ev_fd = 8, ev_type = enum_or HANGUP ERROR_EV\<rparr>], w')
     \<and> w_kern w' = 1 \<and> length (w_trace w') = 1"
proof -
  have ok: "epoll_wait_ok two_events_os"
    by (auto simp: epoll_wait_ok_def two_events_os_def split: if_splits)
  obtain evs w' where e: "epoll_proceed two_events_os \<lparr>ep_fd = 3, ep_max_events = 10\<rparr> 50 (init_world 0) = (evs, w')"
    by fastforce
  obtain r where "two_events_os 0 (SysEpollWait 3 10 50) = (r, w_kern w')" "length (w_trace w') = 1"
    "evs = (if 0 < rp_ret r then map decode_event (rp_events r) else [])"
    using epoll_proceed_faithful [OF ok disjI1 e] by (auto simp: c_int_def)
  then have "w_kern w' = 1 \<and> length (w_trace w') = 1" "evs = map decode_event [(1, 7), (24, 8)]"
    by (auto simp: two_events_os_def answer_def)
  moreover from this have "evs = [\<lparr>ev_fd = 7, ev_type = READ_READY\<rparr>, \<lparr>ev_fd = 8, ev_type = enum_or HANGUP ERROR_EV\<rparr>]"
    by (simp add: decode_event_def event_type_from_flags_def add_flag_def enum_or_def event_type_defs)
  ultimately show ?thesis using e by auto
qed

theorem epoll_proceed_overflows:
  assumes "epoll_wait_ok K" and "w_tl_events w = Some n"
    and "epoll_proceed K ep timeout w = (evs, w')" and "n < length evs"
  shows "\<exists>ev. w_trace w' = Ub (WritePastEnd (12 * (length evs - n))) # ev # w_trace w"
proof -
  define c where "c = SysEpollWait (ep_fd ep) (c_int (uint (ep_max_events ep))) (c_int timeout)"
  obtain r w1 where d: "do_sys K c (w\<lparr>w_tl_events := Some n\<rparr>) = (r, w1)"
    by fastforce
  note tr = do_sys_trace [OF d]
  have len: "length (rp_events r) = nat (rp_ret r)" if "0 < rp_ret r"
    using tr assms(1) that unfolding epoll_wait_ok_def c_def by blast
  have "0 < rp_ret r" using assms(2-4) d by (cases "0 < rp_ret r") (auto simp: epoll_proceed_def c_def Let_def)
  moreover from this have "length evs = nat (rp_ret r)"
    using assms(2,3) d len by (auto simp: epoll_proceed_def c_def Let_def)
  ultimately show ?thesis
    using assms(2-4) d tr by (auto simp: epoll_proceed_def c_def Let_def)
qed

theorem epoll_proceed_overflows_witness:
  "\<exists>ev. w_trace (snd (epoll_proceed two_events_os \<lparr>ep_fd = 4, ep_max_events = 10\<rparr> 50
      (snd (epoll_proceed two_events_os \<lparr>ep_fd = 3, ep_max_events = 1\<rparr> 50 (init_world 0)))))
     = [Ub (WritePastEnd 12), ev, Sys (SysEpollWait 3 1 50) (-1) 22]"
proof -
  have ok: "epoll_wait_ok two_events_os"
    by (auto simp: epoll_wait_ok_def two_events_os_def split: if_splits)
  define w where "w = snd (epoll_proceed two_events_os \<lparr>ep_fd = 3, ep_max_events = 1\<rparr> 50 (init_world 0))"
  have w: "w_tl_events w = Some 1" "w_trace w = [Sys (SysEpollWait 3 1 50) (-1) 22]"
    by (simp_all add: w_def epoll_proceed_def two_events_os_def do_sys_def c_int_def Let_def failure_def)
  obtain evs w' where e: "epoll_proceed two_events_os \<lparr>ep_fd = 4, ep_max_events = 10\<rparr> 50 w = (evs, w')"
    by fastforce
  have len: "length evs = 2"
    using e by (auto simp: epoll_proceed_def two_events_os_def do_sys_def c_int_def Let_def answer_def
        split: if_splits)
  with epoll_proceed_overflows [OF ok w(1) e] w(2) e show ?thesis
    by (simp add: w_def [symmetric])
qed

end
