(* ===== verification/Poll_Traits.thy ===== *)
theory Poll_Traits
  imports Epoll
begin

section \<open>The poll adapter\<close>

text \<open>
  Models \<^verbatim>\<open>include/endpoint/poll_traits.h\<close>: the static adapter through which the endpoints use
  a poll. The primary template forwards to the members of the poll; the specialisations for
  \<^verbatim>\<open>unique_ptr\<close>, \<^verbatim>\<open>shared_ptr\<close> and pointers dereference first. A poll object is passed
  by reference but the calls do not change it: what they change is in the system.
\<close>

record ('p, 'w) poll_traits =
  pt_proceed :: "'p \<Rightarrow> int \<Rightarrow> 'w \<Rightarrow> poll_event list \<times> 'w"
  pt_add :: "'p \<Rightarrow> int \<Rightarrow> uint32 \<Rightarrow> 'w \<Rightarrow> bool \<times> 'w"
  pt_mod :: "'p \<Rightarrow> int \<Rightarrow> uint32 \<Rightarrow> 'w \<Rightarrow> bool \<times> 'w"
  pt_del :: "'p \<Rightarrow> int \<Rightarrow> 'w \<Rightarrow> bool \<times> 'w"

definition epoll_traits :: "'k os \<Rightarrow> (epoll_t, 'k world) poll_traits" where
  "epoll_traits K =
     \<lparr>pt_proceed = epoll_proceed K, pt_add = add_socket K, pt_mod = mod_socket K, pt_del = del_socket K\<rparr>"

text \<open>\<open>deref\<close> is the dereference of the handle: the pointer's target.\<close>

definition ptr_traits :: "('q \<Rightarrow> 'p) \<Rightarrow> ('p, 'w) poll_traits \<Rightarrow> ('q, 'w) poll_traits" where
  "ptr_traits deref PT =
     \<lparr>pt_proceed = (\<lambda>q. pt_proceed PT (deref q)), pt_add = (\<lambda>q. pt_add PT (deref q)),
      pt_mod = (\<lambda>q. pt_mod PT (deref q)), pt_del = (\<lambda>q. pt_del PT (deref q))\<rparr>"

lemma epoll_traits_simps [simp]:
  "pt_proceed (epoll_traits K) = epoll_proceed K" "pt_add (epoll_traits K) = add_socket K"
  "pt_mod (epoll_traits K) = mod_socket K" "pt_del (epoll_traits K) = del_socket K"
  by (simp_all add: epoll_traits_def)

lemma ptr_traits_simps [simp]:
  "pt_proceed (ptr_traits d PT) q = pt_proceed PT (d q)" "pt_add (ptr_traits d PT) q = pt_add PT (d q)"
  "pt_mod (ptr_traits d PT) q = pt_mod PT (d q)" "pt_del (ptr_traits d PT) q = pt_del PT (d q)"
  by (simp_all add: ptr_traits_def)

text \<open>
  What the endpoints rely on: the adapter neither opens nor closes descriptors. The laws hold for
  the epoll of the repository, and pass through the pointer adapters.
\<close>

locale poll_contract =
  fixes K :: "'k os" and PT :: "('p, 'k world) poll_traits"
  assumes proceed_quiet: "pt_proceed PT p t w = (evs, w1) \<Longrightarrow> via K quiet w w1"
    and add_quiet: "pt_add PT p fd op w = (ok, w1) \<Longrightarrow> via K quiet w w1"
    and mod_quiet: "pt_mod PT p fd op w = (ok, w1) \<Longrightarrow> via K quiet w w1"
    and del_quiet: "pt_del PT p fd w = (ok, w1) \<Longrightarrow> via K quiet w w1"
begin

lemma ledger:
  "pt_proceed PT p t w = (evs, w1) \<Longrightarrow> open_fds (w_trace w1) = open_fds (w_trace w)"
  "pt_add PT p fd op w = (ok, w1) \<Longrightarrow> open_fds (w_trace w1) = open_fds (w_trace w)"
  "pt_mod PT p fd op w = (ok, w1) \<Longrightarrow> open_fds (w_trace w1) = open_fds (w_trace w)"
  "pt_del PT p fd w = (ok, w1) \<Longrightarrow> open_fds (w_trace w1) = open_fds (w_trace w)"
  by (blast dest: proceed_quiet add_quiet mod_quiet del_quiet via_quiet)+

lemma behind_pointer: "poll_contract K (ptr_traits deref PT)"
  by unfold_locales (simp_all add: proceed_quiet add_quiet mod_quiet del_quiet)

end

interpretation ep: poll_contract K "epoll_traits K" for K
  by unfold_locales (simp_all add: via_sockets via_epoll_proceed)

interpretation ep_ptr: poll_contract K "ptr_traits deref (epoll_traits K)" for K deref
  by (rule ep.behind_pointer)

end
