(* ===== verification/Event_Observer.thy ===== *)
theory Event_Observer
  imports Poll_Traits
begin

section \<open>The event observer\<close>

text \<open>
  Models \<^verbatim>\<open>include/endpoint/event_observer.h\<close>, \<^verbatim>\<open>src/endpoint/event_observer.tpp\<close> and
  \<^verbatim>\<open>proceed_exception\<close>. The registered handlers are closures of the endpoint: the model keeps
  their names (\<open>'h\<close>) in the map and takes the meaning of a name, \<open>call\<close>, as an
  argument that acts on the endpoint and the world (\<open>'s\<close>) and may end in an exception. A
  handler that registered or removed handlers would wait for the lock that \<^verbatim>\<open>proceed\<close> holds, so
  the map is constant during a run.
\<close>

record 'h observer =
  ob_handlers :: "uint32 \<rightharpoonup> 'h"
  ob_unhandled :: "nat option"  \<comment> \<open>the callback for unhandled events, if one was given\<close>

definition observer_ctor :: "nat option \<Rightarrow> 'h observer" where
  "observer_ctor on_unhandled = \<lparr>ob_handlers = Map.empty, ob_unhandled = on_unhandled\<rparr>"

text \<open>\<^verbatim>\<open>emplace\<close> keeps the handler that is there.\<close>

definition observer_add :: "uint32 \<Rightarrow> 'h \<Rightarrow> 'h observer \<Rightarrow> bool \<times> 'h observer" where
  "observer_add event func obs =
     (case ob_handlers obs event of
        Some _ \<Rightarrow> (False, obs)
      | None \<Rightarrow> (True, obs\<lparr>ob_handlers := (ob_handlers obs)(event \<mapsto> func)\<rparr>))"

definition observer_remove :: "uint32 \<Rightarrow> 'h observer \<Rightarrow> bool \<times> 'h observer" where
  "observer_remove event obs =
     (ob_handlers obs event \<noteq> None, obs\<lparr>ob_handlers := (ob_handlers obs)(event := None)\<rparr>)"

type_synonym ('h, 's) handler_sem = "'h \<Rightarrow> int \<Rightarrow> 's \<Rightarrow> exn option \<times> 's"
type_synonym 's unhandled_sem = "nat \<Rightarrow> poll_event list \<Rightarrow> 's \<Rightarrow> exn option \<times> 's"

subsection \<open>One event\<close>

definition handle_event_tp ::
  "('h, 's) handler_sem \<Rightarrow> 'h observer \<Rightarrow> poll_event \<Rightarrow> uint32 \<Rightarrow> 's \<Rightarrow> (exn + bool) \<times> 's" where
  "handle_event_tp call obs event tp s =
     (case ob_handlers obs (enum_and (ev_type event) tp) of
        None \<Rightarrow> (Inr False, s)
      | Some h \<Rightarrow>
          (case call h (ev_fd event) s of
             (Some e, s1) \<Rightarrow> (Inl e, s1)
           | (None, s1) \<Rightarrow> (Inr True, s1)))"

text \<open>The body of the \<^verbatim>\<open>try\<close> block, one \<^verbatim>\<open>ret.first |= ...\<close> after another.\<close>

fun handle_types ::
  "('h, 's) handler_sem \<Rightarrow> 'h observer \<Rightarrow> poll_event \<Rightarrow> uint32 list \<Rightarrow> bool \<Rightarrow> 's
   \<Rightarrow> bool \<times> exn option \<times> 's" where
  "handle_types call obs event [] first s = (first, None, s)"
| "handle_types call obs event (tp # tps) first s =
     (case handle_event_tp call obs event tp s of
        (Inl e, s1) \<Rightarrow> (first, Some e, s1)
      | (Inr b, s1) \<Rightarrow> handle_types call obs event tps (first \<or> b) s1)"

definition event_order :: "uint32 list" where
  "event_order = [READ_READY, WRITE_READY, EXCEPTION, HANGUP, ERROR_EV, PEER_CLOSED]"

definition handle_event ::
  "('h, 's) handler_sem \<Rightarrow> 'h observer \<Rightarrow> poll_event \<Rightarrow> 's \<Rightarrow> bool \<times> exn option \<times> 's" where
  "handle_event call obs event s = handle_types call obs event event_order False s"

subsection \<open>All events\<close>

definition add_exception :: "exn option \<Rightarrow> exn list \<Rightarrow> exn list" where
  "add_exception ptr vec = (case ptr of Some e \<Rightarrow> vec @ [e] | None \<Rightarrow> vec)"

text \<open>The loop of \<^verbatim>\<open>proceed\<close>; its locals are the unhandled events and the exceptions so far.\<close>

fun proceed_loop ::
  "('h, 's) handler_sem \<Rightarrow> 'h observer \<Rightarrow> poll_event list \<Rightarrow> poll_event list \<Rightarrow> exn list \<Rightarrow> 's
   \<Rightarrow> poll_event list \<times> exn list \<times> 's" where
  "proceed_loop call obs [] unhandled exceptions s = (unhandled, exceptions, s)"
| "proceed_loop call obs (event # events) unhandled exceptions s =
     (case handle_event call obs event s of
        (first, second, s1) \<Rightarrow>
          proceed_loop call obs events
            (if first then unhandled else unhandled @ [event]) (add_exception second exceptions) s1)"

definition handle_unhandled ::
  "'s unhandled_sem \<Rightarrow> 'h observer \<Rightarrow> poll_event list \<Rightarrow> 's \<Rightarrow> exn option \<times> 's" where
  "handle_unhandled cu obs events s =
     (case ob_unhandled obs of Some cb \<Rightarrow> cu cb events s | None \<Rightarrow> (None, s))"

text \<open>\<open>Inl\<close> carries the exceptions of the \<^verbatim>\<open>proceed_exception\<close> that is thrown.\<close>

definition observer_proceed ::
  "(int \<Rightarrow> 's \<Rightarrow> poll_event list \<times> 's) \<Rightarrow> ('h, 's) handler_sem \<Rightarrow> 's unhandled_sem \<Rightarrow> 'h observer
   \<Rightarrow> int \<Rightarrow> 's \<Rightarrow> (exn list + bool) \<times> 's" where
  "observer_proceed poll call cu obs timeout s =
     (case poll timeout s of
        (events, s1) \<Rightarrow>
          (case proceed_loop call obs events [] [] s1 of
             (unhandled, exceptions, s2) \<Rightarrow>
               (case handle_unhandled cu obs unhandled s2 of
                  (ex, s3) \<Rightarrow>
                    (let exceptions' = add_exception ex exceptions
                     in (if exceptions' \<noteq> [] then Inl exceptions' else Inr (events \<noteq> []), s3)))))"

subsection \<open>The registry\<close>

lemma observer_add_lookup:
  "observer_add ev h obs = (ok, obs') \<Longrightarrow>
     ob_handlers obs' = (if ob_handlers obs ev = None then (ob_handlers obs)(ev \<mapsto> h) else ob_handlers obs)
     \<and> ok = (ob_handlers obs ev = None) \<and> ob_unhandled obs' = ob_unhandled obs"
  by (auto simp: observer_add_def split: option.splits)

lemma observer_remove_lookup:
  "observer_remove ev obs = (ok, obs') \<Longrightarrow>
     ob_handlers obs' = (ob_handlers obs)(ev := None) \<and> ok = (ob_handlers obs ev \<noteq> None)
     \<and> ob_unhandled obs' = ob_unhandled obs"
  by (auto simp: observer_remove_def)

subsection \<open>What an event calls\<close>

text \<open>
  The specification: an event calls the handlers of its kinds in the fixed order, up to the first
  one that throws. \<open>run_calls\<close> counts the calls that returned.
\<close>

definition calls_of :: "'h observer \<Rightarrow> poll_event \<Rightarrow> 'h list" where
  "calls_of obs event =
     map (\<lambda>tp. the (ob_handlers obs tp))
       (filter (\<lambda>tp. ev_type event AND tp \<noteq> 0 \<and> ob_handlers obs tp \<noteq> None) event_order)"

fun run_calls :: "('h, 's) handler_sem \<Rightarrow> int \<Rightarrow> 'h list \<Rightarrow> 's \<Rightarrow> nat \<times> exn option \<times> 's" where
  "run_calls call fd [] s = (0, None, s)"
| "run_calls call fd (h # hs) s =
     (case call h fd s of
        (Some e, s1) \<Rightarrow> (0, Some e, s1)
      | (None, s1) \<Rightarrow> (case run_calls call fd hs s1 of (n, ex, s2) \<Rightarrow> (Suc n, ex, s2)))"

lemma single_bit_and:
  assumes "tp \<in> set event_order"
  shows "enum_and ty tp = (if ty AND tp \<noteq> 0 then tp else NONE)"
proof -
  obtain m where tp: "tp = push_bit m 1" and "m < 32"
    using assms by (auto simp: event_order_def event_type_defs 
        intro: that [of 0] that [of 1] that [of 2] that [of 3] that [of 4] that [of 5])
  have "ty AND push_bit m 1 = (if bit ty m then push_bit m 1 else 0)"
    by (rule bit_eqI) (auto simp: bit_simps)
  then show ?thesis by (simp add: tp enum_and_def NONE_def)
qed

lemma handle_types_run:
  assumes "ob_handlers obs NONE = None" and "set tps \<subseteq> set event_order"
  shows "handle_types call obs ev tps first s =
    (case run_calls call (ev_fd ev)
            (map (\<lambda>tp. the (ob_handlers obs tp))
              (filter (\<lambda>tp. ev_type ev AND tp \<noteq> 0 \<and> ob_handlers obs tp \<noteq> None) tps)) s of
       (n, ex, s') \<Rightarrow> (first \<or> 0 < n, ex, s'))"
  using assms(2)
proof (induction tps arbitrary: first s)
  case (Cons tp tps)
  then have tp: "tp \<in> set event_order" and IH: "\<And>first s. handle_types call obs ev tps first s =
    (case run_calls call (ev_fd ev)
            (map (\<lambda>tp. the (ob_handlers obs tp))
              (filter (\<lambda>tp. ev_type ev AND tp \<noteq> 0 \<and> ob_handlers obs tp \<noteq> None) tps)) s of
       (n, ex, s') \<Rightarrow> (first \<or> 0 < n, ex, s'))"
    by auto
  show ?case
    using assms(1) by (auto simp: handle_event_tp_def single_bit_and [OF tp] IH split: prod.splits option.splits)
qed simp

text \<open>
  A handler registered for \<^verbatim>\<open>NONE\<close> is found once for every kind the event does not have.
\<close>

lemma handle_types_none:
  assumes "ob_handlers obs = [NONE \<mapsto> h]" and "set tps \<subseteq> set event_order"
  shows "handle_types call obs ev tps first s =
    (case run_calls call (ev_fd ev) (replicate (length (filter (\<lambda>tp. ev_type ev AND tp = 0) tps)) h) s of
       (n, ex, s') \<Rightarrow> (first \<or> 0 < n, ex, s'))"
  using assms(2)
proof (induction tps arbitrary: first s)
  case (Cons tp tps)
  then have tp: "tp \<in> set event_order" and IH: "\<And>first s. handle_types call obs ev tps first s =
    (case run_calls call (ev_fd ev) (replicate (length (filter (\<lambda>tp. ev_type ev AND tp = 0) tps)) h) s of
       (n, ex, s') \<Rightarrow> (first \<or> 0 < n, ex, s'))"
    by auto
  have "tp \<noteq> NONE" using tp by (auto simp: event_order_def event_type_defs)
  then show ?case
    using assms(1) by (auto simp: handle_event_tp_def single_bit_and [OF tp] IH split: prod.splits option.splits)
qed simp

theorem none_handler_fires_for_absent_kinds:
  assumes "ob_handlers obs = [NONE \<mapsto> h]"
  shows "handle_event call obs ev s =
    (case run_calls call (ev_fd ev)
            (replicate (length (filter (\<lambda>tp. ev_type ev AND tp = 0) event_order)) h) s of
       (n, ex, s') \<Rightarrow> (0 < n, ex, s'))"
  using handle_types_none [OF assms subset_refl, of call ev False s] by (simp add: handle_event_def)

definition log_call :: "(nat, (nat \<times> int) list) handler_sem" where
  "log_call h fd s = (if h = 0 then Some (UserException 0) else None, s @ [(h, fd)])"

theorem none_handler_fires_for_absent_kinds_witness:
  "handle_event log_call \<lparr>ob_handlers = [NONE \<mapsto> 1], ob_unhandled = None\<rparr>
     \<lparr>ev_fd = 7, ev_type = READ_READY\<rparr> [] = (True, None, [(1, 7), (1, 7), (1, 7), (1, 7), (1, 7)])"
  using none_handler_fires_for_absent_kinds [of "\<lparr>ob_handlers = [NONE \<mapsto> 1], ob_unhandled = None\<rparr>" 1
      log_call "\<lparr>ev_fd = 7, ev_type = READ_READY\<rparr>" "[]"]
  by (simp add: event_order_def event_type_defs log_call_def numeral_eq_Suc)

text \<open>
  The specification does not mention the implementation's list of kinds. An event is looked at bit
  by bit: data to read (bit 1), room to write (2), the exceptional condition (0), hangup (5), error
  (4) and, last, the peer's close (3). A bit that is set calls the handler registered for that bit
  alone, one that is not set the handler registered for \<^verbatim>\<open>NONE\<close>, which \<^verbatim>\<open>add\<close> accepts.
\<close>

definition bits_in_order :: "nat list" where
  "bits_in_order = [1, 2, 0, 5, 4, 3]"

definition called_for :: "'h observer \<Rightarrow> poll_event \<Rightarrow> 'h list" where
  "called_for obs event =
     concat (map (\<lambda>n. case ob_handlers obs (if bit (ev_type event) n then 2 ^ n else 0) of Some h \<Rightarrow> [h] | None \<Rightarrow> [])
       bits_in_order)"

lemma single_bit: "enum_and ty (2 ^ n) = (if bit ty n then 2 ^ n else 0)"
  by (rule bit_eqI) (auto simp: bit_exp_iff)

lemma handle_types_bits:
  "handle_types call obs ev (map (\<lambda>n. 2 ^ n) ns) first s =
    (case run_calls call (ev_fd ev)
            (concat (map (\<lambda>n. case ob_handlers obs (if bit (ev_type ev) n then 2 ^ n else 0) of Some h \<Rightarrow> [h] | None \<Rightarrow> []) ns)) s of
       (n, ex, s') \<Rightarrow> (first \<or> 0 < n, ex, s'))"
  by (induction ns arbitrary: first s) (auto simp: handle_event_tp_def single_bit split: prod.splits option.splits)

lemma event_order_bits: "event_order = map (\<lambda>n. 2 ^ n) bits_in_order"
  by (simp add: event_order_def bits_in_order_def event_type_defs push_bit_eq_mult)

lemma handle_event_called:
  "handle_event call obs ev s =
    (case run_calls call (ev_fd ev) (called_for obs ev) s of (n, ex, s') \<Rightarrow> (0 < n, ex, s'))"
  using handle_types_bits [of call obs ev bits_in_order False s]
  by (simp add: handle_event_def called_for_def event_order_bits)

fun run_events ::
  "('h, 's) handler_sem \<Rightarrow> 'h observer \<Rightarrow> poll_event list \<Rightarrow> 's
   \<Rightarrow> (poll_event \<times> nat \<times> exn option) list \<times> 's" where
  "run_events call obs [] s = ([], s)"
| "run_events call obs (ev # evs) s =
     (case run_calls call (ev_fd ev) (called_for obs ev) s of
        (n, ex, s1) \<Rightarrow> (case run_events call obs evs s1 of (outs, s2) \<Rightarrow> ((ev, n, ex) # outs, s2)))"

fun untouched :: "(poll_event \<times> nat \<times> exn option) list \<Rightarrow> poll_event list" where
  "untouched [] = []"
| "untouched ((ev, n, ex) # outs) = (if n = 0 then ev # untouched outs else untouched outs)"

fun thrown :: "(poll_event \<times> nat \<times> exn option) list \<Rightarrow> exn list" where
  "thrown [] = []"
| "thrown ((ev, n, ex) # outs) = (case ex of Some e \<Rightarrow> e # thrown outs | None \<Rightarrow> thrown outs)"

lemma run_events_all: "run_events call obs evs s = (outs, s') \<Longrightarrow> map fst outs = evs"
  by (induction evs arbitrary: s outs) (auto split: prod.splits)

lemma handle_event_spec:
  assumes "ob_handlers obs NONE = None"
  shows "handle_event call obs ev s =
    (case run_calls call (ev_fd ev) (calls_of obs ev) s of (n, ex, s') \<Rightarrow> (0 < n, ex, s'))"
  using handle_types_run [OF assms subset_refl, of call ev False s]
  by (simp add: handle_event_def calls_of_def)

lemma proceed_loop_spec:
  "proceed_loop call obs evs un exs s =
    (case run_events call obs evs s of (outs, s') \<Rightarrow> (un @ untouched outs, exs @ thrown outs, s'))"
  by (induction evs arbitrary: un exs s)
    (auto simp: handle_event_called add_exception_def split: prod.splits option.splits)

text \<open>
  C11: The observer's loop implements its specification: every event of the poll is taken in
  order and calls, up to the first exception, the handlers registered for the kinds it has, in
  the order read, write, exception, hangup, error, peer closed, with the handler of NONE, if
  there is one, in the place of each kind it does not have; events none of whose handlers
  returned go to the unhandled callback in one list; the exceptions are collected in order and
  thrown together, otherwise the result says whether there was an event.
\<close>

theorem observer_proceed_spec:
  assumes "poll timeout s = (evs, s1)"
    and "run_events call obs evs s1 = (outs, s2)"
    and "handle_unhandled cu obs (untouched outs) s2 = (uex, s3)"
  shows "observer_proceed poll call cu obs timeout s =
           (if thrown outs @ add_exception uex [] \<noteq> [] then Inl (thrown outs @ add_exception uex [])
            else Inr (evs \<noteq> []), s3)
         \<and> map fst outs = evs"
  using assms run_events_all [OF assms(2)]
  by (simp add: observer_proceed_def proceed_loop_spec Let_def add_exception_def split: option.splits)

text \<open>
  The witness: a readable event whose handler throws, which is also handed to the callback for
  unhandled events, and a hangup that is handled after it.
\<close>

definition log_unhandled :: "(nat \<times> int) list unhandled_sem" where
  "log_unhandled cb evs s = (None, s @ map (\<lambda>e. (100 + cb, ev_fd e)) evs)"

theorem observer_proceed_spec_witness:
  "observer_proceed (\<lambda>t s. ([\<lparr>ev_fd = 7, ev_type = READ_READY\<rparr>, \<lparr>ev_fd = 8, ev_type = HANGUP\<rparr>], s))
     log_call log_unhandled \<lparr>ob_handlers = [READ_READY \<mapsto> 0, HANGUP \<mapsto> 1], ob_unhandled = Some 5\<rparr> 50 []
   = (Inl [UserException 0], [(0, 7), (1, 8), (105, 7)])"
  using observer_proceed_spec [of
      "\<lambda>t s. ([\<lparr>ev_fd = 7, ev_type = READ_READY\<rparr>, \<lparr>ev_fd = 8, ev_type = HANGUP\<rparr>], s)" 50 "[]"
      "[\<lparr>ev_fd = 7, ev_type = READ_READY\<rparr>, \<lparr>ev_fd = 8, ev_type = HANGUP\<rparr>]" "[]" log_call
      "\<lparr>ob_handlers = [READ_READY \<mapsto> 0, HANGUP \<mapsto> 1], ob_unhandled = Some 5\<rparr>"
      "[(\<lparr>ev_fd = 7, ev_type = READ_READY\<rparr>, 0, Some (UserException 0)),
        (\<lparr>ev_fd = 8, ev_type = HANGUP\<rparr>, 1, None)]" "[(0, 7), (1, 8)]"
      log_unhandled None "[(0, 7), (1, 8), (105, 7)]"]
  by (simp add: called_for_def bits_in_order_def event_type_defs log_call_def log_unhandled_def
      handle_unhandled_def add_exception_def bit_simps)

subsection \<open>Invariants of a run\<close>

text \<open>
  The contract between the observer and the endpoint that registers handlers: if the poll, every
  registered handler and the callback for unhandled events keep a property of the state, a whole
  \<^verbatim>\<open>proceed\<close> keeps it, exceptions included.
\<close>

locale handler_contract =
  fixes I :: "'s \<Rightarrow> bool" and poll :: "int \<Rightarrow> 's \<Rightarrow> poll_event list \<times> 's"
    and call :: "('h, 's) handler_sem" and cu :: "'s unhandled_sem" and obs :: "'h observer"
  assumes poll_keeps: "poll t s = (evs, s1) \<Longrightarrow> I s \<Longrightarrow> I s1"
    and call_keeps: "call h fd s = (ex, s1) \<Longrightarrow> h \<in> ran (ob_handlers obs) \<Longrightarrow> I s \<Longrightarrow> I s1"
    and unhandled_keeps: "cu cb evs s = (ex, s1) \<Longrightarrow> ob_unhandled obs = Some cb \<Longrightarrow> I s \<Longrightarrow> I s1"
begin

lemma handle_types_keeps: "handle_types call obs ev tps first s = (b, ex, s1) \<Longrightarrow> I s \<Longrightarrow> I s1"
  by (induction tps arbitrary: first s)
    (auto simp: handle_event_tp_def split: prod.splits option.splits dest: call_keeps [OF _ ranI])

lemma proceed_loop_keeps: "proceed_loop call obs evs un exs s = (un', exs', s1) \<Longrightarrow> I s \<Longrightarrow> I s1"
  by (induction evs arbitrary: un exs s)
    (auto simp: handle_event_def split: prod.splits dest: handle_types_keeps)

lemma proceed_keeps:
  assumes "observer_proceed poll call cu obs t s = (res, s1)" and "I s"
  shows "I s1"
proof -
  obtain evs sa where p: "poll t s = (evs, sa)" by fastforce
  obtain un exs sb where l: "proceed_loop call obs evs [] [] sa = (un, exs, sb)"
    using prod_cases3 by blast
  obtain ex sc where u: "handle_unhandled cu obs un sb = (ex, sc)" by fastforce
  have "I sb" using poll_keeps [OF p assms(2)] proceed_loop_keeps [OF l] by blast
  then have "I sc"
    using u unhandled_keeps by (auto simp: handle_unhandled_def split: option.splits)
  then show ?thesis using assms(1) p l u by (simp add: observer_proceed_def Let_def)
qed

end

text \<open>
  The extended contract bounds what can be thrown, too: \<^verbatim>\<open>proceed_exception\<close> carries nothing
  that neither a handler nor the callback for unhandled events throws.
\<close>

locale exception_contract = handler_contract I poll call cu obs
  for I :: "'s \<Rightarrow> bool" and poll and call :: "('h, 's) handler_sem" and cu and obs +
  fixes E :: "exn \<Rightarrow> bool"
  assumes call_throws: "call h fd s = (Some e, s1) \<Longrightarrow> h \<in> ran (ob_handlers obs) \<Longrightarrow> I s \<Longrightarrow> E e"
    and unhandled_throws: "cu cb evs s = (Some e, s1) \<Longrightarrow> ob_unhandled obs = Some cb \<Longrightarrow> I s \<Longrightarrow> E e"
begin

lemma handle_types_throws: "handle_types call obs ev tps first s = (b, Some e, s1) \<Longrightarrow> I s \<Longrightarrow> E e"
  by (induction tps arbitrary: first s)
    (auto simp: handle_event_tp_def split: prod.splits option.splits
      dest: call_keeps [OF _ ranI] call_throws [OF _ ranI])

lemma proceed_loop_throws:
  "proceed_loop call obs evs un exs s = (un', exs', s1) \<Longrightarrow> I s \<Longrightarrow> \<forall>e \<in> set exs. E e \<Longrightarrow> \<forall>e \<in> set exs'. E e"
proof (induction evs arbitrary: un exs s)
  case (Cons ev evs)
  obtain b ex s2 where h: "handle_event call obs ev s = (b, ex, s2)" using prod_cases3 by blast
  have "I s2" using h Cons.prems(2) handle_types_keeps by (simp add: handle_event_def)
  moreover have "\<forall>e \<in> set (add_exception ex exs). E e"
    using h Cons.prems(2,3) handle_types_throws by (cases ex) (auto simp: handle_event_def add_exception_def)
  ultimately show ?case using Cons.IH Cons.prems(1) h by simp
qed simp

lemma proceed_throws:
  assumes "observer_proceed poll call cu obs t s = (Inl exs, s1)" and "I s" and "e \<in> set exs"
  shows "E e"
proof -
  obtain evs sa where p: "poll t s = (evs, sa)" by fastforce
  obtain un exs' sb where l: "proceed_loop call obs evs [] [] sa = (un, exs', sb)"
    using prod_cases3 by blast
  obtain ex sc where u: "handle_unhandled cu obs un sb = (ex, sc)" by fastforce
  have Ia: "I sa" using poll_keeps [OF p assms(2)] .
  then have Ib: "I sb" using proceed_loop_keeps [OF l] by blast
  have exs: "exs = add_exception ex exs'"
    using assms(1) p l u by (simp add: observer_proceed_def Let_def split: if_splits)
  have "E x" if "ex = Some x" for x
    using u that Ib unhandled_throws by (auto simp: handle_unhandled_def split: option.splits)
  then show ?thesis
    using proceed_loop_throws [OF l Ia] assms(3) exs by (cases ex) (auto simp: add_exception_def)
qed

end

end
