(* ===== verification/Endpoint.thy ===== *)
theory Endpoint
  imports Event_Observer Typed_Sockets
begin

section \<open>Endpoints\<close>

text \<open>
  Models \<^verbatim>\<open>include/endpoint/endpoint.h\<close>, \<^verbatim>\<open>src/endpoint/endpoint.tpp\<close> and
  \<^verbatim>\<open>proto_to_sum_of_states.h\<close>: the state that client and server share. The sum of socket states
  is a \<^verbatim>\<open>std::variant\<close>; which alternatives exist depends on the protocol and the role, the model
  has one datatype and says with \<open>client_state\<close> and \<open>server_state\<close> which values the
  types allow.
\<close>

datatype sock_state =
  StIdle "socket_t option"
| StBinded binded_socket_t
| StListening listening_socket_t
| StActive active_socket_t

fun client_state :: "proto \<Rightarrow> sock_state \<Rightarrow> bool" where
  "client_state pr (StIdle _) = True"
| "client_state pr (StBinded _) = (\<not> is_connectionless pr)"
| "client_state pr (StListening _) = False"
| "client_state pr (StActive _) = True"

fun server_state :: "proto \<Rightarrow> sock_state \<Rightarrow> bool" where
  "server_state pr (StIdle _) = True"
| "server_state pr (StBinded _) = (\<not> is_connectionless pr)"
| "server_state pr (StListening _) = (\<not> is_connectionless pr)"
| "server_state pr (StActive _) = is_connectionless pr"

text \<open>
  \<^verbatim>\<open>native_handle\<close> of each state; \<open>-1\<close> for an idle endpoint without a socket.
\<close>

fun state_fd :: "sock_state \<Rightarrow> int" where
  "state_fd (StIdle None) = -1"
| "state_fd (StIdle (Some s)) = impl_fd (s_impl s)"
| "state_fd (StBinded s) = impl_fd (b_impl s)"
| "state_fd (StListening s) = impl_fd (l_impl s)"
| "state_fd (StActive s) = impl_fd (a_impl s)"

text \<open>The destructor of the variant.\<close>

fun state_dtor :: "'k os \<Rightarrow> sock_state \<Rightarrow> 'k world \<Rightarrow> 'k world" where
  "state_dtor K (StIdle None) w = w"
| "state_dtor K (StIdle (Some s)) w = socket_dtor K s w"
| "state_dtor K (StBinded s) w = binded_dtor K s w"
| "state_dtor K (StListening s) w = listening_dtor K s w"
| "state_dtor K (StActive s) w = active_dtor K s w"

text \<open>
  \<^verbatim>\<open>state = std::move(x)\<close>. A variant that holds another alternative destroys it and constructs
  the new one; a variant that holds the same alternative assigns to the object in place, which for a
  typed socket overwrites the descriptor. An optional that is assigned an empty one destroys its
  value.
\<close>

fun assign_state :: "'k os \<Rightarrow> sock_state \<Rightarrow> sock_state \<Rightarrow> 'k world \<Rightarrow> sock_state \<times> 'k world" where
  "assign_state K (StIdle (Some old)) (StIdle (Some s)) w =
     (StIdle (Some (old\<lparr>s_impl := fst (move_assign_impl (s_impl old) (s_impl s))\<rparr>)), w)"
| "assign_state K (StBinded old) (StBinded s) w =
     (StBinded (s\<lparr>b_impl := fst (move_assign_impl (b_impl old) (b_impl s))\<rparr>), w)"
| "assign_state K (StListening old) (StListening s) w =
     (StListening (s\<lparr>l_impl := fst (move_assign_impl (l_impl old) (l_impl s))\<rparr>), w)"
| "assign_state K (StActive old) (StActive s) w =
     (StActive (s\<lparr>a_impl := fst (move_assign_impl (a_impl old) (a_impl s))\<rparr>), w)"
| "assign_state K old new w = (new, state_dtor K old w)"

record ('p, 'h) endpoint =
  en_poll :: 'p
  en_obs :: "'h observer"
  en_af :: int
  en_state :: sock_state

definition endpoint_ctor :: "'p \<Rightarrow> int \<Rightarrow> nat option \<Rightarrow> ('p, 'h) endpoint" where
  "endpoint_ctor poll af unhandled =
     \<lparr>en_poll = poll, en_obs = observer_ctor unhandled, en_af = af, en_state = StIdle None\<rparr>"

definition idle :: "('p, 'h, 'z) endpoint_scheme \<Rightarrow> bool" where
  "idle e = (case en_state e of StIdle _ \<Rightarrow> True | _ \<Rightarrow> False)"

definition get_fd :: "('p, 'h, 'z) endpoint_scheme \<Rightarrow> int" where
  "get_fd e = state_fd (en_state e)"

text \<open>\<^verbatim>\<open>this->add\<close> and \<^verbatim>\<open>this->remove\<close>, their results discarded.\<close>

definition endpoint_add :: "uint32 \<Rightarrow> 'h \<Rightarrow> ('p, 'h, 'z) endpoint_scheme \<Rightarrow> ('p, 'h, 'z) endpoint_scheme" where
  "endpoint_add ev h e = e\<lparr>en_obs := snd (observer_add ev h (en_obs e))\<rparr>"

definition endpoint_remove :: "uint32 \<Rightarrow> ('p, 'h, 'z) endpoint_scheme \<Rightarrow> ('p, 'h, 'z) endpoint_scheme" where
  "endpoint_remove ev e = e\<lparr>en_obs := snd (observer_remove ev (en_obs e))\<rparr>"

lemma endpoint_registry_simps [simp]:
  "en_state (endpoint_add ev h e) = en_state e" "en_poll (endpoint_add ev h e) = en_poll e"
  "en_af (endpoint_add ev h e) = en_af e"
  "en_state (endpoint_remove ev e) = en_state e" "en_poll (endpoint_remove ev e) = en_poll e"
  "en_af (endpoint_remove ev e) = en_af e"
  "ob_unhandled (en_obs (endpoint_add ev h e)) = ob_unhandled (en_obs e)"
  "ob_unhandled (en_obs (endpoint_remove ev e)) = ob_unhandled (en_obs e)"
  "ob_handlers (en_obs (endpoint_remove ev e)) = (ob_handlers (en_obs e))(ev := None)"
  "ob_handlers (en_obs (endpoint_add ev h e)) =
     (if ob_handlers (en_obs e) ev = None then (ob_handlers (en_obs e))(ev \<mapsto> h) else ob_handlers (en_obs e))"
  by (auto simp: endpoint_add_def endpoint_remove_def observer_add_def observer_remove_def
      split: option.splits)

subsection \<open>Descriptors an object owns\<close>

definition impl_fds :: "socket_impl \<Rightarrow> int set" where
  "impl_fds s = set_option (si_fd s)"

fun state_fds :: "sock_state \<Rightarrow> int set" where
  "state_fds (StIdle None) = {}"
| "state_fds (StIdle (Some s)) = impl_fds (s_impl s)"
| "state_fds (StBinded s) = impl_fds (b_impl s)"
| "state_fds (StListening s) = impl_fds (l_impl s)"
| "state_fds (StActive s) = impl_fds (a_impl s)"

text \<open>
  \<open>accounts live w S w' S'\<close>: an owner of the descriptors \<open>S\<close> in \<open>w\<close>
  owns \<open>S'\<close> in \<open>w'\<close>, and every other descriptor of the process is open in
  \<open>w'\<close> exactly if it was in \<open>w\<close>.
\<close>

definition accounts :: "('k \<Rightarrow> int set) \<Rightarrow> 'k world \<Rightarrow> int set \<Rightarrow> 'k world \<Rightarrow> int set \<Rightarrow> bool" where
  "accounts live w S w' S' \<longleftrightarrow>
     (ledger_ok live w \<and> S \<subseteq> open_fds (w_trace w) \<longrightarrow>
        ledger_ok live w' \<and> S' \<subseteq> open_fds (w_trace w')
        \<and> open_fds (w_trace w') - S' = open_fds (w_trace w) - S)"

lemma accounts_refl: "accounts live w S w S"
  by (simp add: accounts_def)

lemma accounts_trans: "accounts live w0 S0 w1 S1 \<Longrightarrow> accounts live w1 S1 w2 S2 \<Longrightarrow> accounts live w0 S0 w2 S2"
  by (simp add: accounts_def)

lemma accounts_quiet: "posix_fds K live \<Longrightarrow> via K quiet w w' \<Longrightarrow> accounts live w S w' S"
  by (auto simp: accounts_def via_quiet dest: via_ledger_ok)

lemma accounts_upcall: "accounts live w S (upcall cb w) S"
  by (simp add: accounts_def)

lemma open_fds_destroy: "open_fds (w_trace (destroy_impl K s w)) = open_fds (w_trace w) - impl_fds s"
  by (cases "do_sys K (SysClose (the (si_fd s))) w")
    (auto simp: destroy_impl_def impl_empty_def impl_close_def impl_fds_def ledger_simps
      split: option.splits)

lemma accounts_destroy:
  "posix_fds K live \<Longrightarrow> accounts live w (impl_fds s \<union> S) (destroy_impl K s w) (S - impl_fds s)"
  by (auto simp: accounts_def open_fds_destroy dest: via_ledger_ok [OF via_destroy])

lemma socket_create_trace:
  "socket_create K pr af w = (res, w1) \<Longrightarrow>
     \<exists>r a b. do_sys K (SysSocket af a b) w = (r, w1)
       \<and> res = (if rp_ret r = -1 then None else Some \<lparr>s_impl = socket_impl_ctor (rp_ret r) af\<rparr>)"
  by (cases "proto_flags pr")
    (auto simp: socket_create_def impl_open_def impl_default_def move_impl_def socket_impl_ctor_def
      split: prod.splits if_splits)

lemma create_fresh:
  assumes "posix_fds K live" and "socket_create K pr af w = (Some s, w1)" and "ledger_ok live w"
  shows "impl_fds (s_impl s) \<inter> open_fds (w_trace w) = {}" and "state_fd (StIdle (Some s)) \<noteq> -1"
    and "impl_fds (s_impl s) = {state_fd (StIdle (Some s))}"
proof -
  obtain r a b where d: "do_sys K (SysSocket af a b) w = (r, w1)"
    and s: "rp_ret r \<noteq> -1" "s = \<lparr>s_impl = socket_impl_ctor (rp_ret r) af\<rparr>"
    using socket_create_trace [OF assms(2)] by (auto split: if_splits)
  have "rp_ret r \<notin> open_fds (w_trace w)"
    using do_sys_fresh [OF assms(1,3) d] s by simp
  with s show "impl_fds (s_impl s) \<inter> open_fds (w_trace w) = {}" "state_fd (StIdle (Some s)) \<noteq> -1"
    "impl_fds (s_impl s) = {state_fd (StIdle (Some s))}"
    by (simp_all add: impl_fds_def socket_impl_ctor_def impl_fd_def)
qed

lemma accounts_create:
  assumes "posix_fds K live" and "socket_create K pr af w = (res, w1)"
  shows "accounts live w S w1 (S \<union> (case res of Some s \<Rightarrow> impl_fds (s_impl s) | None \<Rightarrow> {}))"
proof -
  obtain r a b where d: "do_sys K (SysSocket af a b) w = (r, w1)"
    and res: "res = (if rp_ret r = -1 then None else Some \<lparr>s_impl = socket_impl_ctor (rp_ret r) af\<rparr>)"
    using socket_create_trace [OF assms(2)] by blast
  show ?thesis
    using open_fds_do_sys [OF d] do_sys_fresh [OF assms(1) _ d] ledger_ok_do_sys [OF assms(1) _ d]
    by (auto simp: accounts_def res impl_fds_def socket_impl_ctor_def)
qed

lemma open_fds_state_dtor: "open_fds (w_trace (state_dtor K st w)) = open_fds (w_trace w) - state_fds st"
  by (cases "(K, st, w)" rule: state_dtor.cases)
    (simp_all add: open_fds_destroy socket_dtor_def binded_dtor_def listening_dtor_def active_dtor_def)

lemma via_state_dtor: "via K (\<lambda>c. \<exists>fd. c = SysClose fd) w (state_dtor K st w)"
  by (cases "(K, st, w)" rule: state_dtor.cases)
    (simp_all add: via_destroy via_refl socket_dtor_def binded_dtor_def listening_dtor_def active_dtor_def)

lemma accounts_state_dtor:
  "posix_fds K live \<Longrightarrow> accounts live w (state_fds st \<union> S) (state_dtor K st w) (S - state_fds st)"
  by (auto simp: accounts_def open_fds_state_dtor dest: via_ledger_ok [OF via_state_dtor])

text \<open>Assigning to the variant: no alternative is overwritten in place, or the old one owns nothing.\<close>

fun same_alternative :: "sock_state \<Rightarrow> sock_state \<Rightarrow> bool" where
  "same_alternative (StIdle (Some _)) (StIdle (Some _)) = True"
| "same_alternative (StBinded _) (StBinded _) = True"
| "same_alternative (StListening _) (StListening _) = True"
| "same_alternative (StActive _) (StActive _) = True"
| "same_alternative _ _ = False"

lemma assign_state_other:
  "\<not> same_alternative old new \<Longrightarrow> assign_state K old new w = (new, state_dtor K old w)"
  by (cases "(K, old, new, w)" rule: assign_state.cases) auto

lemma assign_state_none [simp]: "assign_state K old (StIdle None) w = (StIdle None, state_dtor K old w)"
  by (cases "(K, old, StIdle None, w)" rule: assign_state.cases) auto

lemma assign_state_same:
  "same_alternative old new \<Longrightarrow> assign_state K old new w = (st, w1) \<Longrightarrow>
     w1 = w \<and> state_fds st = state_fds new \<and> state_fd st = state_fd new"
  by (cases "(K, old, new, w)" rule: assign_state.cases)
    (auto simp: move_assign_impl_def impl_fds_def impl_fd_def)

lemma assign_state_fds: "assign_state K old new w = (st, w1) \<Longrightarrow> state_fds st = state_fds new"
  by (metis assign_state_other assign_state_same prod.inject)

lemma accounts_assign:
  assumes "posix_fds K live" and "assign_state K old new w = (st, w1)"
    and "\<not> same_alternative old new \<or> state_fds old = {}" and "state_fds old \<inter> state_fds new = {}"
  shows "accounts live w (state_fds old \<union> state_fds new) w1 (state_fds st)"
proof (cases "same_alternative old new")
  case True
  with assign_state_same [OF True assms(2)] assms(3) show ?thesis by (simp add: accounts_refl)
next
  case False
  moreover have "state_fds new - state_fds old = state_fds new" using assms(4) by blast
  ultimately show ?thesis
    using assms(2) accounts_state_dtor [OF assms(1), of w old "state_fds new"]
    by (simp add: assign_state_other)
qed

text \<open>What the transitions of the typed sockets do to the descriptors.\<close>

lemma bind_conn_fds:
  assumes "bind_conn K der l w = (res, der', w1)"
  shows "via K quiet w w1 \<and>
    (case res of Some b \<Rightarrow> impl_fds (b_impl b) = impl_fds (s_impl der) \<and> impl_fds (s_impl der') = {}
      | None \<Rightarrow> der' = der)"
  using assms by (auto simp: bind_conn_def binded_ctor_def impl_fds_def move_impl_def
      split: prod.splits if_splits dest: via_impl(1))

lemma bind_less_fds:
  assumes "bind_less K der l w = (res, der', w1)"
  shows "via K quiet w w1 \<and>
    (case res of Some b \<Rightarrow> impl_fds (a_impl b) = impl_fds (s_impl der) \<and> impl_fds (s_impl der') = {}
      | None \<Rightarrow> der' = der)"
  using assms by (auto simp: bind_less_def active_ctor_def impl_fds_def move_impl_def
      split: prod.splits if_splits dest: via_impl(1))

lemma listen_fds:
  assumes "binded_listen K der n w = (res, der', w1)"
  shows "via K quiet w w1 \<and>
    (case res of Some b \<Rightarrow> impl_fds (l_impl b) = impl_fds (b_impl der) \<and> impl_fds (b_impl der') = {}
      | None \<Rightarrow> der' = der)"
  using assms by (auto simp: binded_listen_def listening_ctor_def impl_fds_def move_impl_def
      split: prod.splits if_splits dest: via_impl(3))

lemma socket_connect_fds:
  assumes "socket_connect K der rem w = (res, der', w1)"
  shows "via K quiet w w1 \<and>
    (case res of Some b \<Rightarrow> impl_fds (a_impl b) = impl_fds (s_impl der) \<and> impl_fds (s_impl der') = {}
      | None \<Rightarrow> der' = der)"
  using assms by (auto simp: socket_connect_def active_ctor_def impl_fds_def move_impl_def
      split: prod.splits if_splits dest: via_impl(2))

lemma binded_connect_fds:
  assumes "binded_connect K der rem w = (res, der', w1)"
  shows "via K quiet w w1 \<and>
    (case res of Some b \<Rightarrow> impl_fds (a_impl b) = impl_fds (b_impl der) \<and> impl_fds (b_impl der') = {}
      | None \<Rightarrow> der' = der)"
  using assms by (auto simp: binded_connect_def active_ctor_def impl_fds_def move_impl_def
      split: prod.splits if_splits dest: via_impl(2))

end
