(* ===== verification/Endpoint_Protocol.thy ===== *)
theory Endpoint_Protocol
  imports Typed_Safety Endpoint
begin

section \<open>Endpoints as programs over typed sockets\<close>

text \<open>
  An endpoint holds one typed socket and talks to its poll. This theory relates the two levels:
  the state of an endpoint stands for a pool with one object (\<open>state_pool\<close>), the calls of
  the poll are invisible to the socket protocol (\<open>neutral\<close>), and the assignment to the
  state is a destruction followed by a move, or a move assignment. With these, the invariant
  \<open>sys_inv\<close> of the typed sockets carries over to clients and servers.
\<close>

fun tsock_of :: "sock_state \<Rightarrow> tsock option" where
  "tsock_of (StIdle x) = map_option TSocket x"
| "tsock_of (StBinded s) = Some (TBinded s)"
| "tsock_of (StListening s) = Some (TListening s)"
| "tsock_of (StActive s) = Some (TActive s)"

definition state_pool :: "sock_state \<Rightarrow> pool" where
  "state_pool st = (\<lambda>i. if i = 0 then tsock_of st else None)"

lemma state_pool_simps [simp]:
  "state_pool st 0 = tsock_of st" "i \<noteq> 0 \<Longrightarrow> state_pool st i = None"
  by (simp_all add: state_pool_def)

fun neutral :: "sys_call \<Rightarrow> bool" where
  "neutral (SysEpollCtl _ _ _ _) = True"
| "neutral (SysEpollWait _ _ _) = True"
| "neutral _ = False"

lemma neutral_quiet: "neutral c \<Longrightarrow> quiet c"
  by (cases c) simp_all

lemma neutral_step: "neutral c \<Longrightarrow> legal m c \<and> phase_step c r e m = m"
  by (cases c) simp_all

lemma sys_inv_frame [simp]:
  "sys_inv live pr p (mark_ub u w) = sys_inv live pr p w"
  "sys_inv live pr p (upcall cb w) = sys_inv live pr p w"
  "sys_inv live pr p (w\<lparr>w_connect_static := f\<rparr>) = sys_inv live pr p w"
  "sys_inv live pr p (w\<lparr>w_tl_events := b\<rparr>) = sys_inv live pr p w"
  by (simp_all add: sys_inv_def ledger_ok_def)

lemma via_neutral:
  assumes "via K neutral w w'" and "posix_fds K live" and "sys_inv live pr p w"
  shows "sys_inv live pr p w'"
  using assms
proof (induction rule: via.induct)
  case (via_sys w w1 c r w2)
  then have inv: "sys_inv live pr p w1" by blast
  have "w_trace w2 = Sys c (rp_ret r) (w_errno w2) # w_trace w1"
    using do_sys_trace [OF via_sys.hyps(3)] by simp
  then have "keeps live pr p w1 p w2"
    using keeps_call [OF inv via_sys.prems(1) via_call [OF via_sys.hyps(3)]]
      neutral_quiet [OF via_sys.hyps(2)] neutral_step [OF via_sys.hyps(2)] by blast
  then show ?case by (simp add: keeps_def)
qed simp_all

lemma sys_inv_single:
  assumes "sys_inv live pr p w" and "p d = tsock_of st"
  shows "sys_inv live pr (state_pool st) w"
proof -
  have v: "view pr (state_pool st) i = (if i = 0 then view pr p d else None)" for i
    using assms(2) by (simp add: view_def state_pool_def)
  have "consistent (view pr p) (phases (w_trace w))" using assms(1) by (simp add: sys_inv_def)
  then have "consistent (view pr (state_pool st)) (phases (w_trace w))"
    unfolding consistent_def v by auto
  with assms(1) show ?thesis by (simp add: sys_inv_def)
qed

lemma sys_inv_phase:
  assumes "sys_inv live pr (state_pool st) w" and "tsock_of st = Some t" and "si_fd (impl_of t) = Some fd"
  shows "phases (w_trace w) fd = Some (expected pr t)"
proof -
  have "view pr (state_pool st) 0 = Some (fd, expected pr t)" using assms(2,3) by (simp add: view_def)
  with assms(1) show ?thesis unfolding sys_inv_def by (blast dest: consistentD)
qed

lemma state_dtor_pool:
  "state_dtor K st w = (case tsock_of st of Some t \<Rightarrow> destroy_impl K (impl_of t) w | None \<Rightarrow> w)"
  by (cases "(K, st, w)" rule: state_dtor.cases)
    (simp_all add: socket_dtor_def binded_dtor_def listening_dtor_def active_dtor_def)

lemma sys_inv_dtor:
  assumes "sys_inv live pr p w" and "posix_fds K live" and "p i = tsock_of st"
  shows "sys_inv live pr (p(i := None)) (state_dtor K st w)"
proof (cases "tsock_of st")
  case None
  with assms show ?thesis by (simp add: state_dtor_pool fun_upd_idem)
next
  case (Some t)
  with keeps_destroy [OF assms(1,2), of i t] assms(3) show ?thesis
    by (simp add: state_dtor_pool keeps_def)
qed

lemma sys_inv_assign:
  assumes inv: "sys_inv live pr p w" and K: "posix_fds K live"
    and p: "p i = tsock_of old" "p d = tsock_of new" "d \<noteq> i"
    and st: "assign_state K old new w = (st, w')"
  shows "sys_inv live pr (state_pool st) w'"
proof (cases "same_alternative old new")
  case True
  have "view pr (state_pool st) = view pr (state_pool new)"
    using True st
    by (cases "(K, old, new, w)" rule: assign_state.cases)
      (auto simp: view_def state_pool_def move_assign_impl_def fun_eq_iff)
  moreover have "sys_inv live pr (state_pool new) w" using inv p(2) by (rule sys_inv_single)
  moreover have "w' = w" using assign_state_same [OF True st] by simp
  ultimately show ?thesis by (simp add: sys_inv_def)
next
  case False
  with st have e: "st = new" "w' = state_dtor K old w" by (simp_all add: assign_state_other)
  have "sys_inv live pr (p(i := None)) w'" unfolding e using inv K p(1) by (rule sys_inv_dtor)
  then show ?thesis unfolding e by (rule sys_inv_single [where d = d]) (use p in simp)
qed

text \<open>The operations of the policies, on an object of a pool whose result gets a new name.\<close>

lemma sys_inv_transit:
  assumes "sys_inv live pr p w" and "posix_fds K live" and "via K quiet w w1"
    and "p s = Some t" and "p d = None" and "transit pr t res rest w w1"
  shows "case res of None \<Rightarrow> sys_inv live pr p w1
         | Some u \<Rightarrow> sys_inv live pr (p(s \<mapsto> rest, d \<mapsto> u)) w1"
proof -
  have "rest = t" if "res = None" using assms(6) that by (auto simp: transit_def)
  moreover have "p(s \<mapsto> t) = p" using assms(4) by auto
  ultimately show ?thesis
    using keeps_transit [OF assms(1-6)] by (cases res) (auto simp: keeps_def)
qed

lemma sys_inv_create:
  assumes "sys_inv live pr p w" and "posix_fds K live" and "p d = None"
    and "socket_create K pr af w = (res, w1)"
  shows "sys_inv live pr (p(d := map_option TSocket res)) w1"
  using keeps_create [OF assms(1-3), of af] assms(3,4)
  by (cases res) (simp_all add: keeps_def fun_upd_idem)

lemma sys_inv_one_call:
  assumes "sys_inv live pr p w" and "posix_fds K live" and "p i = Some (TActive x)"
  shows
    "\<not> is_connectionless pr \<Longrightarrow> send_conn K x buf n 0 w = (r, w1) \<Longrightarrow> sys_inv live pr p w1"
    "is_connectionless pr \<Longrightarrow> send_less K x a buf n 0 w = (r, w1) \<Longrightarrow> sys_inv live pr p w1"
    "\<not> is_connectionless pr \<Longrightarrow> receive_conn K x buf n 0 w = (r, buf', w1) \<Longrightarrow> sys_inv live pr p w1"
    "is_connectionless pr \<Longrightarrow> receive_less K x buf n 0 w = (r', buf', w1) \<Longrightarrow> sys_inv live pr p w1"
  using keeps_transfers(1-4) [OF assms] unfolding keeps_def by (metis snd_conv)+

subsection \<open>The poll is invisible to the protocol\<close>

definition poll_neutral :: "'k os \<Rightarrow> ('p, 'k world) poll_traits \<Rightarrow> bool" where
  "poll_neutral K PT \<longleftrightarrow>
     (\<forall>p t w. via K neutral w (snd (pt_proceed PT p t w)))
   \<and> (\<forall>p fd op w. via K neutral w (snd (pt_add PT p fd op w)))
   \<and> (\<forall>p fd w. via K neutral w (snd (pt_del PT p fd w)))"

lemma epoll_ctl_neutral: "via K neutral w (snd (epoll_ctl K ep fd ctl op w))"
  by (auto simp: epoll_ctl_def Let_def split: prod.splits intro: via_call)

lemma epoll_proceed_neutral: "via K neutral w (snd (epoll_proceed K ep t w))"
proof -
  define w0 where "w0 = w\<lparr>w_tl_events :=
    Some (case w_tl_events w of Some n \<Rightarrow> n | None \<Rightarrow> unat (ep_max_events ep))\<rparr>"
  obtain r w2 where d: "do_sys K (SysEpollWait (ep_fd ep) (c_int (uint (ep_max_events ep))) (c_int t)) w0 = (r, w2)"
    by fastforce
  have "via K neutral w w2"
    by (rule via_sys [OF via_tl [OF via_refl] _ d [unfolded w0_def]]) simp
  moreover have "snd (epoll_proceed K ep t w) = w2 \<or> (\<exists>u. snd (epoll_proceed K ep t w) = mark_ub u w2)"
    using d by (auto simp: epoll_proceed_def w0_def Let_def)
  ultimately show ?thesis by (auto intro: via_ub)
qed

lemma epoll_neutral: "poll_neutral K (epoll_traits K)"
  by (simp add: poll_neutral_def epoll_proceed_neutral add_socket_def del_socket_def epoll_ctl_neutral)

lemma poll_neutralD:
  assumes "poll_neutral K PT" and "posix_fds K live"
  shows "pt_proceed PT p t w = (evs, w1) \<Longrightarrow> sys_inv live pr P w \<Longrightarrow> sys_inv live pr P w1"
    and "pt_add PT p fd op w = (ok, w1) \<Longrightarrow> sys_inv live pr P w \<Longrightarrow> sys_inv live pr P w1"
    and "pt_del PT p fd w = (ok, w1) \<Longrightarrow> sys_inv live pr P w \<Longrightarrow> sys_inv live pr P w1"
  using assms unfolding poll_neutral_def by (metis snd_conv via_neutral)+

end
