(* ===== verification/Client.thy ===== *)
theory Client
  imports Endpoint
begin

section \<open>The client endpoint\<close>

text \<open>
  Models \<^verbatim>\<open>include/endpoint/client.h\<close> and \<^verbatim>\<open>src/endpoint/client.tpp\<close> for one protocol
  \<open>pr\<close>, over any poll with its adapter \<open>PT\<close>. The lambdas that the client registers are
  the three handlers of \<open>client_handler\<close>; \<open>client_call\<close> says what each of them does.
  Callbacks of the application are numbers; what they do is the argument \<open>A\<close>, which may
  use the client and the system and may throw. The mutex has no effect in a sequential run.
\<close>

datatype client_handler = Erase | ReadReady | WriteReady

record 'p client = "('p, client_handler) endpoint" +
  cl_remote :: "in_address_port_t option"
  cl_on_connect :: "nat option"
  cl_on_read_ready :: "nat option"
  cl_on_disconnect :: "nat option"

record ('p, 'k) client_app =
  app_call :: "nat \<Rightarrow> 'p client \<times> 'k world \<Rightarrow> exn option \<times> 'p client \<times> 'k world"
  app_unhandled :: "nat \<Rightarrow> poll_event list \<Rightarrow> 'p client \<times> 'k world \<Rightarrow> exn option \<times> 'p client \<times> 'k world"

definition client_ctor :: "'p \<Rightarrow> int \<Rightarrow> nat option \<Rightarrow> 'p client" where
  "client_ctor poll af unhandled =
     endpoint.extend (endpoint_ctor poll af unhandled)
       \<lparr>cl_remote = None, cl_on_connect = None, cl_on_read_ready = None, cl_on_disconnect = None\<rparr>"

subsection \<open>Handlers\<close>

definition client_register_cbs :: "'p client \<Rightarrow> 'p client" where
  "client_register_cbs c =
     endpoint_add WRITE_READY WriteReady
      (endpoint_add READ_READY ReadReady
       (endpoint_add EXCEPTION Erase
        (endpoint_add HANGUP Erase
         (endpoint_add ERROR_EV Erase
          (endpoint_add PEER_CLOSED Erase c)))))"

definition client_unregister_cbs :: "'p client \<Rightarrow> 'p client" where
  "client_unregister_cbs c =
     endpoint_remove READ_READY
      (endpoint_remove EXCEPTION
       (endpoint_remove HANGUP
        (endpoint_remove ERROR_EV
         (endpoint_remove PEER_CLOSED c))))"

definition call_app ::
  "('p, 'k) client_app \<Rightarrow> nat \<Rightarrow> 'p client \<times> 'k world \<Rightarrow> exn option \<times> 'p client \<times> 'k world" where
  "call_app A cb s = app_call A cb (fst s, upcall cb (snd s))"

lemma client_registry_fields [simp]:
  "cl_remote (endpoint_add ev h c) = cl_remote c" "cl_remote (endpoint_remove ev c) = cl_remote c"
  "cl_on_connect (endpoint_add ev h c) = cl_on_connect c"
  "cl_on_connect (endpoint_remove ev c) = cl_on_connect c"
  "cl_on_read_ready (endpoint_add ev h c) = cl_on_read_ready c"
  "cl_on_read_ready (endpoint_remove ev c) = cl_on_read_ready c"
  "cl_on_disconnect (endpoint_add ev h c) = cl_on_disconnect c"
  "cl_on_disconnect (endpoint_remove ev c) = cl_on_disconnect c"
  by (simp_all add: endpoint_add_def endpoint_remove_def)

lemma client_cbs_simps [simp]:
  "en_state (client_register_cbs c) = en_state c" "en_poll (client_register_cbs c) = en_poll c"
  "en_af (client_register_cbs c) = en_af c" "cl_remote (client_register_cbs c) = cl_remote c"
  "cl_on_connect (client_register_cbs c) = cl_on_connect c"
  "cl_on_read_ready (client_register_cbs c) = cl_on_read_ready c"
  "cl_on_disconnect (client_register_cbs c) = cl_on_disconnect c"
  "ob_unhandled (en_obs (client_register_cbs c)) = ob_unhandled (en_obs c)"
  "en_state (client_unregister_cbs c) = en_state c" "en_poll (client_unregister_cbs c) = en_poll c"
  "en_af (client_unregister_cbs c) = en_af c" "cl_remote (client_unregister_cbs c) = cl_remote c"
  "cl_on_connect (client_unregister_cbs c) = cl_on_connect c"
  "cl_on_read_ready (client_unregister_cbs c) = cl_on_read_ready c"
  "cl_on_disconnect (client_unregister_cbs c) = cl_on_disconnect c"
  "ob_unhandled (en_obs (client_unregister_cbs c)) = ob_unhandled (en_obs c)"
  by (simp_all add: client_register_cbs_def client_unregister_cbs_def)

text \<open>All six handlers, and what \<^verbatim>\<open>register_cbs\<close> and \<^verbatim>\<open>unregister_cbs\<close> do to the registry.\<close>

definition client_handlers :: "uint32 \<rightharpoonup> client_handler" where
  "client_handlers =
     [PEER_CLOSED \<mapsto> Erase, ERROR_EV \<mapsto> Erase, HANGUP \<mapsto> Erase, EXCEPTION \<mapsto> Erase,
      READ_READY \<mapsto> ReadReady, WRITE_READY \<mapsto> WriteReady]"

lemma endpoint_add_agrees:
  assumes "ob_handlers (en_obs e) \<subseteq>\<^sub>m H" and "H ev = Some h"
  shows "ob_handlers (en_obs (endpoint_add ev h e)) = (ob_handlers (en_obs e))(ev \<mapsto> h)"
proof -
  have "ob_handlers (en_obs e) ev = None \<or> ob_handlers (en_obs e) ev = Some h"
    using assms by (cases "ob_handlers (en_obs e) ev") (auto simp: map_le_def dest: bspec [of _ _ ev])
  then show ?thesis by auto
qed

lemma map_le_upd_same: "m \<subseteq>\<^sub>m H \<Longrightarrow> H ev = Some h \<Longrightarrow> m(ev \<mapsto> h) \<subseteq>\<^sub>m H"
  by (auto simp: map_le_def)

lemma map_le_upd_None: "m \<subseteq>\<^sub>m H \<Longrightarrow> m(ev := None) \<subseteq>\<^sub>m H"
  by (auto simp: map_le_def)

lemma client_handlers_lookup [simp]:
  "client_handlers PEER_CLOSED = Some Erase" "client_handlers ERROR_EV = Some Erase"
  "client_handlers HANGUP = Some Erase" "client_handlers EXCEPTION = Some Erase"
  "client_handlers READ_READY = Some ReadReady" "client_handlers WRITE_READY = Some WriteReady"
  "client_handlers NONE = None"
  by (simp_all add: client_handlers_def)

lemma register_cbs_handlers:
  assumes "ob_handlers (en_obs c) \<subseteq>\<^sub>m client_handlers"
  shows "ob_handlers (en_obs (client_register_cbs c)) = client_handlers"
proof -
  have "ob_handlers (en_obs (client_register_cbs c)) =
    (ob_handlers (en_obs c))(PEER_CLOSED \<mapsto> Erase, ERROR_EV \<mapsto> Erase, HANGUP \<mapsto> Erase,
      EXCEPTION \<mapsto> Erase, READ_READY \<mapsto> ReadReady, WRITE_READY \<mapsto> WriteReady)"
    using assms by (simp add: client_register_cbs_def endpoint_add_agrees [where H = client_handlers]
        map_le_upd_same del: endpoint_registry_simps)
  also have "\<dots> = ob_handlers (en_obs c) ++ client_handlers"
    by (simp add: client_handlers_def)
  finally have "ob_handlers (en_obs (client_register_cbs c)) = ob_handlers (en_obs c) ++ client_handlers" .
  with assms show ?thesis by (simp add: map_add_subsumed1)
qed

lemma unregister_cbs_handlers:
  "ob_handlers (en_obs (client_unregister_cbs c)) =
     (ob_handlers (en_obs c))(PEER_CLOSED := None, ERROR_EV := None, HANGUP := None,
        EXCEPTION := None, READ_READY := None)"
  by (simp add: client_unregister_cbs_def)

text \<open>
  An exception of a callback leaves the handler before the callback is reset. \<open>ReadReady\<close>
  calls \<^verbatim>\<open>m_on_read_ready\<close> without asking whether it is set.
\<close>

fun client_call ::
  "('p, 'k world) poll_traits \<Rightarrow> ('p, 'k) client_app \<Rightarrow> (client_handler, 'p client \<times> 'k world) handler_sem" where
  "client_call PT A Erase fd (c, w) =
     (if fd = get_fd c
      then (case pt_del PT (en_poll c) fd w of
              (_, w1) \<Rightarrow>
                (case cl_on_disconnect c of
                   None \<Rightarrow> (None, (c, w1))
                 | Some cb \<Rightarrow>
                     (case call_app A cb (c, w1) of
                        (Some e, s) \<Rightarrow> (Some e, s)
                      | (None, (c2, w2)) \<Rightarrow> (None, (c2\<lparr>cl_on_disconnect := None\<rparr>, w2)))))
      else (None, (c, w)))"
| "client_call PT A ReadReady fd (c, w) =
     (if fd = get_fd c
      then (case cl_on_read_ready c of
              None \<Rightarrow> (Some BadFunctionCall, (c, w))
            | Some cb \<Rightarrow> call_app A cb (c, w))
      else (None, (c, w)))"
| "client_call PT A WriteReady fd (c, w) =
     (if fd = get_fd c
      then (case cl_on_connect c of
              None \<Rightarrow> (None, (c, w))
            | Some cb \<Rightarrow>
                (case call_app A cb (c, w) of
                   (Some e, s) \<Rightarrow> (Some e, s)
                 | (None, (c2, w2)) \<Rightarrow> (None, (c2\<lparr>cl_on_connect := None\<rparr>, w2))))
      else (None, (c, w)))"

definition client_unhandled :: "('p, 'k) client_app \<Rightarrow> ('p client \<times> 'k world) unhandled_sem" where
  "client_unhandled A cb evs s = app_unhandled A cb evs (fst s, upcall cb (snd s))"

definition client_proceed ::
  "('p, 'k world) poll_traits \<Rightarrow> ('p, 'k) client_app \<Rightarrow> int \<Rightarrow> 'p client \<times> 'k world
   \<Rightarrow> (exn list + bool) \<times> 'p client \<times> 'k world" where
  "client_proceed PT A timeout s =
     observer_proceed
       (\<lambda>t (c, w). case pt_proceed PT (en_poll c) t w of (evs, w1) \<Rightarrow> (evs, (c, w1)))
       (client_call PT A) (client_unhandled A) (en_obs (fst s)) timeout s"

subsection \<open>Starting and stopping\<close>

text \<open>
  \<^verbatim>\<open>mbind\<close> takes the new socket by value: what the bound function leaves of it is destroyed.
  The world that is threaded is the client and the process.
\<close>

definition client_start ::
  "'k os \<Rightarrow> ('p, 'k world) poll_traits \<Rightarrow> proto \<Rightarrow> 'p client \<Rightarrow> 'k world \<Rightarrow> bool \<times> 'p client \<times> 'k world" where
  "client_start K PT pr c w =
     (if idle c
      then (case socket_create K pr (en_af c) w of
              (sock, w1) \<Rightarrow>
                (case mbind_obj sock
                        (\<lambda>s (c, w).
                           let c1 = client_register_cbs c
                           in case pt_add PT (en_poll c1) (impl_fd (s_impl s)) op_READ_WRITE w of
                                (_, w1) \<Rightarrow>
                                  (case assign_state K (en_state c1) (StIdle (Some s)) w1 of
                                     (st, w2) \<Rightarrow>
                                       (Some True, s\<lparr>s_impl := snd (move_impl (s_impl s))\<rparr>,
                                        (c1\<lparr>en_state := st\<rparr>, w2))))
                        (\<lambda>s (c, w). (c, socket_dtor K s w)) (c, w1) of
                   (res, s) \<Rightarrow> (res \<noteq> None, s)))
      else (False, c, w))"

text \<open>
  The second overload. What \<^verbatim>\<open>bind\<close> returns is a bound socket for a connection based protocol
  and an active one for a connectionless one.
\<close>

definition bind_any ::
  "'k os \<Rightarrow> proto \<Rightarrow> socket_t \<Rightarrow> in_address_port_t \<Rightarrow> 'k world \<Rightarrow> sock_state option \<times> socket_t \<times> 'k world" where
  "bind_any K pr s local w =
     (if is_connectionless pr
      then (case bind_less K s local w of (r, s1, w1) \<Rightarrow> (map_option StActive r, s1, w1))
      else (case bind_conn K s local w of (r, s1, w1) \<Rightarrow> (map_option StBinded r, s1, w1)))"

definition client_start_at ::
  "'k os \<Rightarrow> inet \<Rightarrow> ('p, 'k world) poll_traits \<Rightarrow> proto \<Rightarrow> string \<Rightarrow> size_t \<Rightarrow> 'p client \<Rightarrow> 'k world
   \<Rightarrow> bool \<times> 'p client \<times> 'k world" where
  "client_start_at K N PT pr local_address local_port c w =
     (case (if idle c then from_string_and_port N (w_junk w) local_address local_port else None) of
        None \<Rightarrow> (False, c, w)
      | Some address \<Rightarrow>
          (case socket_create K pr (en_af c) w of
             (created, w1) \<Rightarrow>
               (case mbind_obj created (\<lambda>s. bind_any K pr s address) (socket_dtor K) w1 of
                  (None, w2) \<Rightarrow> (False, c, w2)
                | (Some sock, w2) \<Rightarrow>
                    (let c1 = client_register_cbs c
                     in case pt_add PT (en_poll c1) (state_fd sock) op_READ_WRITE w2 of
                          (_, w3) \<Rightarrow>
                            (case assign_state K (en_state c1) sock w3 of
                               (st, w4) \<Rightarrow> (True, c1\<lparr>en_state := st\<rparr>, w4))))))"

definition client_stop ::
  "'k os \<Rightarrow> ('p, 'k world) poll_traits \<Rightarrow> 'p client \<Rightarrow> 'k world \<Rightarrow> 'p client \<times> 'k world" where
  "client_stop K PT c w =
     (case pt_del PT (en_poll c) (get_fd c) w of
        (_, w1) \<Rightarrow>
          (case assign_state K (en_state c) (StIdle None) w1 of
             (st, w2) \<Rightarrow> (client_unregister_cbs (c\<lparr>en_state := st\<rparr>), w2)))"

text \<open>
  \<^verbatim>\<open>~client_t\<close>: the handlers go, then the members and bases in reverse order, the socket state
  before the poll, whose destructor is \<open>poll_dtor\<close>.
\<close>

definition client_dtor ::
  "'k os \<Rightarrow> ('p \<Rightarrow> 'k world \<Rightarrow> 'k world) \<Rightarrow> 'p client \<Rightarrow> 'k world \<Rightarrow> 'k world" where
  "client_dtor K poll_dtor c w = poll_dtor (en_poll c) (state_dtor K (en_state c) w)"

subsection \<open>Connecting\<close>

text \<open>
  The closures \<^verbatim>\<open>set_fields\<close> and \<^verbatim>\<open>connect\<close> are \<^verbatim>\<open>static\<close> and capture the parameters of
  the call by reference. They are created by the first call of the process (for the class of the
  protocol); in every later call the references dangle, and using them is undefined behaviour.
\<close>

definition set_fields ::
  "in_address_port_t \<Rightarrow> nat option \<Rightarrow> nat option \<Rightarrow> nat option \<Rightarrow> 'p client \<Rightarrow> 'p client" where
  "set_fields a onc onr ond c =
     c\<lparr>cl_remote := Some a, cl_on_connect := onc, cl_on_read_ready := onr, cl_on_disconnect := ond\<rparr>"

definition connect_closure ::
  "('s \<Rightarrow> in_address_port_t \<Rightarrow> 'k world \<Rightarrow> active_socket_t option \<times> 's \<times> 'k world) \<Rightarrow> ('s \<Rightarrow> sock_state)
   \<Rightarrow> 'k os \<Rightarrow> bool \<Rightarrow> in_address_port_t option \<Rightarrow> (in_address_port_t \<Rightarrow> 'p client \<Rightarrow> 'p client)
   \<Rightarrow> 's \<Rightarrow> 'p client \<Rightarrow> 'k world \<Rightarrow> bool \<times> 'p client \<times> 'k world" where
  "connect_closure sock_connect wrap K first parsed setf sock c w =
     (if \<not> first then (False, c, mark_ub DanglingCapture w)
      else case parsed of
             None \<Rightarrow> (False, c, w)
           | Some a \<Rightarrow>
               (case sock_connect sock a w of
                  (None, sock1, w1) \<Rightarrow> (False, c\<lparr>en_state := wrap sock1\<rparr>, w1)
                | (Some connected, sock1, w1) \<Rightarrow>
                    (case assign_state K (wrap sock1) (StActive connected) w1 of
                       (st, w2) \<Rightarrow> (True, (setf a c)\<lparr>en_state := st\<rparr>, w2))))"

definition client_connect ::
  "'k os \<Rightarrow> inet \<Rightarrow> proto \<Rightarrow> string \<Rightarrow> size_t \<Rightarrow> nat option \<Rightarrow> nat option \<Rightarrow> nat option
   \<Rightarrow> 'p client \<Rightarrow> 'k world \<Rightarrow> bool \<times> 'p client \<times> 'k world" where
  "client_connect K N pr remote_address remote_port onc onr ond c w =
     (let first = (\<not> w_connect_static w (is_connectionless pr));
          w0 = w\<lparr>w_connect_static := (w_connect_static w)(is_connectionless pr := True)\<rparr>;
          parsed = from_string_and_port N (w_junk w) remote_address remote_port;
          setf = (\<lambda>a. set_fields a onc onr ond)
      in case en_state c of
           StActive _ \<Rightarrow>
             (case parsed of
                None \<Rightarrow> (False, c, w0)
              | Some a \<Rightarrow> if first then (True, setf a c, w0) else (True, c, mark_ub DanglingCapture w0))
         | StIdle sock \<Rightarrow>
             (if is_connectionless pr then (False, c, w0)
              else (case sock of
                      None \<Rightarrow> (False, c, w0)
                    | Some s \<Rightarrow>
                        connect_closure (socket_connect K) (\<lambda>x. StIdle (Some x)) K first parsed setf s c w0))
         | StBinded s \<Rightarrow> connect_closure (binded_connect K) StBinded K first parsed setf s c w0
         | StListening _ \<Rightarrow> (False, c, w0))"

subsection \<open>Sending and receiving\<close>

definition client_again_or_would_block :: "'p client \<Rightarrow> 'k world \<Rightarrow> bool" where
  "client_again_or_would_block c w =
     (case en_state c of StActive s \<Rightarrow> again w \<or> active_would_block w | _ \<Rightarrow> True)"

definition client_finished_recv :: "'p client \<Rightarrow> 'k world \<Rightarrow> bool" where
  "client_finished_recv c w = client_again_or_would_block c w"

definition client_finished_send :: "'p client \<Rightarrow> 'k world \<Rightarrow> bool" where
  "client_finished_send c w = client_again_or_would_block c w"

definition client_recv ::
  "'k os \<Rightarrow> proto \<Rightarrow> 'p client \<Rightarrow> byte list \<Rightarrow> size_t \<Rightarrow> 'k world
   \<Rightarrow> (in_address_port_t \<times> size_t) option \<times> byte list \<times> 'k world" where
  "client_recv K pr c buffer n w =
     (case en_state c of
        StActive sock \<Rightarrow>
          (if is_connectionless pr then receive_less K sock buffer n 0 w
           else (case receive_conn K sock buffer n 0 w of
                   (None, buf, w1) \<Rightarrow> (None, buf, w1)
                 | (Some r, buf, w1) \<Rightarrow>
                     (case cl_remote c of
                        Some a \<Rightarrow> (Some (a, r), buf, w1)
                      | None \<Rightarrow> (None, buf, mark_ub EmptyOptional w1))))
      | _ \<Rightarrow> (None, buffer, w))"

definition client_send ::
  "'k os \<Rightarrow> proto \<Rightarrow> 'p client \<Rightarrow> byte list \<Rightarrow> size_t \<Rightarrow> 'k world \<Rightarrow> size_t option \<times> 'k world" where
  "client_send K pr c buffer n w =
     (case (en_state c, cl_remote c) of
        (StActive sock, Some a) \<Rightarrow>
          (if is_connectionless pr then send_less K sock a buffer n 0 w
           else send_conn K sock buffer n 0 w)
      | _ \<Rightarrow> (None, w))"

end
