(* ===== verification/Client_Safety.thy ===== *)
theory Client_Safety
  imports Client
begin

section \<open>The client endpoint is safe\<close>

text \<open>
  What every program over a client does: the type invariant of its state, the descriptors it owns,
  the undefined behaviour it stays clear of and the callbacks it makes. A program is a sequence of
  calls on one client and of runs of \<^verbatim>\<open>proceed\<close>, in which the poll decides which events arrive
  and the callbacks of the application act on the client through \<open>A\<close>.
\<close>

subsection \<open>Programs\<close>

datatype client_op =
  CStart
| CStartAt string size_t
| CStop
| CConnect string size_t "nat option" "nat option" "nat option"
| CSend "byte list" size_t
| CRecv "byte list" size_t
| CProceed int

fun client_step ::
  "'k os \<Rightarrow> inet \<Rightarrow> ('p, 'k world) poll_traits \<Rightarrow> ('p, 'k) client_app \<Rightarrow> proto \<Rightarrow> client_op
   \<Rightarrow> 'p client \<times> 'k world \<Rightarrow> 'p client \<times> 'k world" where
  "client_step K N PT A pr CStart (c, w) = snd (client_start K PT pr c w)"
| "client_step K N PT A pr (CStartAt addr prt) (c, w) = snd (client_start_at K N PT pr addr prt c w)"
| "client_step K N PT A pr CStop (c, w) = client_stop K PT c w"
| "client_step K N PT A pr (CConnect addr prt onc onr ond) (c, w) =
     snd (client_connect K N pr addr prt onc onr ond c w)"
| "client_step K N PT A pr (CSend buf n) (c, w) = (c, snd (client_send K pr c buf n w))"
| "client_step K N PT A pr (CRecv buf n) (c, w) = (c, snd (snd (client_recv K pr c buf n w)))"
| "client_step K N PT A pr (CProceed t) (c, w) = snd (client_proceed PT A t (c, w))"

definition client_run ::
  "'k os \<Rightarrow> inet \<Rightarrow> ('p, 'k world) poll_traits \<Rightarrow> ('p, 'k) client_app \<Rightarrow> proto \<Rightarrow> client_op list
   \<Rightarrow> 'p client \<times> 'k world \<Rightarrow> 'p client \<times> 'k world" where
  "client_run K N PT A pr ops s = fold (client_step K N PT A pr) ops s"

text \<open>
  What a callback may do. The handlers run under the client's mutex and the observer's lock, so a
  callback that starts or stops the client waits for itself; what is left are the operations that
  take no lock and do not change the client, sending, receiving and asking whether either is
  finished, and calls of its own that leave descriptors alone. It may throw.
\<close>

definition app_ok :: "'k os \<Rightarrow> ('p, 'k) client_app \<Rightarrow> bool" where
  "app_ok K A \<longleftrightarrow>
     (\<forall>cb c w ex c' w'. app_call A cb (c, w) = (ex, (c', w')) \<longrightarrow>
        c' = c \<and> via K quiet w w' \<and> adds benign w w')
   \<and> (\<forall>cb evs c w ex c' w'. app_unhandled A cb evs (c, w) = (ex, (c', w')) \<longrightarrow>
        c' = c \<and> via K quiet w w' \<and> adds benign w w')"

text \<open>The poll, too, makes no callback and keeps to its own memory.\<close>

definition poll_benign :: "('p, 'k world) poll_traits \<Rightarrow> bool" where
  "poll_benign PT \<longleftrightarrow>
     (\<forall>p t w. adds benign w (snd (pt_proceed PT p t w)))
   \<and> (\<forall>p fd op w. adds benign w (snd (pt_add PT p fd op w)))
   \<and> (\<forall>p fd w. adds benign w (snd (pt_del PT p fd w)))"

lemma is_epoll_benign: "is_epoll e \<Longrightarrow> benign e"
  by (cases e rule: is_epoll.cases) auto

lemma epoll_benign: "poll_benign (epoll_traits K)"
  unfolding poll_benign_def epoll_traits_simps
  by (intro conjI allI adds_mono [OF epoll_proceed_adds] adds_mono [OF epoll_adds(2)]
      adds_mono [OF epoll_adds(4)] is_epoll_benign)

subsection \<open>The cases of each operation\<close>

lemma socket_dtor_moved [simp]: "socket_dtor K (s\<lparr>s_impl := snd (move_impl i)\<rparr>) w = w"
  by (simp add: socket_dtor_def destroy_impl_def impl_empty_def)

lemma client_start_cases:
  assumes "client_start K PT pr c w = (b, c', w')"
  obtains (busy) "\<not> idle c" "\<not> b" "c' = c" "w' = w"
  | (failed) "idle c" "socket_create K pr (en_af c) w = (None, w')" "\<not> b" "c' = c"
  | (started) s w1 ok w2 st where "idle c" "b" "socket_create K pr (en_af c) w = (Some s, w1)"
      "pt_add PT (en_poll c) (impl_fd (s_impl s)) op_READ_WRITE w1 = (ok, w2)"
      "assign_state K (en_state c) (StIdle (Some s)) w2 = (st, w')"
      "c' = (client_register_cbs c)\<lparr>en_state := st\<rparr>"
proof -
  obtain sock w1 where created: "socket_create K pr (en_af c) w = (sock, w1)" by fastforce
  show ?thesis
  proof (cases sock)
    case None
    with assms created show ?thesis
      by (cases "idle c") (auto simp: client_start_def intro: busy failed)
  next
    case (Some s)
    obtain ok w2 where added: "pt_add PT (en_poll c) (impl_fd (s_impl s)) op_READ_WRITE w1 = (ok, w2)"
      by fastforce
    obtain st w3 where assigned: "assign_state K (en_state c) (StIdle (Some s)) w2 = (st, w3)"
      by fastforce
    show ?thesis
    proof (cases "idle c")
      case True
      with assms created Some added assigned have "b" "w' = w3" "c' = (client_register_cbs c)\<lparr>en_state := st\<rparr>"
        by (auto simp: client_start_def Let_def)
      with True created Some added assigned show ?thesis by (auto intro: started)
    next
      case False
      with assms show ?thesis by (auto simp: client_start_def intro: busy)
    qed
  qed
qed

lemma adds_benign_impl:
  "impl_bind K s l w = (ok, w1) \<Longrightarrow> adds benign w w1"
  "impl_listen K s mc w = (ok, w1) \<Longrightarrow> adds benign w w1"
  "impl_send K s buf n fl w = (sent, w1) \<Longrightarrow> adds benign w w1"
  "impl_send_to K s a buf n fl w = (sent, w1) \<Longrightarrow> adds benign w w1"
  "impl_receive K s buf n fl w = (rcvd, buf', w1) \<Longrightarrow> adds benign w w1"
  by (auto simp: impl_bind_def bind_addr_def impl_listen_def
      impl_send_def impl_send_to_def send_to_impl_def impl_receive_def Let_def
      split: if_splits option.splits prod.splits intro: adds_do_sys)

lemma adds_benign_parse:
  "adds benign w w1 \<Longrightarrow> parse_addr4 obj w1 = (a, w2) \<Longrightarrow> adds benign w w2"
  "adds benign w w1 \<Longrightarrow> parse_addr6 obj w1 = (a, w2) \<Longrightarrow> adds benign w w2"
  by (auto simp: parse_addr4_def parse_addr6_def copy_out_def Let_def split: if_splits
      intro: adds_trans adds_mark_ub)
    (auto simp: mark_ubs_def intro!: adds_trans [of benign w w1] adds_trans [OF adds_mark_ub adds_mark_ub] adds_mark_ub)

lemma adds_benign_receive_from:
  "impl_receive_from K s buf n fl w = (rcvd, buf', w1) \<Longrightarrow> adds benign w w1"
  by (auto simp: impl_receive_from_def recv_from_impl_def
      split: if_splits option.splits prod.splits intro: adds_do_sys
      adds_benign_parse [OF adds_do_sys])

lemma bind_any_cases:
  assumes "bind_any K pr s l w = (res, s', w1)"
  shows "via K quiet w w1 \<and> adds benign w w1 \<and>
    (case res of
       Some st \<Rightarrow> state_fds st = impl_fds (s_impl s) \<and> state_fd st = impl_fd (s_impl s)
         \<and> impl_fds (s_impl s') = {} \<and> (\<forall>x. st \<noteq> StIdle x) \<and> (\<forall>x. st \<noteq> StListening x)
         \<and> (is_connectionless pr \<longleftrightarrow> (\<exists>x. st = StActive x))
     | None \<Rightarrow> s' = s)"
  using assms
  by (auto simp: bind_any_def bind_conn_def bind_less_def binded_ctor_def active_ctor_def move_impl_def
      impl_fds_def impl_fd_def split: if_splits prod.splits
      dest: via_impl(1) adds_benign_impl(1))

lemma no_fds_dtor: "impl_fds (s_impl s) = {} \<Longrightarrow> socket_dtor K s w = w"
  by (simp add: socket_dtor_def destroy_impl_def impl_empty_def impl_fds_def)

lemma client_start_at_cases:
  assumes "client_start_at K N PT pr addr prt c w = (b, c', w')"
  obtains (rejected) "\<not> b" "c' = c" "w' = w"
  | (failed) "idle c" "socket_create K pr (en_af c) w = (None, w')" "\<not> b" "c' = c"
  | (unbound) s w1 address w2 where "idle c" "socket_create K pr (en_af c) w = (Some s, w1)"
      "bind_any K pr s address w1 = (None, s, w2)" "w' = socket_dtor K s w2" "\<not> b" "c' = c"
  | (started) s w1 address sock s' w2 ok w3 st where "idle c" "b"
      "socket_create K pr (en_af c) w = (Some s, w1)"
      "bind_any K pr s address w1 = (Some sock, s', w2)"
      "pt_add PT (en_poll c) (state_fd sock) op_READ_WRITE w2 = (ok, w3)"
      "assign_state K (en_state c) sock w3 = (st, w')"
      "c' = (client_register_cbs c)\<lparr>en_state := st\<rparr>"
proof (cases "if idle c then from_string_and_port N (w_junk w) addr prt else None")
  case None
  with assms show ?thesis by (auto simp: client_start_at_def intro: rejected)
next
  case (Some address)
  then have idle: "idle c" by (simp split: if_splits)
  obtain created w1 where created: "socket_create K pr (en_af c) w = (created, w1)" by fastforce
  show ?thesis
  proof (cases created)
    case None
    with assms Some created show ?thesis
      by (auto simp: client_start_at_def intro: failed [OF idle])
  next
    case s: (Some s)
    obtain res s' w2 where bound: "bind_any K pr s address w1 = (res, s', w2)"
      using prod_cases3 by blast
    show ?thesis
    proof (cases res)
      case None
      then have "s' = s" using bind_any_cases [OF bound] by simp
      with None assms Some created s bound show ?thesis
        by (auto simp: client_start_at_def intro: unbound [OF idle])
    next
      case sock: (Some sock)
      obtain ok w3 where added: "pt_add PT (en_poll c) (state_fd sock) op_READ_WRITE w2 = (ok, w3)"
        by fastforce
      obtain st w4 where assigned: "assign_state K (en_state c) sock w3 = (st, w4)" by fastforce
      have "socket_dtor K s' w2 = w2" using bind_any_cases [OF bound] sock by (simp add: no_fds_dtor)
      with assms Some created s bound sock added assigned
      have "b" "w' = w4" "c' = (client_register_cbs c)\<lparr>en_state := st\<rparr>"
        by (simp_all add: client_start_at_def Let_def)
      with created s bound sock added assigned show ?thesis by (auto intro: started [OF idle])
    qed
  qed
qed

subsection \<open>Connecting a socket or a bound socket\<close>

lemma no_fds_state_dtor: "state_fds st = {} \<Longrightarrow> state_dtor K st w = w"
  by (cases "(K, st, w)" rule: state_dtor.cases)
    (simp_all add: socket_dtor_def binded_dtor_def listening_dtor_def active_dtor_def destroy_impl_def
      impl_empty_def impl_fds_def)

text \<open>
  The closure of \<^verbatim>\<open>connect\<close> is generic in the socket it is applied to. The interface it needs: a
  connect operation that hands the descriptor over on success and keeps the object on failure.
\<close>

fun is_connect :: "event \<Rightarrow> bool" where
  "is_connect (Sys (SysConnect fd sa) r e) = True"
| "is_connect _ = False"

lemma is_connect_benign: "is_connect e \<Longrightarrow> benign e"
  by (cases e rule: is_connect.cases) auto

locale connector =
  fixes K :: "'k os"
    and sock_connect :: "'s \<Rightarrow> in_address_port_t \<Rightarrow> 'k world \<Rightarrow> active_socket_t option \<times> 's \<times> 'k world"
    and wrap :: "'s \<Rightarrow> sock_state"
  assumes not_active: "wrap der \<noteq> StActive x"
    and hands_over: "sock_connect der a w = (Some act, der', w1) \<Longrightarrow>
      state_fds (StActive act) = state_fds (wrap der) \<and> state_fd (StActive act) = state_fd (wrap der)
      \<and> state_fds (wrap der') = {}"
    and keeps: "sock_connect der a w = (None, der', w1) \<Longrightarrow> der' = der"
    and connect_quiet: "sock_connect der a w = (res, der', w1) \<Longrightarrow> via K quiet w w1"
    and connect_calls: "sock_connect der a w = (res, der', w1) \<Longrightarrow> state_fds (wrap der) \<noteq> {} \<Longrightarrow>
      adds is_connect w w1"
    and accepted: "sock_connect der a w = (Some act, der', w1) \<Longrightarrow>
      \<exists>sa r e. w_trace w1 = Sys (SysConnect (state_fd (wrap der)) sa) r e # w_trace w
        \<and> (r = 0 \<or> e = EINPROGRESS)"
    and keeps_static: "sock_connect der a w = (res, der', w1) \<Longrightarrow> w_connect_static w1 = w_connect_static w"
begin

lemma closure_cases:
  assumes "connect_closure sock_connect wrap K first parsed setf sock c w = (b, c', w')"
    and "en_state c = wrap sock" and "state_fds (wrap sock) \<noteq> {}"
  shows "via K quiet w w' \<and> adds (\<lambda>e. is_connect e \<or> (e = Ub DanglingCapture \<and> \<not> first)) w w'
    \<and> (\<not> b \<longrightarrow> c' = c)
    \<and> (b \<longrightarrow> first \<and> (\<exists>a act. parsed = Some a \<and> c' = (setf a c)\<lparr>en_state := StActive act\<rparr>
        \<and> state_fds (StActive act) = state_fds (en_state c)
        \<and> state_fd (StActive act) = state_fd (en_state c)))"
proof (cases "first \<and> parsed \<noteq> None")
  case False
  with assms show ?thesis
    by (auto simp: connect_closure_def intro: via_intros adds_mark_ub split: if_splits)
next
  case True
  then obtain a where a: "parsed = Some a" by auto
  obtain res der' w1 where sc: "sock_connect sock a w = (res, der', w1)"
    using prod_cases3 by blast
  show ?thesis
  proof (cases res)
    case None
    with sc keeps have "der' = sock" by blast
    with assms True a sc None connect_quiet [OF sc] adds_mono [OF connect_calls [OF sc]] show ?thesis
      by (auto simp: connect_closure_def)
  next
    case (Some act)
    with sc hands_over have h: "state_fds (StActive act) = state_fds (wrap sock)"
      "state_fd (StActive act) = state_fd (wrap sock)" "state_fds (wrap der') = {}" by blast+
    have "\<not> same_alternative (wrap der') (StActive act)"
      using not_active by (cases "wrap der'") auto
    then have "assign_state K (wrap der') (StActive act) w1 = (StActive act, w1)"
      using h(3) by (simp add: assign_state_other no_fds_state_dtor)
    with assms True a sc Some h connect_quiet [OF sc] adds_mono [OF connect_calls [OF sc]] show ?thesis
      by (auto simp: connect_closure_def)
  qed
qed

lemma closure_connected:
  assumes "connect_closure sock_connect wrap K first parsed setf sock c w = (True, c', w')"
  shows "\<exists>sa r e. w_trace w' = Sys (SysConnect (state_fd (wrap sock)) sa) r e # w_trace w
    \<and> (r = 0 \<or> e = EINPROGRESS)"
proof -
  obtain a where a: "parsed = Some a" "first"
    using assms by (auto simp: connect_closure_def split: if_splits option.splits)
  obtain res der' w1 where sc: "sock_connect sock a w = (res, der', w1)"
    using prod_cases3 by blast
  obtain act where act: "res = Some act"
    using assms a sc by (cases res) (auto simp: connect_closure_def)
  have "\<not> same_alternative (wrap der') (StActive act)"
    using not_active by (cases "wrap der'") auto
  then have "w' = w1"
    using assms a sc act hands_over [OF sc [unfolded act]]
    by (simp add: connect_closure_def assign_state_other no_fds_state_dtor)
  with accepted [OF sc [unfolded act]] show ?thesis by simp
qed

lemma closure_static:
  assumes "connect_closure sock_connect wrap K first parsed setf sock c w = (b, c', w')"
  shows "w_connect_static w' = w_connect_static w"
proof (cases "first \<and> parsed \<noteq> None")
  case False
  with assms show ?thesis by (auto simp: connect_closure_def split: if_splits)
next
  case True
  then obtain a where a: "parsed = Some a" by auto
  obtain res der' w1 where sc: "sock_connect sock a w = (res, der', w1)"
    using prod_cases3 by blast
  show ?thesis
  proof (cases res)
    case None
    with assms a True sc keeps_static [OF sc] show ?thesis by (simp add: connect_closure_def)
  next
    case (Some act)
    have "\<not> same_alternative (wrap der') (StActive act)"
      using not_active by (cases "wrap der'") auto
    then have "w' = w1"
      using assms a True sc Some hands_over [OF sc [unfolded Some]]
      by (simp add: connect_closure_def assign_state_other no_fds_state_dtor)
    with keeps_static [OF sc] show ?thesis by simp
  qed
qed

end

lemma impl_connect_calls: "impl_connect K s l w = (ok, w1) \<Longrightarrow> si_fd s \<noteq> None \<Longrightarrow> adds is_connect w w1"
  by (auto simp: impl_connect_def connect_addr_def split: if_splits option.splits prod.splits
      intro: adds_do_sys)

lemma impl_connect_accepted:
  "impl_connect K s l w = (True, w1) \<Longrightarrow>
     \<exists>sa r e. w_trace w1 = Sys (SysConnect (impl_fd s) sa) r e # w_trace w \<and> (r = 0 \<or> e = EINPROGRESS)"
  by (drule impl_connect_trace) (auto simp: impl_fd_def)

lemma impl_connect_static: "impl_connect K s l w = (ok, w1) \<Longrightarrow> w_connect_static w1 = w_connect_static w"
  by (auto simp: impl_connect_def connect_addr_def split: if_splits option.splits prod.splits
      dest: do_sys_frame(2))

interpretation of_socket: connector K "socket_connect K" "\<lambda>x. StIdle (Some x)" for K
  by unfold_locales
    (auto simp: socket_connect_def active_ctor_def move_impl_def impl_fds_def impl_fd_def
      split: if_splits prod.splits dest: via_impl(2) impl_connect_calls impl_connect_accepted impl_connect_static)

interpretation of_binded: connector K "binded_connect K" StBinded for K
  by unfold_locales
    (auto simp: binded_connect_def active_ctor_def move_impl_def impl_fds_def impl_fd_def
      split: if_splits prod.splits dest: via_impl(2) impl_connect_calls impl_connect_accepted impl_connect_static)

subsection \<open>The type invariant\<close>

text \<open>
  Beyond the alternatives of the variant: a socket that the state holds has its descriptor, an
  active connection knows its peer, only the client's own handlers are registered, and all of them
  while there is a socket.
\<close>

definition client_ok :: "proto \<Rightarrow> 'p client \<Rightarrow> bool" where
  "client_ok pr c \<longleftrightarrow>
     client_state pr (en_state c)
   \<and> (en_state c \<noteq> StIdle None \<longrightarrow> state_fds (en_state c) \<noteq> {})
   \<and> ((\<exists>s. en_state c = StActive s) \<and> \<not> is_connectionless pr \<longrightarrow> cl_remote c \<noteq> None)
   \<and> ob_handlers (en_obs c) \<subseteq>\<^sub>m client_handlers
   \<and> (en_state c \<noteq> StIdle None \<longrightarrow> ob_handlers (en_obs c) = client_handlers)"

lemma client_ok_ctor: "client_ok pr (client_ctor p af u)"
  by (simp add: client_ok_def client_ctor_def endpoint_ctor_def observer_ctor_def endpoint.defs)

lemma client_connect_cases:
  assumes "client_connect K N pr addr prt onc onr ond c w = (b, c', w')" and "client_ok pr c"
  shows "via K quiet w w'
    \<and> adds (\<lambda>e. is_connect e \<or> (e = Ub DanglingCapture \<and> w_connect_static w (is_connectionless pr))) w w'
    \<and> (c' = c \<or>
       (\<not> w_connect_static w (is_connectionless pr) \<and> b
        \<and> (\<exists>a act. from_string_and_port N (w_junk w) addr prt = Some a
             \<and> c' = (set_fields a onc onr ond c)\<lparr>en_state := StActive act\<rparr>
             \<and> state_fds (StActive act) = state_fds (en_state c)
             \<and> state_fd (StActive act) = state_fd (en_state c)
             \<and> (is_connectionless pr \<longrightarrow> en_state c = StActive act))))"
proof -
  define first where "first = (\<not> w_connect_static w (is_connectionless pr))"
  define w0 where "w0 = w\<lparr>w_connect_static := (w_connect_static w)(is_connectionless pr := True)\<rparr>"
  define parsed where "parsed = from_string_and_port N (w_junk w) addr prt"
  define setf where "setf = (\<lambda>a. set_fields a onc onr ond :: 'a client \<Rightarrow> 'a client)"
  define P where "P = (\<lambda>e. is_connect e \<or> (e = Ub DanglingCapture \<and> \<not> first))"
  have w0: "via K quiet w w0" "adds P w w0" by (simp_all add: w0_def via_static via_refl)
  note step = assms(1) [unfolded client_connect_def Let_def, folded w0_def first_def parsed_def,
      folded setf_def]
  have P: "P = (\<lambda>e. is_connect e \<or> (e = Ub DanglingCapture \<and> w_connect_static w (is_connectionless pr)))"
    by (simp add: P_def first_def)
  have lift: "via K quiet w w' \<and> adds P w w'"
    if "via K quiet w0 w' \<and> adds P w0 w'" for w'
    using that w0 by (blast intro: via_trans adds_trans)
  have ok: "en_state c \<noteq> StIdle None \<Longrightarrow> state_fds (en_state c) \<noteq> {}"
    using assms(2) by (simp add: client_ok_def)
  show ?thesis
  proof (cases "en_state c")
    case (StIdle sock)
    show ?thesis
    proof (cases "is_connectionless pr \<or> sock = None")
      case True
      with step StIdle w0 show ?thesis unfolding P [symmetric] by (auto split: if_splits)
    next
      case False
      then obtain s where s: "sock = Some s" by auto
      from step StIdle s False
      have cl: "connect_closure (socket_connect K) (\<lambda>x. StIdle (Some x)) K first parsed setf s c w0 = (b, c', w')"
        by simp
      from of_socket.closure_cases [OF cl, folded P_def] StIdle s ok False lift show ?thesis
        unfolding P [symmetric] unfolding first_def parsed_def setf_def by auto
    qed
  next
    case (StBinded s)
    with step have cl: "connect_closure (binded_connect K) StBinded K first parsed setf s c w0 = (b, c', w')"
      by simp
    have "\<not> is_connectionless pr" using StBinded assms(2) by (simp add: client_ok_def)
    with of_binded.closure_cases [OF cl, folded P_def] StBinded ok lift show ?thesis
      unfolding P [symmetric] unfolding first_def parsed_def setf_def by auto
  next
    case (StListening s)
    with assms(2) show ?thesis by (simp add: client_ok_def)
  next
    case (StActive s)
    then have same: "(set_fields a onc onr ond c)\<lparr>en_state := StActive s\<rparr> = set_fields a onc onr ond c" for a
      by (cases c) (simp add: set_fields_def)
    show ?thesis
    proof (cases "parsed \<noteq> None \<and> first")
      case False
      have "adds P w (mark_ub DanglingCapture w0)" if "\<not> first"
        using w0(2) that by (auto simp: P_def intro: adds_trans adds_mark_ub)
      with False step w0 StActive show ?thesis
        unfolding P [symmetric] by (auto split: option.splits if_splits intro: via_ub)
    next
      case True
      then obtain a where a: "parsed = Some a" by auto
      with step True StActive have "b" "c' = set_fields a onc onr ond c" "w' = w0"
        by (simp_all add: setf_def)
      moreover from this have "c' = (set_fields a onc onr ond c)\<lparr>en_state := StActive s\<rparr>"
        by (simp only: same)
      moreover have "\<not> w_connect_static w (is_connectionless pr)"
        "from_string_and_port N (w_junk w) addr prt = Some a"
        using a True by (simp_all add: first_def parsed_def)
      ultimately show ?thesis
        unfolding P [symmetric] using w0 by (intro conjI impI disjI2 exI [of _ a] exI [of _ s]) (assumption | simp add: StActive)+
    qed
  qed
qed

lemma client_ok_connect:
  assumes "client_connect K N pr addr prt onc onr ond c w = (b, c', w')" and "client_ok pr c"
  shows "client_ok pr c' \<and> state_fds (en_state c') = state_fds (en_state c)
    \<and> state_fd (en_state c') = state_fd (en_state c)"
proof -
  have "client_ok pr c'" if "c' = (set_fields a onc onr ond c)\<lparr>en_state := StActive act\<rparr>"
    "state_fds (StActive act) = state_fds (en_state c)"
    "is_connectionless pr \<longrightarrow> en_state c = StActive act"
    "b" for a act
  proof -
    have "en_state c \<noteq> StIdle None"
    proof
      assume "en_state c = StIdle None"
      with assms(1) show False using \<open>b\<close> by (simp add: client_connect_def Let_def split: if_splits)
    qed
    with that assms(2) show ?thesis by (auto simp: client_ok_def set_fields_def)
  qed
  with client_connect_cases [OF assms] assms(2) show ?thesis
    by (elim conjE disjE exE) (simp_all del: state_fds.simps state_fd.simps)
qed

lemma client_ok_assign:
  assumes "client_ok pr c" and "state_fds new \<noteq> {}" and "client_state pr new"
    and "(\<exists>s. new = StActive s) \<longrightarrow> is_connectionless pr"
    and "assign_state K (en_state c) new w = (st, w')"
  shows "client_ok pr ((client_register_cbs c)\<lparr>en_state := st\<rparr>)"
proof -
  have "ob_handlers (en_obs (client_register_cbs c)) = client_handlers"
    using assms(1) by (simp add: client_ok_def register_cbs_handlers)
  moreover have "state_fds st = state_fds new" using assms(5) by (rule assign_state_fds)
  moreover have "client_state pr st \<and> ((\<exists>s. st = StActive s) \<longrightarrow> is_connectionless pr)"
    using assms(3-5) by (cases "(K, en_state c, new, w)" rule: assign_state.cases) auto
  ultimately show ?thesis
    using assms(2) by (auto simp: client_ok_def)
qed

lemma created_has_fd:
  "socket_create K pr af w = (Some s, w1) \<Longrightarrow> state_fds (StIdle (Some s)) \<noteq> {}"
  by (drule socket_create_trace) (auto simp: impl_fds_def socket_impl_ctor_def split: if_splits)

lemma client_ok_start:
  assumes "client_start K PT pr c w = (b, c', w')" and "client_ok pr c"
  shows "client_ok pr c'"
  using assms(1)
proof (cases rule: client_start_cases)
  case (started s w1 ok w2 st)
  from client_ok_assign [OF assms(2) created_has_fd [OF started(3)] _ _ started(5)] started
  show ?thesis by simp
qed (use assms(2) in simp_all)

lemma client_ok_start_at:
  assumes "client_start_at K N PT pr addr prt c w = (b, c', w')" and "client_ok pr c"
  shows "client_ok pr c'"
  using assms(1)
proof (cases rule: client_start_at_cases)
  case (started s w1 address sock s' w2 ok w3 st)
  from bind_any_cases [OF started(4)] created_has_fd [OF started(3)]
  have "state_fds sock \<noteq> {}" "client_state pr sock" "(\<exists>s. sock = StActive s) \<longrightarrow> is_connectionless pr"
    by (cases sock; auto)+
  from client_ok_assign [OF assms(2) this started(6)] started show ?thesis by simp
qed (use assms(2) in simp_all)

lemma client_stop_eq:
  assumes "client_stop K PT c w = (c', w')"
  obtains ok w1 where "pt_del PT (en_poll c) (get_fd c) w = (ok, w1)"
    "w' = state_dtor K (en_state c) w1" "c' = client_unregister_cbs (c\<lparr>en_state := StIdle None\<rparr>)"
  using assms by (auto simp: client_stop_def split: prod.splits)

lemma client_ok_stop:
  assumes "client_stop K PT c w = (c', w')" and "client_ok pr c"
  shows "client_ok pr c'"
proof -
  have "ob_handlers (en_obs c) \<subseteq>\<^sub>m client_handlers" using assms(2) by (simp add: client_ok_def)
  then have "ob_handlers (en_obs (client_unregister_cbs (c\<lparr>en_state := StIdle None\<rparr>))) \<subseteq>\<^sub>m client_handlers"
    unfolding unregister_cbs_handlers by (simp add: map_le_upd_None)
  moreover have "c' = client_unregister_cbs (c\<lparr>en_state := StIdle None\<rparr>)"
    using client_stop_eq [OF assms(1)] by metis
  ultimately show ?thesis by (simp add: client_ok_def)
qed

subsection \<open>What handlers and events change\<close>

definition sound :: "event \<Rightarrow> bool" where
  "sound e \<longleftrightarrow> e \<noteq> Ub EmptyOptional \<and> e \<noteq> Ub DanglingCapture"

lemma sound_benign: "benign e \<Longrightarrow> sound e"
  by (cases e) (auto simp: sound_def)

lemma sound_upcall [simp]: "sound (Upcall cb)"
  by (simp add: sound_def)

definition same_endpoint :: "'p client \<Rightarrow> 'p client \<Rightarrow> bool" where
  "same_endpoint c c' \<longleftrightarrow>
     en_state c' = en_state c \<and> en_obs c' = en_obs c \<and> en_poll c' = en_poll c
     \<and> en_af c' = en_af c \<and> cl_remote c' = cl_remote c"

lemma app_okD:
  assumes "app_ok K A"
  shows "call_app A cb (c, w) = (ex, (c', w')) \<Longrightarrow>
      c' = c \<and> via K quiet w w' \<and> adds (\<lambda>e. benign e \<or> e = Upcall cb) w w'"
    and "client_unhandled A cb evs (c, w) = (ex, (c', w')) \<Longrightarrow>
      c' = c \<and> via K quiet w w' \<and> adds (\<lambda>e. benign e \<or> e = Upcall cb) w w'"
proof -
  have up: "via K quiet w (upcall cb w)" "adds (\<lambda>e. benign e \<or> e = Upcall cb) w (upcall cb w)" for w
    by (simp_all add: via_refl via_upcall adds_upcall)
  show "c' = c \<and> via K quiet w w' \<and> adds (\<lambda>e. benign e \<or> e = Upcall cb) w w'"
    if "call_app A cb (c, w) = (ex, (c', w'))"
  proof -
    from that assms have "c' = c" "via K quiet (upcall cb w) w'" "adds benign (upcall cb w) w'"
      by (auto simp: app_ok_def call_app_def)
    with up show ?thesis by (blast intro: via_trans adds_trans adds_mono [of benign])
  qed
  show "c' = c \<and> via K quiet w w' \<and> adds (\<lambda>e. benign e \<or> e = Upcall cb) w w'"
    if "client_unhandled A cb evs (c, w) = (ex, (c', w'))"
  proof -
    from that assms have "c' = c" "via K quiet (upcall cb w) w'" "adds benign (upcall cb w) w'"
      by (auto simp: app_ok_def client_unhandled_def)
    with up show ?thesis by (blast intro: via_trans adds_trans adds_mono [of benign])
  qed
qed

text \<open>
  One handler: it may take the client out of the poll, make one callback, and clear it.
\<close>

lemma client_call_cases:
  assumes "client_call PT A h fd (c, w) = (ex, (c', w'))" and "app_ok K A" and "poll_benign PT"
    and "\<And>p fd w ok w1. pt_del PT p fd w = (ok, w1) \<Longrightarrow> via K quiet w w1"
  obtains (nothing) "c' = c" "via K quiet w w'" "adds benign w w'"
  | (connected) cb where "h = WriteReady" "cl_on_connect c = Some cb" "via K quiet w w'"
      "adds (\<lambda>e. benign e \<or> e = Upcall cb) w w'"
      "(ex = None \<and> c' = c\<lparr>cl_on_connect := None\<rparr>) \<or> (ex \<noteq> None \<and> c' = c)"
  | (readable) cb where "h = ReadReady" "cl_on_read_ready c = Some cb" "via K quiet w w'"
      "adds (\<lambda>e. benign e \<or> e = Upcall cb) w w'" "c' = c"
  | (disconnected) cb w1 where "h = Erase" "cl_on_disconnect c = Some cb" "via K quiet w w'"
      "adds benign w w1" "call_app A cb (c, w1) = (ex, (c, w'))"
      "(ex = None \<and> c' = c\<lparr>cl_on_disconnect := None\<rparr>) \<or> (ex \<noteq> None \<and> c' = c)"
proof (cases "fd = get_fd c")
  case False
  with assms(1) have "c' = c" "w' = w" by (cases h; simp)+
  show ?thesis by (rule nothing) (simp_all add: \<open>c' = c\<close> \<open>w' = w\<close> via_refl)
next
  case fd: True
  show ?thesis
  proof (cases h)
    case Erase
    obtain ok w1 where del: "pt_del PT (en_poll c) fd w = (ok, w1)" by fastforce
    have ad: "adds benign w w1" using assms(3) del by (metis poll_benign_def snd_conv)
    show ?thesis
    proof (cases "cl_on_disconnect c")
      case None
      with assms(1) Erase fd del have "c' = c" "w' = w1" by simp_all
      show ?thesis
        by (rule nothing) (use ad assms(4) [OF del] \<open>c' = c\<close> \<open>w' = w1\<close> in simp_all)
    next
      case (Some cb)
      obtain ex' c2 w2 where app: "call_app A cb (c, w1) = (ex', (c2, w2))" using prod_cases3 by blast
      note r = app_okD(1) [OF assms(2) app]
      from assms(1) Erase fd del Some app r have "w' = w2" "ex' = ex"
        "(ex = None \<and> c' = c\<lparr>cl_on_disconnect := None\<rparr>) \<or> (ex \<noteq> None \<and> c' = c)"
        by (auto split: option.splits)
      moreover have "via K quiet w w2" using via_trans [OF _ assms(4) [OF del]] r by blast
      ultimately show ?thesis
        by - (rule disconnected [of cb w1], use Erase Some app r ad in auto)
    qed
  next
    case ReadReady
    show ?thesis
    proof (cases "cl_on_read_ready c")
      case None
      with assms(1) ReadReady fd have "c' = c" "w' = w" by simp_all
      show ?thesis by (rule nothing) (simp_all add: \<open>c' = c\<close> \<open>w' = w\<close> via_refl)
    next
      case (Some cb)
      with assms(1) ReadReady fd have "call_app A cb (c, w) = (ex, (c', w'))" by simp
      note r = app_okD(1) [OF assms(2) this]
      show ?thesis by (rule readable [of cb]) (use r ReadReady Some in simp_all)
    qed
  next
    case WriteReady
    show ?thesis
    proof (cases "cl_on_connect c")
      case None
      with assms(1) WriteReady fd have "c' = c" "w' = w" by simp_all
      show ?thesis by (rule nothing) (simp_all add: \<open>c' = c\<close> \<open>w' = w\<close> via_refl)
    next
      case (Some cb)
      obtain ex' c2 w2 where app: "call_app A cb (c, w) = (ex', (c2, w2))" using prod_cases3 by blast
      note r = app_okD(1) [OF assms(2) app]
      from assms(1) WriteReady fd Some app r have "w' = w2"
        "(ex = None \<and> c' = c\<lparr>cl_on_connect := None\<rparr>) \<or> (ex \<noteq> None \<and> c' = c)"
        by (auto split: option.splits)
      then show ?thesis
        by - (rule connected [of cb], use WriteReady Some r in auto)
    qed
  qed
qed

text \<open>
  A run of \<^verbatim>\<open>proceed\<close>: the observer keeps what the poll, the handlers and the callback for
  unhandled events keep. The invariant relates the state to the one before the run.
\<close>

definition poll_ok :: "'k os \<Rightarrow> ('p, 'k world) poll_traits \<Rightarrow> bool" where
  "poll_ok K PT \<longleftrightarrow> poll_contract K PT \<and> poll_benign PT"

lemma epoll_ok: "poll_ok K (epoll_traits K)"
  by (simp add: poll_ok_def ep.poll_contract_axioms epoll_benign)

lemma poll_okD:
  assumes "poll_ok K PT"
  shows "pt_proceed PT p t w = (evs, w1) \<Longrightarrow> via K quiet w w1 \<and> adds benign w w1"
    and "pt_add PT p fd op w = (ok, w1) \<Longrightarrow> via K quiet w w1 \<and> adds benign w w1"
    and "pt_del PT p fd w = (ok, w1) \<Longrightarrow> via K quiet w w1 \<and> adds benign w w1"
  using assms unfolding poll_ok_def poll_benign_def
  by (metis poll_contract.proceed_quiet poll_contract.add_quiet poll_contract.del_quiet snd_conv)+

definition client_moved ::
  "'k os \<Rightarrow> ('p, 'k world) poll_traits \<Rightarrow> ('p, 'k) client_app \<Rightarrow> 'p client \<times> 'k world
   \<Rightarrow> 'p client \<times> 'k world \<Rightarrow> bool" where
  "client_moved K PT A s s' \<longleftrightarrow>
     (app_ok K A \<and> poll_ok K PT \<longrightarrow>
        same_endpoint (fst s) (fst s') \<and> via K quiet (snd s) (snd s') \<and> adds sound (snd s) (snd s'))"

lemma client_moved_trans:
  "client_moved K PT A s0 s1 \<Longrightarrow> client_moved K PT A s1 s2 \<Longrightarrow> client_moved K PT A s0 s2"
  unfolding client_moved_def same_endpoint_def by (metis adds_trans via_trans)

lemma adds_benign_sound: "adds benign w w' \<Longrightarrow> adds sound w w'"
  by (erule adds_mono) (rule sound_benign)

lemma adds_call_sound: "adds (\<lambda>e. benign e \<or> e = Upcall cb) w w' \<Longrightarrow> adds sound w w'"
  by (erule adds_mono) (auto simp: sound_benign)

lemma client_call_moved:
  assumes "client_call PT A h fd s = (ex, s1)"
  shows "client_moved K PT A s s1"
proof (cases "app_ok K A \<and> poll_ok K PT")
  case True
  obtain c w c' w' where s: "s = (c, w)" "s1 = (c', w')" by fastforce
  have "same_endpoint c c' \<and> via K quiet w w' \<and> adds sound w w'"
    using assms [unfolded s] True [THEN conjunct1]
  proof (rule client_call_cases)
    show "poll_benign PT" using True by (simp add: poll_ok_def)
    show "pt_del PT p fd w = (ok, w1) \<Longrightarrow> via K quiet w w1" for p fd w ok w1
      using poll_okD(3) [OF True [THEN conjunct2]] by blast
  next
    assume "c' = c" "via K quiet w w'" "adds benign w w'"
    then show ?thesis by (simp add: same_endpoint_def adds_benign_sound)
  next
    fix cb assume "via K quiet w w'" "adds (\<lambda>e. benign e \<or> e = Upcall cb) w w'"
      "(ex = None \<and> c' = c\<lparr>cl_on_connect := None\<rparr>) \<or> (ex \<noteq> None \<and> c' = c)"
    then show ?thesis by (auto simp: same_endpoint_def adds_call_sound)
  next
    fix cb assume "via K quiet w w'" "adds (\<lambda>e. benign e \<or> e = Upcall cb) w w'" "c' = c"
    then show ?thesis by (auto simp: same_endpoint_def adds_call_sound)
  next
    fix cb w1 assume *: "via K quiet w w'" "adds benign w w1" "call_app A cb (c, w1) = (ex, (c, w'))"
      "(ex = None \<and> c' = c\<lparr>cl_on_disconnect := None\<rparr>) \<or> (ex \<noteq> None \<and> c' = c)"
    have "adds sound w1 w'" using app_okD(1) [OF True [THEN conjunct1] *(3)] by (blast intro: adds_call_sound)
    with * show ?thesis
      by (auto simp: same_endpoint_def intro: adds_trans adds_benign_sound)
  qed
  then show ?thesis by (simp add: client_moved_def s)
qed (auto simp: client_moved_def)

lemma client_unhandled_moved:
  assumes "client_unhandled A cb evs s = (ex, s1)"
  shows "client_moved K PT A s s1"
proof -
  obtain c w c' w' where s: "s = (c, w)" "s1 = (c', w')" by fastforce
  show ?thesis
    using app_okD(2) [of K A, OF _ assms [unfolded s]]
    by (auto simp: client_moved_def s same_endpoint_def adds_call_sound)
qed

lemma client_poll_moved:
  assumes "(case s of (c, w) \<Rightarrow> case pt_proceed PT (en_poll c) t w of (evs, w1) \<Rightarrow> (evs, (c, w1))) = (evs, s1)"
  shows "client_moved K PT A s s1"
  using assms
  by (auto simp: client_moved_def same_endpoint_def split: prod.splits
      dest!: poll_okD(1) intro: adds_benign_sound)

interpretation cl: handler_contract "client_moved K PT A s0"
  "\<lambda>t (c, w). case pt_proceed PT (en_poll c) t w of (evs, w1) \<Rightarrow> (evs, (c, w1))"
  "client_call PT A" "client_unhandled A" obs for K PT A s0 obs
  by unfold_locales
    (blast intro: client_moved_trans client_poll_moved client_call_moved client_unhandled_moved)+

lemma client_proceed_moved:
  assumes "client_proceed PT A t s = (res, s')" and "app_ok K A" and "poll_ok K PT"
  shows "same_endpoint (fst s) (fst s') \<and> via K quiet (snd s) (snd s') \<and> adds sound (snd s) (snd s')"
proof -
  have "client_moved K PT A s s'"
    using assms(1) unfolding client_proceed_def
    by (rule cl.proceed_keeps) (simp add: client_moved_def same_endpoint_def via_refl)
  with assms(2,3) show ?thesis by (simp add: client_moved_def)
qed

subsection \<open>Every step keeps the type invariant and stays sound\<close>

lemma adds_sound_destroy: "adds sound w (destroy_impl K s w)"
  by (auto simp: destroy_impl_def impl_close_def sound_def split: option.splits prod.splits intro: adds_do_sys)

lemma adds_sound_state_dtor: "adds sound w (state_dtor K st w)"
  by (cases "(K, st, w)" rule: state_dtor.cases)
    (simp_all add: adds_sound_destroy socket_dtor_def binded_dtor_def listening_dtor_def active_dtor_def)

lemma adds_sound_assign: "assign_state K old new w = (st, w1) \<Longrightarrow> adds sound w w1"
  by (cases "same_alternative old new")
    (auto simp: assign_state_other adds_sound_state_dtor dest: assign_state_same)

lemma adds_sound_create: "socket_create K pr af w = (res, w1) \<Longrightarrow> adds sound w w1"
  by (drule socket_create_trace) (auto simp: sound_def intro: adds_do_sys)

lemma client_send_quiet:
  assumes "client_send K pr c buf n w = (sent, w1)"
  shows "via K quiet w w1 \<and> adds benign w w1"
  using assms
  by (auto simp: client_send_def send_conn_def send_less_def via_refl
      split: sock_state.splits option.splits if_splits
      dest: via_impl(5,6) adds_benign_impl(3,4))

lemma client_recv_quiet:
  assumes "client_recv K pr c buf n w = (r, buf', w1)"
  shows "via K quiet w w1 \<and> (client_ok pr c \<longrightarrow> adds benign w w1)"
  using assms
  by (auto simp: client_recv_def receive_conn_def receive_less_def via_refl client_ok_def
      split: sock_state.splits option.splits if_splits prod.splits
      dest: via_impl(7) via_recv_from adds_benign_impl(5) adds_benign_receive_from intro: via_ub)

lemma client_start_sound:
  assumes "client_start K PT pr c w = (b, c', w')" and "poll_ok K PT"
  shows "adds sound w w' \<and> en_poll c' = en_poll c"
  using assms(1)
proof (cases rule: client_start_cases)
  case (started s w1 ok w2 st)
  have "adds sound w1 w2" using poll_okD(2) [OF assms(2) started(4)] adds_benign_sound by blast
  then show ?thesis
    using adds_sound_create [OF started(3)] adds_sound_assign [OF started(5)] started(6)
    by (auto intro: adds_trans)
qed (auto dest: adds_sound_create)

lemma client_start_at_sound:
  assumes "client_start_at K N PT pr addr prt c w = (b, c', w')" and "poll_ok K PT"
  shows "adds sound w w' \<and> en_poll c' = en_poll c"
  using assms(1)
proof (cases rule: client_start_at_cases)
  case (unbound s w1 address w2)
  have "adds sound w1 w2" using bind_any_cases [OF unbound(3)] adds_benign_sound by blast
  then show ?thesis
    using adds_sound_create [OF unbound(2)] unbound(4,6) adds_sound_destroy [of w2 K "s_impl s"]
    by (auto simp: socket_dtor_def intro: adds_trans)
next
  case (started s w1 address sock s' w2 ok w3 st)
  have "adds sound w1 w2" "adds sound w2 w3"
    using bind_any_cases [OF started(4)] poll_okD(2) [OF assms(2) started(5)] adds_benign_sound by blast+
  then show ?thesis
    using adds_sound_create [OF started(3)] adds_sound_assign [OF started(6)] started(7)
    by (auto intro: adds_trans)
qed (auto dest: adds_sound_create)

lemma client_stop_sound:
  assumes "client_stop K PT c w = (c', w')" and "poll_ok K PT"
  shows "adds sound w w' \<and> en_poll c' = en_poll c"
proof -
  obtain ok w1 where del: "pt_del PT (en_poll c) (get_fd c) w = (ok, w1)"
    and w': "w' = state_dtor K (en_state c) w1"
    and c': "c' = client_unregister_cbs (c\<lparr>en_state := StIdle None\<rparr>)"
    using client_stop_eq [OF assms(1)] by blast
  have "adds sound w w1" using poll_okD(3) [OF assms(2) del] adds_benign_sound by blast
  then show ?thesis unfolding w' c' by (auto intro: adds_trans adds_sound_state_dtor)
qed

text \<open>The calls of a program, with their results, for case analyses over its steps.\<close>

lemma client_step_calls:
  assumes "client_step K N PT A pr op (c, w) = (c', w')"
  obtains (start) b where "op = CStart" "client_start K PT pr c w = (b, c', w')"
  | (start_at) addr prt b where "op = CStartAt addr prt" "client_start_at K N PT pr addr prt c w = (b, c', w')"
  | (stop) "op = CStop" "client_stop K PT c w = (c', w')"
  | (connect) addr prt onc onr ond b where "op = CConnect addr prt onc onr ond"
      "client_connect K N pr addr prt onc onr ond c w = (b, c', w')"
  | (send) buf n r where "op = CSend buf n" "client_send K pr c buf n w = (r, w')" "c' = c"
  | (recv) buf n r buf' where "op = CRecv buf n" "client_recv K pr c buf n w = (r, buf', w')" "c' = c"
  | (events) t r where "op = CProceed t" "client_proceed PT A t (c, w) = (r, (c', w'))"
proof (cases op)
  case CStart
  with assms show ?thesis by (cases "client_start K PT pr c w") (simp add: start)
next
  case (CStartAt addr prt)
  with assms show ?thesis by (cases "client_start_at K N PT pr addr prt c w") (simp add: start_at)
next
  case CStop
  with assms show ?thesis by (simp add: stop)
next
  case (CConnect addr prt onc onr ond)
  with assms show ?thesis
    by (cases "client_connect K N pr addr prt onc onr ond c w") (simp add: connect)
next
  case (CSend buf n)
  with assms show ?thesis by (cases "client_send K pr c buf n w") (simp add: send)
next
  case (CRecv buf n)
  with assms show ?thesis by (cases "client_recv K pr c buf n w") (simp add: recv)
next
  case (CProceed t)
  with assms show ?thesis by (cases "client_proceed PT A t (c, w)") (simp add: events)
qed

lemma client_step_ok:
  assumes "client_step K N PT A pr op (c, w) = (c', w')" and "client_ok pr c"
    and "app_ok K A" and "poll_ok K PT"
  shows "client_ok pr c' \<and> en_poll c' = en_poll c
    \<and> adds (\<lambda>e. sound e \<or> (e = Ub DanglingCapture \<and> (\<exists>a p x y z. op = CConnect a p x y z))) w w'"
    (is "_ \<and> _ \<and> adds ?P w w'")
proof -
  have weaken: "adds ?P w w'" if "adds sound w w'"
    using that by (rule adds_mono) simp
  show ?thesis
    using assms(1)
  proof (cases rule: client_step_calls)
    case start
    then show ?thesis
      using client_start_sound [OF _ assms(4)] client_ok_start assms(2) weaken by blast
  next
    case start_at
    then show ?thesis
      using client_start_at_sound [OF _ assms(4)] client_ok_start_at assms(2) weaken by blast
  next
    case stop
    then show ?thesis
      using client_stop_sound [OF _ assms(4)] client_ok_stop assms(2) weaken by blast
  next
    case (connect addr prt onc onr ond b)
    note cs = client_connect_cases [OF connect(2) assms(2)]
    have "adds ?P w w'"
      using cs [THEN conjunct2, THEN conjunct1] by (rule adds_mono) (auto simp: connect(1) sound_benign is_connect_benign)
    moreover have "en_poll c' = en_poll c"
      using cs [THEN conjunct2, THEN conjunct2] by (auto simp: set_fields_def)
    ultimately show ?thesis using client_ok_connect [OF connect(2) assms(2)] by blast
  next
    case send
    then show ?thesis using client_send_quiet assms(2) weaken adds_benign_sound by blast
  next
    case recv
    then show ?thesis using client_recv_quiet assms(2) weaken adds_benign_sound by blast
  next
    case events
    from client_proceed_moved [OF events(2) assms(3,4)] assms(2) weaken show ?thesis
      by (simp add: same_endpoint_def client_ok_def)
  qed
qed

subsection \<open>Every step accounts for the descriptor\<close>

lemma accounts_assume:
  "(ledger_ok live w \<Longrightarrow> S \<subseteq> open_fds (w_trace w) \<Longrightarrow> accounts live w S w' S') \<Longrightarrow> accounts live w S w' S'"
  by (simp add: accounts_def)

lemma idle_state: "idle c \<Longrightarrow> \<exists>x. en_state c = StIdle x"
  by (auto simp: idle_def split: sock_state.splits)

lemma client_start_accounts:
  assumes "client_start K PT pr c w = (b, c', w')" and "posix_fds K live" and "poll_ok K PT"
    and "en_state c = StIdle None"
  shows "accounts live w (state_fds (en_state c)) w' (state_fds (en_state c'))"
  using assms(1)
proof (cases rule: client_start_cases)
  case failed
  with accounts_create [OF assms(2) failed(2), of "{}"] assms(4) show ?thesis by simp
next
  case (started s w1 ok w2 st)
  have "accounts live w {} w1 (impl_fds (s_impl s))"
    using accounts_create [OF assms(2) started(3), of "{}"] by simp
  moreover have "accounts live w1 (impl_fds (s_impl s)) w2 (impl_fds (s_impl s))"
    using poll_okD(2) [OF assms(3) started(4)] by (simp add: accounts_quiet [OF assms(2)])
  ultimately show ?thesis
    using started(5,6) assms(4) by (auto intro: accounts_trans)
qed (simp add: accounts_refl)

lemma client_start_at_accounts:
  assumes "client_start_at K N PT pr addr prt c w = (b, c', w')" and "posix_fds K live" and "poll_ok K PT"
  shows "accounts live w (state_fds (en_state c)) w' (state_fds (en_state c'))"
proof (rule accounts_assume)
  assume led: "ledger_ok live w" and sub: "state_fds (en_state c) \<subseteq> open_fds (w_trace w)"
  show ?thesis
    using assms(1)
  proof (cases rule: client_start_at_cases)
    case rejected
    then show ?thesis by (simp add: accounts_refl)
  next
    case failed
    with accounts_create [OF assms(2) failed(2)] show ?thesis by simp
  next
    case (unbound s w1 address w2)
    have new: "impl_fds (s_impl s) \<inter> state_fds (en_state c) = {}"
      using create_fresh(1) [OF assms(2) unbound(2) led] sub by blast
    have "accounts live w (state_fds (en_state c)) w1 (impl_fds (s_impl s) \<union> state_fds (en_state c))"
      using accounts_create [OF assms(2) unbound(2), of "state_fds (en_state c)"] by (simp add: Un_commute)
    moreover have "accounts live w1 (impl_fds (s_impl s) \<union> state_fds (en_state c)) w2
        (impl_fds (s_impl s) \<union> state_fds (en_state c))"
      using bind_any_cases [OF unbound(3)] by (simp add: accounts_quiet [OF assms(2)])
    moreover have "accounts live w2 (impl_fds (s_impl s) \<union> state_fds (en_state c)) w' (state_fds (en_state c))"
      using accounts_destroy [OF assms(2), of w2 "s_impl s" "state_fds (en_state c)"] new unbound(4)
      by (simp add: socket_dtor_def Diff_triv Int_commute)
    ultimately show ?thesis using unbound(6) by (blast intro: accounts_trans)
  next
    case (started s w1 address sock s' w2 ok w3 st)
    let ?S = "state_fds (en_state c) \<union> state_fds sock"
    have b: "state_fds sock = impl_fds (s_impl s)" "\<forall>x. sock \<noteq> StIdle x" "via K quiet w1 w2"
      using bind_any_cases [OF started(4)] by simp_all
    have new: "state_fds (en_state c) \<inter> state_fds sock = {}"
      using create_fresh(1) [OF assms(2) started(3) led] sub b(1) by blast
    have "accounts live w (state_fds (en_state c)) w1 ?S"
      using accounts_create [OF assms(2) started(3)] b(1) by simp
    moreover have "accounts live w1 ?S w2 ?S" "accounts live w2 ?S w3 ?S"
      using b(3) poll_okD(2) [OF assms(3) started(5)] by (simp_all add: accounts_quiet [OF assms(2)])
    moreover have "\<not> same_alternative (en_state c) sock"
      using idle_state [OF started(1)] b(2) by (cases sock) auto
    then have "accounts live w3 ?S w' (state_fds st)"
      using accounts_assign [OF assms(2) started(6)] new by simp
    ultimately show ?thesis using started(7) by (auto intro: accounts_trans)
  qed
qed

lemma client_stop_accounts:
  assumes "client_stop K PT c w = (c', w')" and "posix_fds K live" and "poll_ok K PT"
  shows "accounts live w (state_fds (en_state c)) w' (state_fds (en_state c'))"
proof -
  obtain ok w1 where del: "pt_del PT (en_poll c) (get_fd c) w = (ok, w1)"
    and w': "w' = state_dtor K (en_state c) w1"
    and c': "c' = client_unregister_cbs (c\<lparr>en_state := StIdle None\<rparr>)"
    using client_stop_eq [OF assms(1)] by blast
  have "accounts live w (state_fds (en_state c)) w1 (state_fds (en_state c))"
    using poll_okD(3) [OF assms(3) del] by (simp add: accounts_quiet [OF assms(2)])
  moreover have "accounts live w1 (state_fds (en_state c)) w' {}"
    using accounts_state_dtor [OF assms(2), of w1 "en_state c" "{}"] w' by simp
  ultimately show ?thesis using c' by (auto intro: accounts_trans)
qed

lemma client_step_accounts:
  assumes "client_step K N PT A pr op (c, w) = (c', w')" and "client_ok pr c"
    and "app_ok K A" and "poll_ok K PT" and "posix_fds K live"
    and "op = CStart \<longrightarrow> en_state c = StIdle None"
  shows "accounts live w (state_fds (en_state c)) w' (state_fds (en_state c'))"
proof -
  note quiet = accounts_quiet [OF assms(5)]
  show ?thesis
    using assms(1)
  proof (cases rule: client_step_calls)
    case start
    with assms(4,5,6) show ?thesis using client_start_accounts by blast
  next
    case start_at
    with assms(4,5) show ?thesis using client_start_at_accounts by blast
  next
    case stop
    with assms(4,5) show ?thesis using client_stop_accounts by blast
  next
    case (connect addr prt onc onr ond b)
    show ?thesis
      using client_ok_connect [OF connect(2) assms(2)] client_connect_cases [OF connect(2) assms(2)]
      by (simp add: quiet)
  next
    case send
    with client_send_quiet [OF send(2)] show ?thesis by (simp add: quiet)
  next
    case recv
    with client_recv_quiet [OF recv(2)] show ?thesis by (simp add: quiet)
  next
    case events
    from client_proceed_moved [OF events(2) assms(3,4)] show ?thesis
      by (simp add: same_endpoint_def quiet)
  qed
qed

end
