(* ===== verification/Client_Protocol.thy ===== *)
theory Client_Protocol
  imports Endpoint_Protocol Client_Safety
begin

section \<open>Client programs follow the socket protocol\<close>

text \<open>
  The promise of the typed sockets, carried through the client: whatever a program does with a
  client, and whatever its callbacks do short of breaking the protocol themselves, the calls that
  reach the system are in an order the socket protocol allows, and the alternative that the
  client's state holds is the phase in which the system sees its descriptor.
\<close>

definition client_inv :: "('k \<Rightarrow> int set) \<Rightarrow> proto \<Rightarrow> 'p client \<times> 'k world \<Rightarrow> bool" where
  "client_inv live pr s \<longleftrightarrow> client_ok pr (fst s) \<and> sys_inv live pr (state_pool (en_state (fst s))) (snd s)"

text \<open>
  A callback may use the client in any way that keeps the invariant, in particular send and receive
  through it (\<open>client_send_inv\<close>, \<open>client_recv_inv\<close>).
\<close>

definition app_follows :: "('k \<Rightarrow> int set) \<Rightarrow> proto \<Rightarrow> ('p, 'k) client_app \<Rightarrow> bool" where
  "app_follows live pr A \<longleftrightarrow>
     (\<forall>cb s ex s'. client_inv live pr s \<and> app_call A cb s = (ex, s') \<longrightarrow> client_inv live pr s')
   \<and> (\<forall>cb evs s ex s'. client_inv live pr s \<and> app_unhandled A cb evs s = (ex, s') \<longrightarrow> client_inv live pr s')"

subsection \<open>Starting and stopping\<close>

lemma sys_inv_bind_any:
  assumes "sys_inv live pr p w" and "posix_fds K live" and "p s = Some (TSocket k)" and "p d = None"
    and "bind_any K pr k a w = (res, k', w1)"
  shows "case res of None \<Rightarrow> sys_inv live pr p w1
         | Some st \<Rightarrow> sys_inv live pr (p(s \<mapsto> TSocket k', d := tsock_of st)) w1"
proof (cases "is_connectionless pr")
  case True
  then obtain r where b: "bind_less K k a w = (r, k', w1)" "res = map_option StActive r"
    using assms(5) by (auto simp: bind_any_def split: prod.splits)
  show ?thesis
    using sys_inv_transit [OF assms(1,2) via_policies(1) [OF b(1)] assms(3,4) transit_bind(1) [OF b(1) True]] b(2)
    by (cases r) simp_all
next
  case False
  then obtain r where b: "bind_conn K k a w = (r, k', w1)" "res = map_option StBinded r"
    using assms(5) by (auto simp: bind_any_def split: prod.splits)
  show ?thesis
    using sys_inv_transit [OF assms(1,2) via_policies(2) [OF b(1)] assms(3,4) transit_bind(2) [OF b(1)]] b(2)
    by (cases r) simp_all
qed

lemma client_start_inv:
  assumes "client_start K PT pr c w = (b, c', w')" and K: "posix_fds K live" and PT: "poll_neutral K PT"
    and inv: "client_inv live pr (c, w)"
  shows "client_inv live pr (c', w')"
proof -
  have ok: "client_ok pr c'" using inv client_ok_start [OF assms(1)] by (simp add: client_inv_def)
  have inv': "sys_inv live pr (state_pool (en_state c)) w" using inv by (simp add: client_inv_def)
  from assms(1) have "sys_inv live pr (state_pool (en_state c')) w'"
  proof (cases rule: client_start_cases)
    case failed
    from sys_inv_create [OF inv' K _ failed(2), of 1] failed(4) show ?thesis by (simp add: fun_upd_idem)
  next
    case (started s w1 ok w2 st)
    let ?p = "(state_pool (en_state c))(1 \<mapsto> TSocket s)"
    have "sys_inv live pr ?p w1" using sys_inv_create [OF inv' K _ started(3), of 1] by simp
    then have "sys_inv live pr ?p w2" by (rule poll_neutralD(2) [OF PT K started(4)])
    then have "sys_inv live pr (state_pool st) w'"
      by (rule sys_inv_assign [where i = 0 and d = 1, OF _ K _ _ _ started(5)]) simp_all
    with started(6) show ?thesis by simp
  qed (use inv' in simp)
  with ok show ?thesis by (simp add: client_inv_def)
qed

lemma client_start_at_inv:
  assumes "client_start_at K N PT pr addr prt c w = (b, c', w')" and K: "posix_fds K live"
    and PT: "poll_neutral K PT" and inv: "client_inv live pr (c, w)"
  shows "client_inv live pr (c', w')"
proof -
  have ok: "client_ok pr c'" using inv client_ok_start_at [OF assms(1)] by (simp add: client_inv_def)
  let ?p = "state_pool (en_state c)"
  have inv': "sys_inv live pr ?p w" using inv by (simp add: client_inv_def)
  from assms(1) have "sys_inv live pr (state_pool (en_state c')) w'"
  proof (cases rule: client_start_at_cases)
    case failed
    from sys_inv_create [OF inv' K _ failed(2), of 1] failed(4) show ?thesis by (simp add: fun_upd_idem)
  next
    case (unbound s w1 address w2)
    have "sys_inv live pr (?p(1 \<mapsto> TSocket s)) w1" using sys_inv_create [OF inv' K _ unbound(2), of 1] by simp
    then have "sys_inv live pr (?p(1 \<mapsto> TSocket s)) w2"
      using sys_inv_bind_any [where p = "?p(1 \<mapsto> TSocket s)" and s = 1 and d = 2 and live = live, OF _ K _ _ unbound(3)]
      by simp
    from sys_inv_dtor [OF this K, of 1 "StIdle (Some s)"] unbound(4,6) show ?thesis
      by (simp add: fun_upd_idem)
  next
    case (started s w1 address sock s' w2 ok w3 st)
    have "sys_inv live pr (?p(1 \<mapsto> TSocket s)) w1" using sys_inv_create [OF inv' K _ started(3), of 1] by simp
    then have "sys_inv live pr (?p(1 \<mapsto> TSocket s', 2 := tsock_of sock)) w2"
      using sys_inv_bind_any [where p = "?p(1 \<mapsto> TSocket s)" and s = 1 and d = 2 and live = live, OF _ K _ _ started(4)]
      by simp
    then have "sys_inv live pr (?p(1 \<mapsto> TSocket s', 2 := tsock_of sock)) w3"
      by (rule poll_neutralD(2) [OF PT K started(5)])
    then have "sys_inv live pr (state_pool st) w'"
      by (rule sys_inv_assign [where i = 0 and d = 2, OF _ K _ _ _ started(6)]) simp_all
    with started(7) show ?thesis by simp
  qed (use inv' in simp)
  with ok show ?thesis by (simp add: client_inv_def)
qed

lemma client_stop_inv:
  assumes "client_stop K PT c w = (c', w')" and K: "posix_fds K live" and PT: "poll_neutral K PT"
    and inv: "client_inv live pr (c, w)"
  shows "client_inv live pr (c', w')"
proof -
  obtain ok w1 where del: "pt_del PT (en_poll c) (get_fd c) w = (ok, w1)"
    and e: "w' = state_dtor K (en_state c) w1" "c' = client_unregister_cbs (c\<lparr>en_state := StIdle None\<rparr>)"
    using client_stop_eq [OF assms(1)] by blast
  have "sys_inv live pr (state_pool (en_state c)) w" using inv by (simp add: client_inv_def)
  then have "sys_inv live pr (state_pool (en_state c)) w1" by (rule poll_neutralD(3) [OF PT K del])
  then have "sys_inv live pr ((state_pool (en_state c))(0 := None)) w'"
    unfolding e(1) by (rule sys_inv_dtor) (simp_all add: K)
  moreover have "(state_pool (en_state c))(0 := None) = state_pool (en_state c')"
    by (auto simp: e(2) state_pool_def)
  ultimately show ?thesis
    using client_ok_stop [OF assms(1)] inv by (simp add: client_inv_def)
qed

subsection \<open>Connecting\<close>

text \<open>
  The contract of a connect operation, extended by what it means for the protocol: it is a
  transition of the typed socket \<open>mk\<close> that the state wraps.
\<close>

locale protocol_connector = connector K sock_connect wrap
  for K :: "'k os"
    and sock_connect :: "'s \<Rightarrow> in_address_port_t \<Rightarrow> 'k world \<Rightarrow> active_socket_t option \<times> 's \<times> 'k world"
    and wrap :: "'s \<Rightarrow> sock_state" +
  fixes pr :: proto and mk :: "'s \<Rightarrow> tsock"
  assumes wrapped: "tsock_of (wrap s) = Some (mk s)"
    and transits: "\<not> is_connectionless pr \<Longrightarrow> sock_connect der a w = (res, der', w1) \<Longrightarrow>
      transit pr (mk der) (map_option TActive res) (mk der') w w1"
begin

lemma closure_inv:
  assumes "connect_closure sock_connect wrap K first parsed setf sock c w = (b, c', w')"
    and "en_state c = wrap sock" and "\<not> is_connectionless pr" and K: "posix_fds K live"
    and inv: "sys_inv live pr (state_pool (en_state c)) w"
  shows "sys_inv live pr (state_pool (en_state c')) w'"
proof (cases "first \<and> parsed \<noteq> None")
  case False
  with assms(1) inv show ?thesis by (auto simp: connect_closure_def split: if_splits)
next
  case True
  then obtain a where a: "parsed = Some a" by auto
  obtain res der' w1 where sc: "sock_connect sock a w = (res, der', w1)"
    using prod_cases3 by blast
  note tr = sys_inv_transit [where s = 0 and d = 1, OF inv K connect_quiet [OF sc] _ _ transits [OF assms(3) sc]]
  show ?thesis
  proof (cases res)
    case None
    with sc keeps have "der' = sock" by blast
    with None tr assms(1,2) a True sc wrapped show ?thesis by (auto simp: connect_closure_def)
  next
    case (Some act)
    obtain st w2 where st: "assign_state K (wrap der') (StActive act) w1 = (st, w2)" by fastforce
    have "sys_inv live pr ((state_pool (en_state c))(0 \<mapsto> mk der', 1 \<mapsto> TActive act)) w1"
      using tr Some assms(2) wrapped by simp
    then have "sys_inv live pr (state_pool st) w2"
      by (rule sys_inv_assign [where i = 0 and d = 1, OF _ K _ _ _ st]) (simp_all add: wrapped)
    with assms(1) a True sc Some st show ?thesis by (auto simp: connect_closure_def)
  qed
qed

end

interpretation socket_protocol: protocol_connector K "socket_connect K" "\<lambda>x. StIdle (Some x)" pr TSocket
  for K pr
  by unfold_locales (simp_all add: transit_connect(1))

interpretation binded_protocol: protocol_connector K "binded_connect K" StBinded pr TBinded for K pr
  by unfold_locales (simp_all add: transit_connect(2))

lemma client_connect_inv:
  assumes "client_connect K N pr addr prt onc onr ond c w = (b, c', w')" and K: "posix_fds K live"
    and inv: "client_inv live pr (c, w)"
  shows "client_inv live pr (c', w')"
proof -
  have ok: "client_ok pr c" "client_ok pr c'"
    using inv client_ok_connect [OF assms(1)] by (simp_all add: client_inv_def)
  define w0 where "w0 = w\<lparr>w_connect_static := (w_connect_static w)(is_connectionless pr := True)\<rparr>"
  have inv0: "sys_inv live pr (state_pool (en_state c)) w0"
    using inv by (simp add: client_inv_def w0_def)
  note step = assms(1) [unfolded client_connect_def Let_def, folded w0_def]
  have "sys_inv live pr (state_pool (en_state c')) w'"
  proof (cases "en_state c")
    case (StIdle sock)
    show ?thesis
    proof (cases "is_connectionless pr \<or> sock = None")
      case True
      with step StIdle inv0 show ?thesis by (auto split: if_splits)
    next
      case False
      then obtain s where s: "sock = Some s" by auto
      with step StIdle False inv0 K socket_protocol.closure_inv [where c = c and sock = s] show ?thesis by simp
    qed
  next
    case (StBinded s)
    with ok have "\<not> is_connectionless pr" by (simp add: client_ok_def)
    with step StBinded inv0 K binded_protocol.closure_inv [where c = c and sock = s] show ?thesis by simp
  next
    case (StListening s)
    with step inv0 show ?thesis by auto
  next
    case (StActive s)
    with step inv0 show ?thesis
      by (auto simp: set_fields_def split: option.splits if_splits)
  qed
  with ok show ?thesis by (simp add: client_inv_def)
qed

subsection \<open>Sending, receiving and events\<close>

lemma client_send_inv:
  assumes "client_send K pr c buf n w = (r, w')" and K: "posix_fds K live" and inv: "client_inv live pr (c, w)"
  shows "client_inv live pr (c, w')"
proof -
  have i: "sys_inv live pr (state_pool (en_state c)) w" using inv by (simp add: client_inv_def)
  have "sys_inv live pr (state_pool (en_state c)) w'"
  proof (cases "\<exists>s a. en_state c = StActive s \<and> cl_remote c = Some a")
    case True
    then obtain s a where s: "en_state c = StActive s" "cl_remote c = Some a" by blast
    with assms(1) show ?thesis
      using sys_inv_one_call(1,2) [OF i K, of 0 s] by (auto simp: client_send_def split: if_splits)
  next
    case False
    with assms(1) have "w' = w" by (auto simp: client_send_def split: sock_state.splits option.splits)
    with i show ?thesis by simp
  qed
  with inv show ?thesis by (simp add: client_inv_def)
qed

lemma client_recv_inv:
  assumes "client_recv K pr c buf n w = (r, buf', w')" and K: "posix_fds K live" and inv: "client_inv live pr (c, w)"
  shows "client_inv live pr (c, w')"
proof -
  have i: "sys_inv live pr (state_pool (en_state c)) w" using inv by (simp add: client_inv_def)
  have "sys_inv live pr (state_pool (en_state c)) w'"
  proof (cases "\<exists>s. en_state c = StActive s")
    case True
    then obtain s where s: "en_state c = StActive s" by blast
    show ?thesis
    proof (cases "is_connectionless pr")
      case True
      with assms(1) s sys_inv_one_call(4) [OF i K, of 0 s] show ?thesis by (simp add: client_recv_def)
    next
      case False
      obtain x buf1 w1 where rc: "receive_conn K s buf n 0 w = (x, buf1, w1)" using prod_cases3 by blast
      have "sys_inv live pr (state_pool (en_state c)) w1"
        using sys_inv_one_call(3) [OF i K _ False rc, of 0] s by simp
      with assms(1) s False rc show ?thesis
        by (auto simp: client_recv_def split: option.splits)
    qed
  next
    case False
    with assms(1) have "w' = w" by (auto simp: client_recv_def split: sock_state.splits)
    with i show ?thesis by simp
  qed
  with inv show ?thesis by (simp add: client_inv_def)
qed

lemma app_followsD:
  assumes "app_follows live pr A" and "client_inv live pr (c, w)"
  shows "call_app A cb (c, w) = (ex, s') \<Longrightarrow> client_inv live pr s'"
    and "client_unhandled A cb evs (c, w) = (ex, s') \<Longrightarrow> client_inv live pr s'"
proof -
  have "client_inv live pr (c, upcall cb w)" using assms(2) by (simp add: client_inv_def)
  then show "call_app A cb (c, w) = (ex, s') \<Longrightarrow> client_inv live pr s'"
    "client_unhandled A cb evs (c, w) = (ex, s') \<Longrightarrow> client_inv live pr s'"
    using assms(1) unfolding app_follows_def call_app_def client_unhandled_def fst_conv snd_conv by blast+
qed

lemma client_inv_fields [simp]:
  "client_inv live pr (c\<lparr>cl_on_connect := x\<rparr>, w) = client_inv live pr (c, w)"
  "client_inv live pr (c\<lparr>cl_on_disconnect := y\<rparr>, w) = client_inv live pr (c, w)"
  by (simp_all add: client_inv_def client_ok_def)

lemma call_and_reset_inv:
  assumes "(case call_app A cb (c, w) of
      (Some e, s) \<Rightarrow> (Some e, s) | (None, (c2, w2)) \<Rightarrow> (None, (reset c2, w2))) = (ex, s')"
    and "app_follows live pr A" and "client_inv live pr (c, w)"
    and "\<And>c w. client_inv live pr (reset c, w) = client_inv live pr (c, w)"
  shows "client_inv live pr s'"
proof -
  obtain ex1 c1 w1 where app: "call_app A cb (c, w) = (ex1, (c1, w1))" using prod_cases3 by blast
  have inv: "client_inv live pr (c1, w1)" using app_followsD(1) [OF assms(2,3) app] .
  show ?thesis
  proof (cases ex1)
    case None
    then have "s' = (reset c1, w1)" using assms(1) app by simp
    then show ?thesis using inv by (simp only: assms(4))
  next
    case (Some e)
    then have "s' = (c1, w1)" using assms(1) app by simp
    then show ?thesis using inv by simp
  qed
qed

lemma client_call_inv:
  assumes "client_call PT A h fd (c, w) = (ex, s')" and K: "posix_fds K live" and PT: "poll_neutral K PT"
    and A: "app_follows live pr A" and inv: "client_inv live pr (c, w)"
  shows "client_inv live pr s'"
proof (cases "fd = get_fd c")
  case False
  with assms(1) inv show ?thesis by (cases h) auto
next
  case fd: True
  obtain ok w1 where d: "pt_del PT (en_poll c) fd w = (ok, w1)" by fastforce
  have del: "client_inv live pr (c, w1)"
    using inv poll_neutralD(3) [OF PT K d] by (simp add: client_inv_def)
  show ?thesis
  proof (cases h)
    case Erase
    show ?thesis
    proof (cases "cl_on_disconnect c")
      case None
      with assms(1) Erase fd d del show ?thesis by auto
    next
      case (Some cb)
      with assms(1) Erase fd d call_and_reset_inv [OF _ A del] show ?thesis by simp
    qed
  next
    case ReadReady
    with assms(1) fd inv show ?thesis
      by (cases "cl_on_read_ready c") (auto dest: app_followsD(1) [OF A inv])
  next
    case WriteReady
    show ?thesis
    proof (cases "cl_on_connect c")
      case None
      with assms(1) WriteReady fd inv show ?thesis by auto
    next
      case (Some cb)
      with assms(1) WriteReady fd call_and_reset_inv [OF _ A inv] show ?thesis by simp
    qed
  qed
qed

definition client_kept ::
  "('k \<Rightarrow> int set) \<Rightarrow> 'k os \<Rightarrow> proto \<Rightarrow> ('p, 'k world) poll_traits \<Rightarrow> ('p, 'k) client_app \<Rightarrow> 'p client \<times> 'k world \<Rightarrow> bool" where
  "client_kept live K pr PT A s \<longleftrightarrow>
     (posix_fds K live \<and> poll_neutral K PT \<and> app_follows live pr A \<longrightarrow> client_inv live pr s)"

interpretation cp: handler_contract "client_kept live K pr PT A"
  "\<lambda>t (c, w). case pt_proceed PT (en_poll c) t w of (evs, w1) \<Rightarrow> (evs, (c, w1))"
  "client_call PT A" "client_unhandled A" obs for live K pr PT A obs
proof unfold_locales
  fix t s evs s1
  assume "(case s of (c, w) \<Rightarrow> case pt_proceed PT (en_poll c) t w of (evs, w1) \<Rightarrow> (evs, (c, w1))) = (evs, s1)"
    and "client_kept live K pr PT A s"
  then show "client_kept live K pr PT A s1"
    by (auto simp: client_kept_def client_inv_def split: prod.splits dest: poll_neutralD(1))
next
  fix h fd s ex s1
  assume "client_call PT A h fd s = (ex, s1)" and "client_kept live K pr PT A s"
  then show "client_kept live K pr PT A s1"
    by (cases s) (auto simp: client_kept_def dest: client_call_inv)
next
  fix cb evs s ex s1
  assume "client_unhandled A cb evs s = (ex, s1)" and "client_kept live K pr PT A s"
  then show "client_kept live K pr PT A s1"
    by (cases s) (auto simp: client_kept_def dest: app_followsD(2))
qed

lemma client_proceed_inv:
  assumes "client_proceed PT A t s = (r, s')" and "posix_fds K live" and "poll_neutral K PT"
    and "app_follows live pr A" and "client_inv live pr s"
  shows "client_inv live pr s'"
proof -
  have "client_kept live K pr PT A s'"
    using assms(1) unfolding client_proceed_def
    by (rule cp.proceed_keeps) (simp add: client_kept_def assms(5))
  with assms(2-4) show ?thesis by (simp add: client_kept_def)
qed

lemma client_step_inv:
  assumes "client_step K N PT A pr op s = s'" and "posix_fds K live" and "poll_neutral K PT"
    and "app_follows live pr A" and "client_inv live pr s"
  shows "client_inv live pr s'"
proof -
  obtain c w c' w' where s: "s = (c, w)" "s' = (c', w')" by fastforce
  note inv = assms(5) [unfolded s(1)]
  have "client_inv live pr (c', w')"
    using assms(1) [unfolded s]
  proof (cases rule: client_step_calls)
    case start
    with assms(2,3) inv show ?thesis by (blast intro: client_start_inv)
  next
    case start_at
    with assms(2,3) inv show ?thesis by (blast intro: client_start_at_inv)
  next
    case stop
    with assms(2,3) inv show ?thesis by (blast intro: client_stop_inv)
  next
    case connect
    with assms(2) inv show ?thesis by (blast intro: client_connect_inv)
  next
    case send
    with assms(2) inv show ?thesis by (blast intro: client_send_inv)
  next
    case recv
    with assms(2) inv show ?thesis by (blast intro: client_recv_inv)
  next
    case events
    with assms(2-4) inv show ?thesis by (blast intro: client_proceed_inv)
  qed
  with s show ?thesis by simp
qed

lemma client_run_inv:
  "posix_fds K live \<Longrightarrow> poll_neutral K PT \<Longrightarrow> app_follows live pr A \<Longrightarrow> client_inv live pr s \<Longrightarrow>
     client_inv live pr (client_run K N PT A pr ops s)"
proof (induction ops arbitrary: s)
  case (Cons op ops)
  from client_step_inv [OF refl Cons.prems] Cons.IH Cons.prems(1-3) show ?case
    by (simp add: client_run_def)
qed (simp add: client_run_def)

lemma client_inv_new:
  assumes "ledger_ok live w" and "well_ordered (w_trace w)"
  shows "client_inv live pr (client_ctor ep af unhandled, w)"
proof -
  have e: "en_state (client_ctor ep af unhandled) = StIdle None"
    by (simp add: client_ctor_def endpoint_ctor_def endpoint.defs)
  have "view pr (state_pool (StIdle None)) = Map.empty" by (simp add: fun_eq_iff view_def state_pool_def)
  then have "sys_inv live pr (state_pool (StIdle None)) w"
    using assms by (simp add: sys_inv_def consistent_def)
  then show ?thesis by (simp add: client_inv_def client_ok_ctor e)
qed

text \<open>
  C2: Whatever a program does with a client, and whatever its callbacks do short of breaking the
  protocol themselves, the client's system calls refine the abstract socket protocol: every call
  is allowed in the phase of its descriptor, and the alternative the client's state holds is the
  phase in which the system sees that descriptor.
\<close>

theorem client_programs_follow_protocol:
  assumes "posix_fds K live" and "ledger_ok live w" and "well_ordered (w_trace w)"
    and "app_follows live pr A"
    and "client_run K N (epoll_traits K) A pr ops (client_ctor ep af unhandled, w) = (c', w')"
  shows "well_ordered (w_trace w')
    \<and> (\<forall>t fd. tsock_of (en_state c') = Some t \<and> si_fd (impl_of t) = Some fd \<longrightarrow>
         phases (w_trace w') fd = Some (expected pr t))"
proof -
  have "client_inv live pr (client_ctor ep af unhandled, w)" using assms(2,3) by (rule client_inv_new)
  then have "client_inv live pr (c', w')"
    using client_run_inv [OF assms(1) epoll_neutral assms(4), of _ N ops] assms(5) by metis
  then have inv: "sys_inv live pr (state_pool (en_state c')) w'" by (simp add: client_inv_def)
  then show ?thesis using sys_inv_phase [OF inv] by (auto simp: sys_inv_def)
qed

text \<open>The witness: callbacks that receive into a small buffer and send it back.\<close>

definition echo_app :: "'k os \<Rightarrow> proto \<Rightarrow> ('p, 'k) client_app" where
  "echo_app K pr =
     \<lparr>app_call = (\<lambda>cb (c, w). case client_recv K pr c [0, 0] 2 w of
        (r, buf, w1) \<Rightarrow> (None, (c, snd (client_send K pr c buf 2 w1)))),
      app_unhandled = (\<lambda>cb evs s. (None, s))\<rparr>"

lemma echo_app_follows:
  assumes "posix_fds K live" shows "app_follows live pr (echo_app K pr)"
proof -
  have "client_inv live pr (c, snd (client_send K pr c buf 2 w1))"
    if "client_inv live pr (c, w)" "client_recv K pr c [0, 0] 2 w = (r, buf, w1)" for c w r buf w1
    using client_recv_inv [OF that(2) assms that(1)] client_send_inv [OF _ assms]
    by (cases "client_send K pr c buf 2 w1") fastforce
  then show ?thesis by (auto simp: app_follows_def echo_app_def split: prod.splits)
qed

theorem client_programs_follow_protocol_witness:
  "well_ordered (w_trace (snd (client_run counting_os sample_inet (epoll_traits counting_os)
     (echo_app counting_os tcp) tcp
     [CStart, CStartAt ''aaaaaaaa'' 7000, CConnect ''aaaaaaaa'' 7777 (Some 0) (Some 1) (Some 2), CSend [1, 2] 2,
      CProceed 50, CStop] (client_ctor \<lparr>ep_fd = 3, ep_max_events = 10\<rparr> AF_INET None, init_world [3]
        \<lparr>w_trace := [Sys (SysEpollCreate 5) 3 0]\<rparr>))))"
proof -
  let ?w = "init_world [3] \<lparr>w_trace := [Sys (SysEpollCreate 5) 3 0]\<rparr>"
  have "ledger_ok set ?w" "well_ordered (w_trace ?w)" by (simp_all add: ledger_ok_def)
  from client_programs_follow_protocol [OF counting_os_posix this echo_app_follows [OF counting_os_posix]]
  show ?thesis by (metis prod.collapse)
qed

end
