(* ===== verification/Client_Props.thy ===== *)
theory Client_Props
  imports Client_Safety
begin

section \<open>Properties of the client endpoint\<close>

text \<open>
  The guarantees of the client over the epoll of the repository, for every program of client calls,
  every system that treats descriptors as POSIX says and every application whose callbacks keep to
  the operations that take no lock; then the places where the code does something else than its
  interface says.
\<close>

subsection \<open>A silent application, for concrete runs\<close>

definition silent_app :: "('p, 'k) client_app" where
  "silent_app = \<lparr>app_call = (\<lambda>cb s. (None, s)), app_unhandled = (\<lambda>cb evs s. (None, s))\<rparr>"

lemma silent_app_ok: "app_ok K silent_app"
  by (simp add: app_ok_def silent_app_def via_refl)

definition sample_client :: "epoll_t client" where
  "sample_client = client_ctor \<lparr>ep_fd = 3, ep_max_events = 10\<rparr> ipv4 None"

lemma init_ledger: "ledger_ok set (init_world [])"
  by (simp add: ledger_ok_def)

subsection \<open>Whole programs\<close>

lemma client_run_Cons:
  "client_run K N PT A pr (op # ops) s = client_run K N PT A pr ops (client_step K N PT A pr op s)"
  by (simp add: client_run_def)

lemma client_run_Nil [simp]: "client_run K N PT A pr [] s = s"
  by (simp add: client_run_def)

lemma client_run_ok:
  assumes "app_ok K A" and "poll_ok K PT" and "client_ok pr c"
    and "client_run K N PT A pr ops (c, w) = (c', w')"
  shows "client_ok pr c' \<and> en_poll c' = en_poll c \<and> adds (\<lambda>e. e \<noteq> Ub EmptyOptional) w w'"
  using assms(3,4)
proof (induction ops arbitrary: c w)
  case (Cons op ops)
  obtain c1 w1 where st: "client_step K N PT A pr op (c, w) = (c1, w1)" by fastforce
  note ok = client_step_ok [OF st Cons.prems(1) assms(1,2)]
  have "adds (\<lambda>e. e \<noteq> Ub EmptyOptional) w w1"
    using ok by (auto simp: sound_def elim!: adds_mono)
  with Cons.IH [of c1 w1] Cons.prems(2) ok st show ?case
    by (auto simp: client_run_Cons intro: adds_trans)
qed simp

text \<open>
  C9: Whatever sequence of start, connect, send, receive, proceed and stop a program runs on a
  client, whose callbacks may throw and make calls of their own but leave the client as it is,
  open and close no descriptor, connect no client and call no empty optional, the client's
  socket state stays in the sum of states of its protocol, its handlers stay the ones it
  registers, and no empty optional is dereferenced.
\<close>

theorem client_programs_keep_type:
  assumes "app_ok K A"
    and "client_run K N (epoll_traits K) A pr ops (client_ctor ep af unhandled, w) = (c', w')"
  shows "client_ok pr c' \<and> en_poll c' = ep
    \<and> (Ub EmptyOptional \<in> set (w_trace w') \<longleftrightarrow> Ub EmptyOptional \<in> set (w_trace w))"
  using client_run_ok [OF assms(1) epoll_ok client_ok_ctor assms(2)] adds_not_in [of "\<lambda>e. e \<noteq> Ub EmptyOptional"]
  by (auto simp: client_ctor_def endpoint_ctor_def endpoint.defs)

definition sample_program :: "client_op list" where
  "sample_program =
     [CStart, CConnect ''aaaaaaaa'' 7777 (Some 0) (Some 1) (Some 2), CSend [1, 2] 2, CProceed 50, CStop]"

theorem client_programs_keep_type_witness:
  "client_ok tcp (fst (client_run counting_os sample_inet (epoll_traits counting_os) silent_app tcp
     sample_program (sample_client, init_world [])))"
proof -
  obtain c' w' where run: "client_run counting_os sample_inet (epoll_traits counting_os) silent_app tcp
      sample_program (client_ctor \<lparr>ep_fd = 3, ep_max_events = 10\<rparr> ipv4 None, init_world []) = (c', w')"
    by fastforce
  from client_programs_keep_type [OF silent_app_ok run] run show ?thesis
    by (simp add: sample_client_def)
qed

text \<open>
  A program that does not call the first \<^verbatim>\<open>start\<close> while an earlier one may have left a socket.
\<close>

fun no_restart :: "bool \<Rightarrow> client_op list \<Rightarrow> bool" where
  "no_restart started [] = True"
| "no_restart started (CStart # ops) = (\<not> started \<and> no_restart True ops)"
| "no_restart started (CStartAt addr prt # ops) = no_restart True ops"
| "no_restart started (CStop # ops) = no_restart False ops"
| "no_restart started (op # ops) = no_restart started ops"

lemma no_restart_step:
  assumes "no_restart started (op # ops)" and "client_step K N PT A pr op (c, w) = (c', w')"
    and "\<not> started \<longrightarrow> en_state c = StIdle None" and "client_ok pr c" and "app_ok K A" and "poll_ok K PT"
  shows "(op = CStart \<longrightarrow> en_state c = StIdle None)
    \<and> (\<exists>started'. no_restart started' ops \<and> (\<not> started' \<longrightarrow> en_state c' = StIdle None))"
  using assms(2)
proof (cases rule: client_step_calls)
  case start
  then show ?thesis using assms(1,3) by auto
next
  case start_at
  then show ?thesis using assms(1) by auto
next
  case stop
  have "c' = client_unregister_cbs (c\<lparr>en_state := StIdle None\<rparr>)" using client_stop_eq [OF stop(2)] by blast
  then show ?thesis using assms(1) stop(1) by (intro conjI exI [of _ False]) auto
next
  case (connect addr prt onc onr ond b)
  have "en_state c = StIdle None \<Longrightarrow> en_state c' = StIdle None"
    using connect(2) by (auto simp: client_connect_def Let_def split: if_splits)
  then show ?thesis using assms(1,3) connect(1) by (intro conjI exI [of _ started]) auto
next
  case send
  then show ?thesis using assms(1,3) by (intro conjI exI [of _ started]) auto
next
  case recv
  then show ?thesis using assms(1,3) by (intro conjI exI [of _ started]) auto
next
  case events
  from client_proceed_moved [OF events(2) assms(5,6)] have "en_state c' = en_state c"
    by (simp add: same_endpoint_def)
  then show ?thesis using assms(1,3) events(1) by (intro conjI exI [of _ started]) auto
qed

lemma client_run_accounts:
  assumes "app_ok K A" and "poll_ok K PT" and "posix_fds K live" and "client_ok pr c"
    and "no_restart started ops" and "\<not> started \<longrightarrow> en_state c = StIdle None"
    and "client_run K N PT A pr ops (c, w) = (c', w')"
  shows "accounts live w (state_fds (en_state c)) w' (state_fds (en_state c'))"
  using assms(4-7)
proof (induction ops arbitrary: c w started)
  case Nil
  then show ?case by (simp add: accounts_refl)
next
  case (Cons op ops)
  obtain c1 w1 where st: "client_step K N PT A pr op (c, w) = (c1, w1)" by fastforce
  note step = no_restart_step [OF Cons.prems(2) st Cons.prems(3,1) assms(1,2)]
  then obtain started' where s': "no_restart started' ops" "\<not> started' \<longrightarrow> en_state c1 = StIdle None" by blast
  have "accounts live w (state_fds (en_state c)) w1 (state_fds (en_state c1))"
    using client_step_accounts [OF st Cons.prems(1) assms(1-3)] step by blast
  moreover have "accounts live w1 (state_fds (en_state c1)) w' (state_fds (en_state c'))"
    using Cons.IH [OF _ s'] client_step_ok [OF st Cons.prems(1) assms(1,2)] Cons.prems(4) st
    by (simp add: client_run_Cons)
  ultimately show ?case by (rule accounts_trans)
qed

text \<open>
  C10: For every program on a client that starts it once between stops, the open descriptors are
  those open before, the epoll and the client's socket; after the destructor they are exactly
  those that were open before the epoll was created.
\<close>

theorem client_lifetime_releases_descriptors:
  assumes "posix_fds K live" and "ledger_ok live w0" and "app_ok K A"
    and "epoll_create_opt K queue_size max_events w0 = (Some ep, w)" and "no_restart False ops"
    and "client_run K N (epoll_traits K) A pr ops (client_ctor ep af unhandled, w) = (c', w')"
  shows "open_fds (w_trace w') = insert (ep_fd ep) (open_fds (w_trace w0)) \<union> state_fds (en_state c')
    \<and> open_fds (w_trace (client_dtor K (epoll_dtor K) c' w')) = open_fds (w_trace w0)"
proof -
  obtain r where d: "do_sys K (SysEpollCreate queue_size) w0 = (r, w)" and r: "rp_ret r \<noteq> -1" "ep_fd ep = rp_ret r"
    using epoll_create_opt_trace [OF assms(4)] by (auto split: if_splits)
  have ep: "ep_fd ep \<noteq> -1" "ep_fd ep \<notin> open_fds (w_trace w0)"
    using do_sys_fresh [OF assms(1,2) d] r by auto
  have w: "open_fds (w_trace w) = insert (ep_fd ep) (open_fds (w_trace w0))"
    using open_fds_do_sys [OF d] r by simp
  have st: "en_state (client_ctor ep af unhandled) = StIdle None"
    by (simp add: client_ctor_def endpoint_ctor_def endpoint.defs)
  have "accounts live w {} w' (state_fds (en_state c'))"
    using client_run_accounts [OF assms(3) epoll_ok assms(1) client_ok_ctor assms(5) _ assms(6)] st by simp
  then have "state_fds (en_state c') \<subseteq> open_fds (w_trace w')"
    and "open_fds (w_trace w') - state_fds (en_state c') = insert (ep_fd ep) (open_fds (w_trace w0))"
    using ledger_ok_do_sys [OF assms(1,2) d] w by (auto simp: accounts_def)
  moreover have "en_poll c' = ep"
    using client_run_ok [OF assms(3) epoll_ok client_ok_ctor assms(6)]
    by (simp add: client_ctor_def endpoint_ctor_def endpoint.defs)
  ultimately show ?thesis
    using ep by (auto simp: client_dtor_def open_fds_epoll_dtor open_fds_state_dtor)
qed

theorem client_lifetime_releases_descriptors_witness:
  "open_fds (w_trace (case client_run counting_os sample_inet (epoll_traits counting_os) silent_app tcp
       sample_program (sample_client, snd (epoll_create_opt counting_os 5 10 (init_world []))) of
     (c, w) \<Rightarrow> client_dtor counting_os (epoll_dtor counting_os) c w)) = {}"
proof -
  obtain c' w' where run: "client_run counting_os sample_inet (epoll_traits counting_os) silent_app tcp
      sample_program (client_ctor \<lparr>ep_fd = 3, ep_max_events = 10\<rparr> ipv4 None,
        snd (epoll_create_opt counting_os 5 10 (init_world []))) = (c', w')" by fastforce
  have created: "epoll_create_opt counting_os 5 10 (init_world []) =
      (Some \<lparr>ep_fd = 3, ep_max_events = 10\<rparr>, snd (epoll_create_opt counting_os 5 10 (init_world [])))"
    by (simp add: epoll_create_opt_def do_sys_def counting_os_def Let_def answer_def)
  have "no_restart False sample_program" by (simp add: sample_program_def)
  from client_lifetime_releases_descriptors [OF counting_os_posix init_ledger silent_app_ok created this run] run
  show ?thesis by (simp add: sample_client_def)
qed

subsection \<open>Starting\<close>

text \<open>
  C37: A client start that fails at any step, with or without a local address, leaves the client
  exactly as it was and no descriptor behind.
\<close>

theorem failed_start_leaves_nothing:
  assumes "posix_fds K live" and "ledger_ok live w"
    and "client_start K (epoll_traits K) pr c w = (False, c', w')
       \<or> client_start_at K N (epoll_traits K) pr addr prt c w = (False, c', w')"
  shows "c' = c \<and> open_fds (w_trace w') = open_fds (w_trace w)"
  using assms(3)
proof
  assume "client_start K (epoll_traits K) pr c w = (False, c', w')"
  then show ?thesis
  proof (cases rule: client_start_cases)
    case failed
    with accounts_create [OF assms(1) failed(2), of "{}"] assms(2) show ?thesis
      by (simp add: accounts_def)
  qed simp_all
next
  assume "client_start_at K N (epoll_traits K) pr addr prt c w = (False, c', w')"
  then show ?thesis
  proof (cases rule: client_start_at_cases)
    case failed
    with accounts_create [OF assms(1) failed(2), of "{}"] assms(2) show ?thesis
      by (simp add: accounts_def)
  next
    case (unbound s w1 address w2)
    have "accounts live w {} w1 (impl_fds (s_impl s))"
      using accounts_create [OF assms(1) unbound(2), of "{}"] by simp
    moreover have "accounts live w1 (impl_fds (s_impl s)) w2 (impl_fds (s_impl s))"
      using bind_any_cases [OF unbound(3)] by (simp add: accounts_quiet [OF assms(1)])
    moreover have "accounts live w2 (impl_fds (s_impl s)) w' {}"
      using accounts_destroy [OF assms(1), of w2 "s_impl s" "{}"] unbound(4) by (simp add: socket_dtor_def)
    ultimately have "accounts live w {} w' {}" by (blast intro: accounts_trans)
    with assms(2) unbound(6) show ?thesis by (simp add: accounts_def)
  qed simp_all
qed

text \<open>The witness: the system refuses the address after the socket was created.\<close>

definition no_bind_os :: "int list os" where
  "no_bind_os k c = (case c of SysBind fd sa \<Rightarrow> (failure 98, k) | _ \<Rightarrow> counting_os k c)"

lemma no_bind_os_posix: "posix_fds no_bind_os set"
  using counting_os_posix unfolding posix_fds_def no_bind_os_def
  by (auto split: sys_call.splits)

theorem failed_start_leaves_nothing_witness:
  "open_fds (w_trace (snd (snd (client_start_at no_bind_os sample_inet (epoll_traits no_bind_os) tcp
     ''aaaaaaaa'' 7777 sample_client (init_world []))))) = {}"
proof -
  obtain b c' w' where st: "client_start_at no_bind_os sample_inet (epoll_traits no_bind_os) tcp
      ''aaaaaaaa'' 7777 sample_client (init_world []) = (b, c', w')" using prod_cases3 by blast
  have "b = False"
    using st by (auto simp: client_start_at_def sample_client_def socket_create_def impl_open_def do_sys_def
        no_bind_os_def counting_os_def bind_any_def bind_conn_def impl_bind_def bind_addr_def
        split: option.splits prod.splits if_splits)
  with st failed_start_leaves_nothing [OF no_bind_os_posix init_ledger disjI2] show ?thesis by simp
qed

lemma assign_idle:
  assumes "idle c" and "assign_state K (en_state c) (StIdle (Some s)) w = (st, w')"
  shows "w' = w \<and> (\<exists>t. st = StIdle (Some t)) \<and> state_fds st = impl_fds (s_impl s)
    \<and> state_fd st = impl_fd (s_impl s)"
proof -
  obtain x where "en_state c = StIdle x" using idle_state [OF assms(1)] by blast
  with assms(2) show ?thesis
    by (cases x) (auto simp: move_assign_impl_def impl_fds_def impl_fd_def)
qed

lemma client_started:
  assumes "posix_fds K live" and "ledger_ok live w"
    and "client_start K (epoll_traits K) pr c w = (True, c', w')"
  shows "ledger_ok live w' \<and> idle c' \<and> state_fds (en_state c') = {state_fd (en_state c')}
    \<and> state_fd (en_state c') \<notin> open_fds (w_trace w)
    \<and> open_fds (w_trace w') = insert (state_fd (en_state c')) (open_fds (w_trace w))"
  using assms(3)
proof (cases rule: client_start_cases)
  case (started s v ok u st)
  have "accounts live w {} v (impl_fds (s_impl s))"
    using accounts_create [OF assms(1) started(3), of "{}"] by simp
  moreover have "accounts live v (impl_fds (s_impl s)) u (impl_fds (s_impl s))"
    using poll_okD(2) [OF epoll_ok started(4)] by (simp add: accounts_quiet [OF assms(1)])
  ultimately have "accounts live w {} u (impl_fds (s_impl s))" by (rule accounts_trans)
  with assign_idle [OF started(1,5)] create_fresh [OF assms(1) started(3) assms(2)] assms(2) started(6)
  show ?thesis by (auto simp: accounts_def idle_def)
qed simp_all

theorem second_start_leaks_first_socket:
  assumes "posix_fds K live" and "ledger_ok live w"
    and "client_start K (epoll_traits K) pr c w = (True, c1, w1)"
    and "client_start K (epoll_traits K) pr c1 w1 = (True, c2, w2)"
    and "client_stop K (epoll_traits K) c2 w2 = (c3, w3)"
  shows "state_fd (en_state c1) \<in> open_fds (w_trace w3) \<and> state_fds (en_state c3) = {}"
proof -
  note first = client_started [OF assms(1-3)]
  note second = client_started [OF assms(1) first [THEN conjunct1] assms(4)]
  obtain ok w2' where del: "pt_del (epoll_traits K) (en_poll c2) (get_fd c2) w2 = (ok, w2')"
    and w3: "w3 = state_dtor K (en_state c2) w2'"
    and c3: "c3 = client_unregister_cbs (c2\<lparr>en_state := StIdle None\<rparr>)"
    using client_stop_eq [OF assms(5)] by blast
  have "open_fds (w_trace w2') = open_fds (w_trace w2)"
    using poll_okD(3) [OF epoll_ok del] via_quiet by blast
  with first second w3 c3 show ?thesis by (auto simp: open_fds_state_dtor)
qed

theorem second_start_leaks_first_socket_witness:
  "3 \<in> open_fds (w_trace (snd (client_run counting_os sample_inet (epoll_traits counting_os) silent_app tcp
     [CStart, CStart, CStop] (sample_client, init_world []))))"
proof -
  obtain c1 w1 where s1: "client_start counting_os (epoll_traits counting_os) tcp sample_client (init_world [])
      = (True, c1, w1)" and fd: "state_fd (en_state c1) = 3" and i1: "idle c1" and k1: "w_kern w1 = [3]"
    and st1: "en_state c1 = StIdle (Some \<lparr>s_impl = socket_impl_ctor 3 ipv4\<rparr>)"
    by (simp add: client_start_def sample_client_def client_ctor_def endpoint_ctor_def endpoint.defs idle_def
        socket_create_def impl_open_def do_sys_def counting_os_def tcp_def answer_def Let_def
        impl_default_def move_impl_def socket_impl_ctor_def impl_fd_def add_socket_def epoll_ctl_def
        no_fds_dtor impl_fds_def ex_bool_eq)
  obtain b c2 w2 where s2: "client_start counting_os (epoll_traits counting_os) tcp c1 w1 = (b, c2, w2)"
    using prod_cases3 by blast
  have b: "b = True"
    using s2 i1 k1 st1 by (simp add: client_start_def socket_create_def impl_open_def do_sys_def counting_os_def
        tcp_def answer_def Let_def impl_default_def move_impl_def ex_bool_eq split: prod.splits)
  obtain c3 w3 where s3: "client_stop counting_os (epoll_traits counting_os) c2 w2 = (c3, w3)" by fastforce
  show ?thesis
    using second_start_leaks_first_socket [OF counting_os_posix init_ledger s1 s2 [unfolded b] s3] fd s1 s2 s3
    by (simp add: client_run_Cons)
qed

subsection \<open>Events\<close>

text \<open>
  How often the callback \<open>d\<close> was made: \<open>n\<close> times while it is registered for
  disconnection, at most once more after that.
\<close>

definition disconnects :: "nat \<Rightarrow> nat \<Rightarrow> 'p client \<times> 'k world \<Rightarrow> bool" where
  "disconnects d n s \<longleftrightarrow>
     cl_on_connect (fst s) \<noteq> Some d \<and> cl_on_read_ready (fst s) \<noteq> Some d
   \<and> count_list (w_trace (snd s)) (Upcall d) \<le> (if cl_on_disconnect (fst s) = Some d then n else Suc n)"

definition disconnects_once ::
  "'k os \<Rightarrow> ('p, 'k world) poll_traits \<Rightarrow> ('p, 'k) client_app \<Rightarrow> nat \<Rightarrow> nat \<Rightarrow> nat option
   \<Rightarrow> 'p client \<times> 'k world \<Rightarrow> bool" where
  "disconnects_once K PT A d n u s \<longleftrightarrow>
     (app_ok K A \<and> poll_ok K PT \<and> (\<forall>s. fst (app_call A d s) = None) \<and> u \<noteq> Some d \<longrightarrow> disconnects d n s)"

lemma disconnects_other:
  "adds (\<lambda>e. benign e \<or> e = Upcall cb) w w' \<Longrightarrow> cb \<noteq> d \<Longrightarrow>
     count_list (w_trace w') (Upcall d) = count_list (w_trace w) (Upcall d)"
  by (erule adds_count) auto

lemma disconnects_benign: "adds benign w w' \<Longrightarrow> count_list (w_trace w') (Upcall d) = count_list (w_trace w) (Upcall d)"
  by (erule adds_count) auto

lemma call_app_count:
  assumes "app_ok K A" and "call_app A d (c, w) = (ex, (c', w'))"
  shows "count_list (w_trace w') (Upcall d) = Suc (count_list (w_trace w) (Upcall d))"
proof -
  have "adds benign (upcall d w) w'" using assms by (auto simp: app_ok_def call_app_def)
  from disconnects_benign [OF this] show ?thesis by simp
qed

lemma client_call_disconnects:
  assumes "client_call PT A h fd s = (ex, s1)" and "disconnects_once K PT A d n u s"
  shows "disconnects_once K PT A d n u s1"
  unfolding disconnects_once_def
proof
  assume asm: "app_ok K A \<and> poll_ok K PT \<and> (\<forall>s. fst (app_call A d s) = None) \<and> u \<noteq> Some d"
  obtain c w c' w' where s: "s = (c, w)" "s1 = (c', w')" by fastforce
  have J: "disconnects d n (c, w)" using assms(2) asm by (simp add: disconnects_once_def s)
  show "disconnects d n s1"
    using assms(1) [unfolded s] asm [THEN conjunct1]
  proof (rule client_call_cases)
    show "poll_benign PT" using asm by (simp add: poll_ok_def)
    show "pt_del PT p fd w = (ok, w1) \<Longrightarrow> via K quiet w w1" for p fd w ok w1
      using poll_okD(3) [OF asm [THEN conjunct2, THEN conjunct1]] by blast
  next
    assume "c' = c" "adds benign w w'"
    with J disconnects_benign [of w w' d] show ?thesis by (simp add: disconnects_def s)
  next
    fix cb assume *: "cl_on_connect c = Some cb" "adds (\<lambda>e. benign e \<or> e = Upcall cb) w w'"
      "(ex = None \<and> c' = c\<lparr>cl_on_connect := None\<rparr>) \<or> (ex \<noteq> None \<and> c' = c)"
    then have "cb \<noteq> d" using J by (auto simp: disconnects_def)
    with * J disconnects_other [OF *(2)] show ?thesis by (auto simp: disconnects_def s)
  next
    fix cb assume *: "cl_on_read_ready c = Some cb" "adds (\<lambda>e. benign e \<or> e = Upcall cb) w w'" "c' = c"
    then have "cb \<noteq> d" using J by (auto simp: disconnects_def)
    with * J disconnects_other [OF *(2)] show ?thesis by (auto simp: disconnects_def s)
  next
    fix cb w1 assume *: "cl_on_disconnect c = Some cb" "adds benign w w1"
      "call_app A cb (c, w1) = (ex, (c, w'))"
      "(ex = None \<and> c' = c\<lparr>cl_on_disconnect := None\<rparr>) \<or> (ex \<noteq> None \<and> c' = c)"
    note w1 = disconnects_benign [OF *(2), of d]
    show ?thesis
    proof (cases "cb = d")
      case True
      have "ex = None" using *(3) asm True by (metis call_app_def fst_conv)
      with * J True w1 call_app_count [OF asm [THEN conjunct1] *(3)] show ?thesis
        by (simp add: disconnects_def s)
    next
      case False
      have "count_list (w_trace w') (Upcall d) = count_list (w_trace w1) (Upcall d)"
        using disconnects_other [OF _ False] app_okD(1) [OF asm [THEN conjunct1] *(3)] by blast
      with * J False w1 show ?thesis by (auto simp: disconnects_def s)
    qed
  qed
qed

lemma client_unhandled_disconnects:
  assumes "client_unhandled A cb evs s = (ex, s1)" and "u = Some cb" and "disconnects_once K PT A d n u s"
  shows "disconnects_once K PT A d n u s1"
  unfolding disconnects_once_def
proof
  assume asm: "app_ok K A \<and> poll_ok K PT \<and> (\<forall>s. fst (app_call A d s) = None) \<and> u \<noteq> Some d"
  obtain c w c' w' where s: "s = (c, w)" "s1 = (c', w')" by fastforce
  note r = app_okD(2) [OF asm [THEN conjunct1] assms(1) [unfolded s]]
  have "count_list (w_trace w') (Upcall d) = count_list (w_trace w) (Upcall d)"
    using r asm assms(2) disconnects_other [of cb w w' d] by blast
  with r asm assms(3) show "disconnects d n s1" by (simp add: disconnects_once_def disconnects_def s)
qed

lemma client_poll_disconnects:
  assumes "(case s of (c, w) \<Rightarrow> case pt_proceed PT (en_poll c) t w of (evs, w1) \<Rightarrow> (evs, (c, w1))) = (evs, s1)"
    and "disconnects_once K PT A d n u s"
  shows "disconnects_once K PT A d n u s1"
proof -
  obtain c w where s: "s = (c, w)" by fastforce
  obtain w1 where p: "pt_proceed PT (en_poll c) t w = (evs, w1)" "s1 = (c, w1)"
    using assms(1) by (auto simp: s split: prod.splits)
  have "poll_ok K PT \<Longrightarrow> count_list (w_trace w1) (Upcall d) = count_list (w_trace w) (Upcall d)"
    using poll_okD(1) [OF _ p(1)] disconnects_benign by blast
  with assms(2) show ?thesis by (simp add: disconnects_once_def disconnects_def s p(2))
qed

interpretation dc: handler_contract "disconnects_once K PT A d n (ob_unhandled obs)"
  "\<lambda>t (c, w). case pt_proceed PT (en_poll c) t w of (evs, w1) \<Rightarrow> (evs, (c, w1))"
  "client_call PT A" "client_unhandled A" obs for K PT A d n obs
  by unfold_locales
    (blast intro: client_poll_disconnects client_call_disconnects client_unhandled_disconnects)+

lemma proceeds_disconnect_once:
  assumes "app_ok K A" and "poll_ok K PT" and "\<forall>s. fst (app_call A d s) = None"
    and "ob_unhandled (en_obs c) \<noteq> Some d" and "disconnects d n (c, w)"
    and "client_run K N PT A pr (map CProceed ts) (c, w) = (c', w')"
  shows "disconnects d n (c', w')"
  using assms(4-6)
proof (induction ts arbitrary: c w)
  case (Cons t ts)
  obtain res c1 w1 where st: "client_proceed PT A t (c, w) = (res, (c1, w1))" using prod_cases3 by blast
  have "disconnects_once K PT A d n (ob_unhandled (en_obs c)) (c1, w1)"
    using st unfolding client_proceed_def fst_conv
    by (rule dc.proceed_keeps) (use Cons.prems(2) in \<open>simp add: disconnects_once_def\<close>)
  then have "disconnects d n (c1, w1)"
    using assms(1-3) Cons.prems(1) by (simp add: disconnects_once_def)
  moreover have "en_obs c1 = en_obs c"
    using client_proceed_moved [OF st assms(1,2)] by (simp add: same_endpoint_def)
  ultimately show ?case using Cons.IH [of c1 w1] Cons.prems(1,3) st by (simp add: client_run_Cons)
qed simp

text \<open>
  C24: However many terminal events a client sees over any number of proceeds without a connect
  in between, a disconnect callback that never throws and is stored in no other place is called
  at most once, and after it was called it is no longer stored; the client's callbacks leave the
  client as it is.
\<close>

theorem on_disconnect_at_most_once:
  assumes "app_ok K A" and "\<forall>s. fst (app_call A d s) = None"
    and "cl_on_connect c \<noteq> Some d" and "cl_on_read_ready c \<noteq> Some d" and "ob_unhandled (en_obs c) \<noteq> Some d"
    and "cl_on_disconnect c = Some d"
    and "client_run K N (epoll_traits K) A pr (map CProceed ts) (c, w) = (c', w')"
  shows "count_list (w_trace w') (Upcall d) \<le> Suc (count_list (w_trace w) (Upcall d))
    \<and> (count_list (w_trace w') (Upcall d) = Suc (count_list (w_trace w) (Upcall d)) \<longrightarrow>
         cl_on_disconnect c' \<noteq> Some d)"
  using proceeds_disconnect_once [OF assms(1) epoll_ok assms(2,5) _ assms(7), of
      "count_list (w_trace w) (Upcall d)"] assms(3,4,6)
  by (auto simp: disconnects_def split: if_splits)

text \<open>
  The witness: a system that reports a hangup of the client's socket again and again.
\<close>

definition hangup_os :: "nat os" where
  "hangup_os k c =
     (case c of SysEpollWait ep m t \<Rightarrow> ((answer 1)\<lparr>rp_events := [(16, 7)]\<rparr>, k) | _ \<Rightarrow> (answer 0, k))"

definition connected_client :: "epoll_t client" where
  "connected_client =
     (client_register_cbs sample_client)
       \<lparr>en_state := StActive \<lparr>a_impl = socket_impl_ctor 7 ipv4, a_remote = None, a_local = None, a_accepted = False\<rparr>,
        cl_remote := Some (sample_addr 7777), cl_on_connect := Some 0, cl_on_read_ready := Some 1,
        cl_on_disconnect := Some 2\<rparr>"

theorem on_disconnect_at_most_once_witness:
  "count_list (w_trace (snd (client_run hangup_os sample_inet (epoll_traits hangup_os) silent_app tcp
     (map CProceed [50, 50, 50]) (connected_client, init_world 0)))) (Upcall 2) \<le> 1"
proof -
  obtain c' w' where run: "client_run hangup_os sample_inet (epoll_traits hangup_os) silent_app tcp
     (map CProceed [50, 50, 50]) (connected_client, init_world 0) = (c', w')" by fastforce
  have "\<forall>s. fst (app_call silent_app 2 s) = None" by (simp add: silent_app_def)
  from on_disconnect_at_most_once [OF silent_app_ok this _ _ _ _ run] show ?thesis
    unfolding run
    by (simp add: connected_client_def sample_client_def client_ctor_def endpoint_ctor_def endpoint.defs
        observer_ctor_def)
qed

text \<open>A run of \<^verbatim>\<open>proceed\<close> with one event.\<close>

lemma client_handlers_all:
  assumes "ob_handlers obs = client_handlers"
  shows "calls_of obs e = map (\<lambda>tp. the (client_handlers tp)) (filter (\<lambda>tp. ev_type e AND tp \<noteq> 0) event_order)"
  using assms by (simp add: calls_of_def event_order_def)

lemma client_proceed_one:
  assumes "pt_proceed PT (en_poll c) t w = ([e], w1)" and "ob_handlers (en_obs c) = client_handlers"
    and "ob_unhandled (en_obs c) = None"
    and "run_calls (client_call PT A) (ev_fd e) (calls_of (en_obs c) e) (c, w1) = (n, ex, s2)"
  shows "client_proceed PT A t (c, w) = (case ex of Some x \<Rightarrow> Inl [x] | None \<Rightarrow> Inr True, s2)"
  using assms
  by (simp add: client_proceed_def observer_proceed_def handle_event_spec handle_unhandled_def
      add_exception_def Let_def split: option.splits)

theorem read_ready_before_connect_throws:
  assumes "client_ok pr c" and "en_state c \<noteq> StIdle None" and "cl_on_read_ready c = None"
    and "ob_unhandled (en_obs c) = None"
    and "epoll_proceed K (en_poll c) t w = ([\<lparr>ev_fd = get_fd c, ev_type = READ_READY\<rparr>], w1)"
  shows "client_proceed (epoll_traits K) A t (c, w) = (Inl [BadFunctionCall], (c, w1))"
proof -
  have h: "ob_handlers (en_obs c) = client_handlers" using assms(1,2) by (simp add: client_ok_def)
  have "calls_of (en_obs c) \<lparr>ev_fd = get_fd c, ev_type = READ_READY\<rparr> = [ReadReady]"
    by (simp add: client_handlers_all [OF h] event_order_def) (simp add: event_type_defs)
  then show ?thesis
    using client_proceed_one [of "epoll_traits K" c t w _ w1 A, OF _ h assms(4)] assms(3,5) by simp
qed

definition readable_os :: "nat os" where
  "readable_os k c =
     (case c of SysEpollWait ep m t \<Rightarrow> ((answer 1)\<lparr>rp_events := [(1, 7)]\<rparr>, k) | _ \<Rightarrow> (answer 0, k))"

theorem read_ready_before_connect_throws_witness:
  "fst (client_proceed (epoll_traits readable_os) silent_app 50
     ((client_register_cbs sample_client)\<lparr>en_state := StIdle (Some \<lparr>s_impl = socket_impl_ctor 7 ipv4\<rparr>)\<rparr>,
      init_world 0)) = Inl [BadFunctionCall]"
proof -
  let ?c = "(client_register_cbs sample_client)\<lparr>en_state := StIdle (Some \<lparr>s_impl = socket_impl_ctor 7 ipv4\<rparr>)\<rparr>"
  have ok: "client_ok tcp ?c"
    by (simp add: client_ok_def register_cbs_handlers sample_client_def client_ctor_def endpoint_ctor_def
        endpoint.defs observer_ctor_def impl_fds_def socket_impl_ctor_def)
  obtain evs w1 where e: "epoll_proceed readable_os (en_poll ?c) 50 (init_world 0) = (evs, w1)" by fastforce
  have evs: "evs = [\<lparr>ev_fd = get_fd ?c, ev_type = READ_READY\<rparr>]"
    using e by (simp add: epoll_proceed_def readable_os_def do_sys_def c_int_def Let_def answer_def get_fd_def
        impl_fd_def socket_impl_ctor_def event_type_from_flags_def add_flag_def enum_or_def event_type_defs
        split: if_splits)
  show ?thesis
    using read_ready_before_connect_throws [OF ok _ _ _ e [unfolded evs]]
    by (simp add: sample_client_def client_ctor_def endpoint_ctor_def endpoint.defs observer_ctor_def)
qed

text \<open>
  The kernel reports a stream socket that is not connected yet as writable and hung up.
\<close>

lemma early_hangup_run:
  assumes "client_ok pr c" and "en_state c \<noteq> StIdle None"
    and "cl_on_connect c = None" and "cl_on_disconnect c = None" and "ob_unhandled (en_obs c) = None"
    and "epoll_proceed K (en_poll c) t w = ([\<lparr>ev_fd = get_fd c, ev_type = enum_or WRITE_READY HANGUP\<rparr>], w1)"
    and "client_proceed (epoll_traits K) A t (c, w) = (res, (c2, w2))"
  shows "res = Inr True \<and> c2 = c
    \<and> (\<exists>r. do_sys K (SysEpollCtl (ep_fd (en_poll c)) EPOLL_CTL_DEL (get_fd c) None) w1 = (r, w2))"
proof -
  have h: "ob_handlers (en_obs c) = client_handlers" using assms(1,2) by (simp add: client_ok_def)
  let ?e = "\<lparr>ev_fd = get_fd c, ev_type = enum_or WRITE_READY HANGUP\<rparr>"
  have calls: "calls_of (en_obs c) ?e = [WriteReady, Erase]"
    by (simp add: client_handlers_all [OF h] event_order_def) (simp add: event_type_defs enum_or_def)
  obtain ok u where del: "pt_del (epoll_traits K) (en_poll c) (get_fd c) w1 = (ok, u)" by fastforce
  have run: "run_calls (client_call (epoll_traits K) A) (ev_fd ?e) (calls_of (en_obs c) ?e) (c, w1)
      = (2, None, (c, u))"
    using del assms(3,4) by (simp add: calls numeral_2_eq_2)
  have "(res, (c2, w2)) = (Inr True, (c, u))"
    using client_proceed_one [OF _ h assms(5) run] assms(6,7) by simp
  with del show ?thesis by (auto simp: del_socket_def epoll_ctl_def split: prod.splits)
qed

theorem early_hangup_unsubscribes:
  assumes "client_ok pr c" and "en_state c \<noteq> StIdle None"
    and "cl_on_connect c = None" and "cl_on_disconnect c = None" and "ob_unhandled (en_obs c) = None"
    and "epoll_proceed K (en_poll c) t w = ([\<lparr>ev_fd = get_fd c, ev_type = enum_or WRITE_READY HANGUP\<rparr>], w1)"
    and "client_proceed (epoll_traits K) A t (c, w) = (res, (c2, w2))"
    and "client_connect K N pr addr prt onc onr ond c2 w2 = (True, c3, w3)"
  shows "state_fd (en_state c3) = get_fd c
    \<and> (\<exists>r e. w_trace w2 = Sys (SysEpollCtl (ep_fd (en_poll c)) EPOLL_CTL_DEL (get_fd c) None) r e # w_trace w1)
    \<and> adds (\<lambda>ev. is_connect ev \<or> ev = Ub DanglingCapture) w2 w3"
proof -
  note run = early_hangup_run [OF assms(1-7)]
  have "adds (\<lambda>ev. is_connect ev \<or> ev = Ub DanglingCapture) w2 w3"
    using client_connect_cases [OF assms(8), THEN conjunct2, THEN conjunct1] run assms(1)
    by (auto elim!: adds_mono)
  moreover have "state_fd (en_state c3) = get_fd c"
    using client_ok_connect [OF assms(8)] run assms(1) by (simp add: get_fd_def)
  ultimately show ?thesis using run do_sys_trace by blast
qed

definition fresh_hangup_os :: "nat os" where
  "fresh_hangup_os k c =
     (case c of SysEpollWait ep m t \<Rightarrow> ((answer 1)\<lparr>rp_events := [(20, 7)]\<rparr>, k) | _ \<Rightarrow> (answer 0, k))"

definition idle_client :: "epoll_t client" where
  "idle_client =
     (client_register_cbs sample_client)\<lparr>en_state := StIdle (Some \<lparr>s_impl = socket_impl_ctor 7 ipv4\<rparr>)\<rparr>"

lemma idle_client_simps [simp]:
  "client_ok tcp idle_client" "en_state idle_client = StIdle (Some \<lparr>s_impl = socket_impl_ctor 7 ipv4\<rparr>)"
  "cl_on_connect idle_client = None" "cl_on_disconnect idle_client = None" "cl_on_read_ready idle_client = None"
  "ob_unhandled (en_obs idle_client) = None" "get_fd idle_client = 7"
  "en_poll idle_client = \<lparr>ep_fd = 3, ep_max_events = 10\<rparr>"
  by (simp_all add: client_ok_def register_cbs_handlers sample_client_def client_ctor_def endpoint_ctor_def
      endpoint.defs observer_ctor_def impl_fds_def socket_impl_ctor_def idle_client_def get_fd_def impl_fd_def)

lemma sample_parse: "\<exists>a. from_string_and_port sample_inet junk ''aaaaaaaa'' prt = Some a \<and> is_ipv4 (ap_addr a)"
  by (simp add: from_string_and_port_def create_def init_def parser_def sample_inet_def inet_consts Let_def
      c_str_def addr_bytes_def is_ipv4_def)

theorem early_hangup_unsubscribes_witness:
  "\<exists>w2 w3 c3. client_proceed (epoll_traits fresh_hangup_os) silent_app 50 (idle_client, init_world 0)
       = (Inr True, (idle_client, w2))
     \<and> client_connect fresh_hangup_os sample_inet tcp ''aaaaaaaa'' 7777 None None None idle_client w2 = (True, c3, w3)
     \<and> state_fd (en_state c3) = 7"
proof -
  let ?K = fresh_hangup_os
  obtain evs w1 where e: "epoll_proceed ?K (en_poll idle_client) 50 (init_world 0) = (evs, w1)" by fastforce
  have evs: "evs = [\<lparr>ev_fd = get_fd idle_client, ev_type = enum_or WRITE_READY HANGUP\<rparr>]"
    and w1: "w_connect_static w1 = (\<lambda>_. False)"
    using e by (auto simp: epoll_proceed_def fresh_hangup_os_def do_sys_def c_int_def Let_def answer_def
        event_type_from_flags_def add_flag_def enum_or_def event_type_defs split: if_splits)
  obtain res c2 w2 where p: "client_proceed (epoll_traits ?K) silent_app 50 (idle_client, init_world 0) = (res, (c2, w2))"
    using prod_cases3 by blast
  have run: "c2 = idle_client" "\<exists>r. do_sys ?K (SysEpollCtl 3 EPOLL_CTL_DEL 7 None) w1 = (r, w2)" "res = Inr True"
    using early_hangup_run [OF idle_client_simps(1) _ _ _ _ e [unfolded evs] p] by simp_all
  obtain b c3 w3 where cn: "client_connect ?K sample_inet tcp ''aaaaaaaa'' 7777 None None None c2 w2 = (b, c3, w3)"
    using prod_cases3 by blast
  have "w_connect_static w2 = (\<lambda>_. False)" using run(2) w1 do_sys_frame(2) by metis
  then have "b = True"
    using cn run sample_parse [of "w_junk w2" 7777]
    by (auto simp: client_connect_def connect_closure_def socket_connect_def impl_connect_def connect_addr_def
        socket_impl_ctor_def do_sys_def fresh_hangup_os_def answer_def is_ipv4_def Let_def
        split: prod.splits)
  with early_hangup_unsubscribes [OF idle_client_simps(1) _ _ _ _ e [unfolded evs] p cn [unfolded \<open>b = True\<close>]]
  show ?thesis using cn p run by auto
qed

text \<open>
  C25: When the poll reports one event that says both that data is ready and that the peer
  closed, to a started client without a callback for unhandled events whose read and disconnect
  callbacks do not throw and leave the client as it is, the client first calls the read
  callback, then removes the socket from the poll, then calls the disconnect callback, which it
  forgets.
\<close>

theorem data_is_delivered_before_disconnect:
  assumes "client_ok pr c" and "en_state c \<noteq> StIdle None" and "app_ok K A"
    and "cl_on_read_ready c = Some r" and "cl_on_disconnect c = Some d" and "ob_unhandled (en_obs c) = None"
    and "\<forall>s. fst (app_call A r s) = None" and "\<forall>s. fst (app_call A d s) = None"
    and "epoll_proceed K (en_poll c) t w = ([\<lparr>ev_fd = get_fd c, ev_type = enum_or READ_READY PEER_CLOSED\<rparr>], w1)"
    and "client_proceed (epoll_traits K) A t (c, w) = (res, (c2, w2))"
  shows "res = Inr True \<and> c2 = c\<lparr>cl_on_disconnect := None\<rparr>
    \<and> (\<exists>t1 t2 x e.
         w_trace w2 = t2 @ Upcall d # Sys (SysEpollCtl (ep_fd (en_poll c)) EPOLL_CTL_DEL (get_fd c) None) x e
           # t1 @ Upcall r # w_trace w1
         \<and> (\<forall>ev \<in> set (t1 @ t2). benign ev))"
proof -
  have h: "ob_handlers (en_obs c) = client_handlers" using assms(1,2) by (simp add: client_ok_def)
  let ?e = "\<lparr>ev_fd = get_fd c, ev_type = enum_or READ_READY PEER_CLOSED\<rparr>"
  have calls: "calls_of (en_obs c) ?e = [ReadReady, Erase]"
    by (simp add: client_handlers_all [OF h] event_order_def) (simp add: event_type_defs enum_or_def)
  obtain ex1 c3 w3 where a1: "app_call A r (c, upcall r w1) = (ex1, (c3, w3))" using prod_cases3 by blast
  then have r1: "ex1 = None" "c3 = c" "adds benign (upcall r w1) w3"
    using assms(7) [rule_format, of "(c, upcall r w1)"] assms(3) by (auto simp: app_ok_def)
  obtain ok u where del: "del_socket K (en_poll c) (get_fd c) w3 = (ok, u)" by fastforce
  then obtain x where sys: "do_sys K (SysEpollCtl (ep_fd (en_poll c)) EPOLL_CTL_DEL (get_fd c) None) w3 = (x, u)"
    by (auto simp: del_socket_def epoll_ctl_def split: prod.splits)
  obtain ex2 c4 w4 where a2: "app_call A d (c, upcall d u) = (ex2, (c4, w4))" using prod_cases3 by blast
  then have r2: "ex2 = None" "c4 = c" "adds benign (upcall d u) w4"
    using assms(8) [rule_format, of "(c, upcall d u)"] assms(3) by (auto simp: app_ok_def)
  have run: "run_calls (client_call (epoll_traits K) A) (ev_fd ?e) (calls_of (en_obs c) ?e) (c, w1)
      = (2, None, (c\<lparr>cl_on_disconnect := None\<rparr>, w4))"
    using a1 r1 del a2 r2 assms(4,5) by (simp add: calls call_app_def numeral_2_eq_2)
  have "(res, (c2, w2)) = (Inr True, (c\<lparr>cl_on_disconnect := None\<rparr>, w4))"
    using client_proceed_one [OF _ h assms(6) run] assms(9,10) by simp
  then have res: "res = Inr True" "c2 = c\<lparr>cl_on_disconnect := None\<rparr>" "w2 = w4" by simp_all
  obtain t1 t2 where t1: "w_trace w3 = t1 @ Upcall r # w_trace w1" "\<forall>ev \<in> set t1. benign ev"
    and t2: "w_trace w4 = t2 @ Upcall d # w_trace u" "\<forall>ev \<in> set t2. benign ev"
    using r1(3) r2(3) by (auto simp: adds_def)
  have "w_trace w4 = t2 @ Upcall d # Sys (SysEpollCtl (ep_fd (en_poll c)) EPOLL_CTL_DEL (get_fd c) None)
      (rp_ret x) (w_errno u) # t1 @ Upcall r # w_trace w1"
    using t1 t2 do_sys_trace [OF sys] by simp
  with res t1 t2 show ?thesis by (metis Un_iff set_append)
qed

definition closing_os :: "nat os" where
  "closing_os k c =
     (case c of SysEpollWait ep m t \<Rightarrow> ((answer 1)\<lparr>rp_events := [(8193, 7)]\<rparr>, k) | _ \<Rightarrow> (answer 0, k))"

lemma connected_client_simps [simp]:
  "client_ok tcp connected_client" "en_state connected_client \<noteq> StIdle None"
  "cl_on_connect connected_client = Some 0" "cl_on_read_ready connected_client = Some 1"
  "cl_on_disconnect connected_client = Some 2"
  "ob_unhandled (en_obs connected_client) = None" "get_fd connected_client = 7"
  "en_poll connected_client = \<lparr>ep_fd = 3, ep_max_events = 10\<rparr>"
  by (simp_all add: client_ok_def register_cbs_handlers sample_client_def client_ctor_def endpoint_ctor_def
      endpoint.defs observer_ctor_def impl_fds_def socket_impl_ctor_def connected_client_def get_fd_def impl_fd_def)

theorem data_is_delivered_before_disconnect_witness:
  "cl_on_disconnect (fst (snd (client_proceed (epoll_traits closing_os) silent_app 50
     (connected_client, init_world 0)))) = None"
proof -
  obtain evs w1 where e: "epoll_proceed closing_os (en_poll connected_client) 50 (init_world 0) = (evs, w1)"
    by fastforce
  have evs: "evs = [\<lparr>ev_fd = get_fd connected_client, ev_type = enum_or READ_READY PEER_CLOSED\<rparr>]"
    using e by (auto simp: epoll_proceed_def closing_os_def do_sys_def c_int_def Let_def answer_def
        event_type_from_flags_def add_flag_def enum_or_def event_type_defs split: if_splits)
  obtain res c2 w2 where p: "client_proceed (epoll_traits closing_os) silent_app 50 (connected_client, init_world 0)
      = (res, (c2, w2))" using prod_cases3 by blast
  have "\<forall>s. fst (app_call silent_app 1 s) = None" "\<forall>s. fst (app_call silent_app 2 s) = None"
    by (simp_all add: silent_app_def)
  from data_is_delivered_before_disconnect [OF connected_client_simps(1) _ silent_app_ok _ _ _ this e [unfolded evs] p] p
  show ?thesis by simp
qed

subsection \<open>Connecting\<close>

lemma connect_opened:
  assumes "client_ok pr c" and "\<not> is_connectionless pr" and "\<forall>s. en_state c \<noteq> StActive s"
    and "client_connect K N pr addr prt onc onr ond c w = (b, c', w')"
  shows "(b \<longrightarrow> (\<exists>s. en_state c' = StActive s)
           \<and> state_fds (en_state c') = state_fds (en_state c)
           \<and> cl_remote c' = from_string_and_port N (w_junk w) addr prt
           \<and> cl_on_connect c' = onc \<and> cl_on_read_ready c' = onr \<and> cl_on_disconnect c' = ond
           \<and> (\<exists>sa r e. w_trace w' = Sys (SysConnect (get_fd c) sa) r e # w_trace w
                \<and> (r = 0 \<or> e = EINPROGRESS)))
       \<and> (\<not> b \<longrightarrow> c' = c)"
proof -
  have cases: "c' = c \<or> (b \<and> (\<exists>a act. from_string_and_port N (w_junk w) addr prt = Some a
      \<and> c' = (set_fields a onc onr ond c)\<lparr>en_state := StActive act\<rparr>
      \<and> state_fds (StActive act) = state_fds (en_state c)))"
    using client_connect_cases [OF assms(4,1)] by blast
  have reached: "(\<exists>sa r e. w_trace w' = Sys (SysConnect (get_fd c) sa) r e # w_trace w \<and> (r = 0 \<or> e = EINPROGRESS))
      \<and> c' \<noteq> c" if b
  proof (cases "en_state c")
    case (StIdle x)
    with assms(2,4) \<open>b\<close> obtain s where x: "x = Some s"
      by (cases x) (auto simp: client_connect_def Let_def)
    let ?w = "w\<lparr>w_connect_static := (w_connect_static w)(False := True)\<rparr>"
    from assms(2,4) StIdle x \<open>b\<close>
    have cl: "connect_closure (socket_connect K) (\<lambda>x. StIdle (Some x)) K (\<not> w_connect_static w False)
        (from_string_and_port N (w_junk w) addr prt) (\<lambda>a. set_fields a onc onr ond) s c ?w = (True, c', w')"
      by (simp add: client_connect_def Let_def)
    have fds: "state_fds (StIdle (Some s)) \<noteq> {}" using assms(1) StIdle x by (simp add: client_ok_def)
    have "\<exists>act. en_state c' = StActive act"
      using of_socket.closure_cases [OF cl] fds StIdle x by auto
    with of_socket.closure_connected [OF cl] StIdle x assms(3) show ?thesis by (auto simp: get_fd_def)
  next
    case (StBinded s)
    let ?w = "w\<lparr>w_connect_static := (w_connect_static w)(False := True)\<rparr>"
    from assms(2,4) StBinded \<open>b\<close>
    have cl: "connect_closure (binded_connect K) StBinded K (\<not> w_connect_static w False)
        (from_string_and_port N (w_junk w) addr prt) (\<lambda>a. set_fields a onc onr ond) s c ?w = (True, c', w')"
      by (simp add: client_connect_def Let_def)
    have fds: "state_fds (StBinded s) \<noteq> {}" using assms(1) StBinded by (simp add: client_ok_def)
    have "\<exists>act. en_state c' = StActive act"
      using of_binded.closure_cases [OF cl] fds StBinded by auto
    with of_binded.closure_connected [OF cl] StBinded assms(3) show ?thesis by (auto simp: get_fd_def)
  qed (use assms in \<open>simp_all add: client_ok_def\<close>)
  show ?thesis
  proof (cases b)
    case True
    from cases reached [OF True] obtain a act where
      "from_string_and_port N (w_junk w) addr prt = Some a"
      "c' = (set_fields a onc onr ond c)\<lparr>en_state := StActive act\<rparr>"
      "state_fds (StActive act) = state_fds (en_state c)" by blast
    with reached [OF True] True show ?thesis by (simp add: set_fields_def del: state_fds.simps)
  next
    case False
    with cases show ?thesis by simp
  qed
qed

text \<open>
  C21: The first connect of a connection based client in the process, on one that is not yet
  active, either fails and leaves the client as it was, or has connected the descriptor it held,
  made the client active on the same descriptor, and stored the remote address and the three
  callbacks in their places. From the second connect on the static lambdas of connect hold
  references to parameters that are gone, and nothing is promised.
\<close>

theorem connect_opens_the_connection:
  assumes "client_ok pr c" and "\<not> is_connectionless pr" and "\<forall>s. en_state c \<noteq> StActive s"
    and "\<not> w_connect_static w False"
    and "client_connect K N pr addr prt onc onr ond c w = (b, c', w')"
  shows "(b \<longrightarrow> (\<exists>s. en_state c' = StActive s)
           \<and> state_fds (en_state c') = state_fds (en_state c)
           \<and> cl_remote c' = from_string_and_port N (w_junk w) addr prt
           \<and> cl_on_connect c' = onc \<and> cl_on_read_ready c' = onr \<and> cl_on_disconnect c' = ond
           \<and> (\<exists>sa r e. w_trace w' = Sys (SysConnect (get_fd c) sa) r e # w_trace w
                \<and> (r = 0 \<or> e = EINPROGRESS)))
       \<and> (\<not> b \<longrightarrow> c' = c)"
  using assms(1-3,5) by (rule connect_opened)

theorem connect_opens_the_connection_witness:
  "\<exists>c' w'. client_connect fresh_hangup_os sample_inet tcp ''aaaaaaaa'' 7777 (Some 0) None (Some 2) idle_client
       (init_world 0) = (True, c', w') \<and> state_fds (en_state c') = {7} \<and> cl_on_disconnect c' = Some 2"
proof -
  obtain b c3 w3 where cn: "client_connect fresh_hangup_os sample_inet tcp ''aaaaaaaa'' 7777 (Some 0) None (Some 2)
      idle_client (init_world 0) = (b, c3, w3)"
    using prod_cases3 by blast
  have "b = True"
    using cn sample_parse [of "\<lambda>_. 0" 7777]
    by (auto simp: client_connect_def connect_closure_def socket_connect_def impl_connect_def connect_addr_def
        socket_impl_ctor_def do_sys_def fresh_hangup_os_def answer_def is_ipv4_def Let_def
        split: prod.splits)
  with cn connect_opens_the_connection [OF idle_client_simps(1) _ _ _ cn] show ?thesis
    by (simp add: impl_fds_def socket_impl_ctor_def)
qed

theorem connect_on_active_changes_nothing_but_fields:
  assumes "en_state c = StActive s" and "from_string_and_port N (w_junk w) addr prt = Some a"
    and "\<not> w_connect_static w (is_connectionless pr)"
    and "client_connect K N pr addr prt onc onr ond c w = (b, c', w')"
  shows "b \<and> w_trace w' = w_trace w \<and> en_state c' = StActive s \<and> cl_remote c' = Some a"
  using assms by (auto simp: client_connect_def set_fields_def Let_def)

theorem connect_on_active_changes_nothing_but_fields_witness:
  "\<exists>c' w'. client_connect closing_os sample_inet tcp ''aaaaaaaa'' 7777 None None None connected_client (init_world 0)
     = (True, c', w') \<and> w_trace w' = []"
proof -
  obtain a where a: "from_string_and_port sample_inet (w_junk (init_world (0::nat))) ''aaaaaaaa'' 7777 = Some a"
    using sample_parse by blast
  obtain s where s: "en_state connected_client = StActive s" by (simp add: connected_client_def)
  obtain b c3 w3 where cn: "client_connect closing_os sample_inet tcp ''aaaaaaaa'' 7777 None None None
      connected_client (init_world 0) = (b, c3, w3)" using prod_cases3 by blast
  from connect_on_active_changes_nothing_but_fields [OF s a _ cn] cn show ?thesis by simp
qed

lemma connect_sets_static:
  assumes "client_connect K N pr addr prt onc onr ond c w = (b, c', w')"
  shows "w_connect_static w' (is_connectionless pr)"
proof (cases "en_state c")
  case (StIdle x)
  with assms show ?thesis
    by (cases x) (auto simp: client_connect_def Let_def split: if_splits dest: of_socket.closure_static)
next
  case (StBinded s)
  with assms show ?thesis
    by (auto simp: client_connect_def Let_def dest: of_binded.closure_static)
next
  case (StActive s)
  with assms show ?thesis
    by (auto simp: client_connect_def Let_def split: option.splits if_splits)
qed (use assms in \<open>auto simp: client_connect_def Let_def\<close>)

theorem second_connect_uses_dangling_captures:
  assumes "client_connect K N pr addr1 prt1 onc1 onr1 ond1 c1 w = (ok1, c1', w1)"
    and "client_ok pr c2" and "\<not> is_connectionless pr" and "en_state c2 \<noteq> StIdle None"
    and "\<forall>s. en_state c2 \<noteq> StActive s"
    and "client_connect K N pr addr2 prt2 onc2 onr2 ond2 c2 w1 = (ok2, c2', w2)"
  shows "\<not> ok2 \<and> c2' = c2 \<and> w_trace w2 = Ub DanglingCapture # w_trace w1"
proof -
  have static: "w_connect_static w1 False" using connect_sets_static [OF assms(1)] assms(3) by simp
  show ?thesis
  proof (cases "en_state c2")
    case (StIdle x)
    with assms(4) obtain s where "x = Some s" by (cases x) auto
    with assms(3,6) StIdle static show ?thesis by (auto simp: client_connect_def connect_closure_def Let_def)
  next
    case (StBinded s)
    with assms(3,6) static show ?thesis by (auto simp: client_connect_def connect_closure_def Let_def)
  qed (use assms(2,5) in \<open>simp_all add: client_ok_def\<close>)
qed

theorem second_connect_uses_dangling_captures_witness:
  "Ub DanglingCapture \<in> set (w_trace (snd (snd
     (client_connect fresh_hangup_os sample_inet tcp ''aaaaaaaa'' 7778 None None None idle_client
       (snd (snd (client_connect fresh_hangup_os sample_inet tcp ''aaaaaaaa'' 7777 None None None idle_client
         (init_world 0))))))))"
proof -
  obtain b1 c1 w1 where c1: "client_connect fresh_hangup_os sample_inet tcp ''aaaaaaaa'' 7777 None None None
      idle_client (init_world 0) = (b1, c1, w1)" using prod_cases3 by blast
  obtain b2 c2 w2 where c2: "client_connect fresh_hangup_os sample_inet tcp ''aaaaaaaa'' 7778 None None None
      idle_client w1 = (b2, c2, w2)" using prod_cases3 by blast
  from second_connect_uses_dangling_captures [OF c1 idle_client_simps(1) _ _ _ c2] c1 c2 show ?thesis by simp
qed

theorem udp_client_needs_a_local_address:
  assumes "is_connectionless pr" and "client_start K (epoll_traits K) pr c w = (True, c1, w1)"
    and "client_connect K N pr addr prt onc onr ond c1 w1 = (b, c2, w2)"
  shows "\<not> b \<and> c2 = c1 \<and> w_trace w2 = w_trace w1 \<and> client_send K pr c2 buf n w2 = (None, w2)"
proof -
  obtain t where "en_state c1 = StIdle (Some t)"
    using assms(2) by (cases rule: client_start_cases) (auto dest: assign_idle)
  with assms(1,3) show ?thesis
    by (auto simp: client_connect_def client_send_def Let_def)
qed

theorem udp_client_needs_a_local_address_witness:
  "\<exists>c1 w1. client_start counting_os (epoll_traits counting_os) udp sample_client (init_world []) = (True, c1, w1)
     \<and> \<not> fst (client_connect counting_os sample_inet udp ''aaaaaaaa'' 7777 (Some 0) (Some 1) (Some 2) c1 w1)"
proof -
  obtain b c1 w1 where s1: "client_start counting_os (epoll_traits counting_os) udp sample_client (init_world [])
      = (b, c1, w1)" using prod_cases3 by blast
  have b: "b = True"
    using s1 by (simp add: client_start_def sample_client_def client_ctor_def endpoint_ctor_def endpoint.defs
        idle_def socket_create_def impl_open_def do_sys_def counting_os_def udp_def answer_def Let_def
        impl_default_def move_impl_def ex_bool_eq split: prod.splits)
  obtain b2 c2 w2 where c2: "client_connect counting_os sample_inet udp ''aaaaaaaa'' 7777 (Some 0) (Some 1) (Some 2)
      c1 w1 = (b2, c2, w2)" using prod_cases3 by blast
  from udp_client_needs_a_local_address [OF _ s1 [unfolded b] c2] s1 b c2 show ?thesis by simp
qed

subsection \<open>Stopping\<close>

theorem stop_leaves_the_write_handler:
  assumes "client_ok pr c" and "en_state c \<noteq> StIdle None"
    and "client_stop K (epoll_traits K) c w = (c', w')"
  shows "ob_handlers (en_obs c') = [WRITE_READY \<mapsto> WriteReady] \<and> en_state c' = StIdle None
    \<and> open_fds (w_trace w') = open_fds (w_trace w) - state_fds (en_state c)"
proof -
  obtain ok w1 where del: "pt_del (epoll_traits K) (en_poll c) (get_fd c) w = (ok, w1)"
    and w': "w' = state_dtor K (en_state c) w1"
    and c': "c' = client_unregister_cbs (c\<lparr>en_state := StIdle None\<rparr>)"
    using client_stop_eq [OF assms(3)] by blast
  have "ob_handlers (en_obs c) = client_handlers" using assms(1,2) by (simp add: client_ok_def)
  moreover have "open_fds (w_trace w1) = open_fds (w_trace w)"
    using poll_okD(3) [OF epoll_ok del] via_quiet by blast
  ultimately show ?thesis
    unfolding c' w' unregister_cbs_handlers by (auto simp: client_handlers_def open_fds_state_dtor)
qed

theorem stop_leaves_the_write_handler_witness:
  "ob_handlers (en_obs (fst (client_stop counting_os (epoll_traits counting_os) connected_client (init_world []))))
     WRITE_READY = Some WriteReady"
proof -
  obtain c' w' where st: "client_stop counting_os (epoll_traits counting_os) connected_client (init_world []) = (c', w')"
    by fastforce
  from stop_leaves_the_write_handler [OF connected_client_simps(1,2) st] st show ?thesis by simp
qed

end
