(* ===== verification/Accepted.thy ===== *)
theory Accepted
  imports Endpoint
begin

section \<open>The server's view of its peers\<close>

text \<open>
  Models \<^verbatim>\<open>include/endpoint/accepted_sock.h\<close>, \<^verbatim>\<open>accepted_sock_ref.h\<close> and the interfaces
  \<^verbatim>\<open>send_i\<close>, \<^verbatim>\<open>recv_i\<close> and \<^verbatim>\<open>send_recv_i\<close> that they implement. The public
  \<^verbatim>\<open>send\<close>, \<^verbatim>\<open>recv\<close>, \<^verbatim>\<open>finished_send\<close> and \<^verbatim>\<open>finished_recv\<close> forward to the private
  virtual functions, so one definition stands for both.

  An \<^verbatim>\<open>accepted_sock\<close> owns the accepted connection. An \<^verbatim>\<open>accepted_sock_ref\<close> points to the
  state of a connectionless server: the model keeps whether the pointer is set and passes the
  server's state along.
\<close>

subsection \<open>\<^verbatim>\<open>accepted_sock\<close>\<close>

record accepted_sock =
  as_sock :: active_socket_t
  as_remote :: in_address_port_t

definition move_active :: "active_socket_t \<Rightarrow> active_socket_t \<times> active_socket_t" where
  "move_active s =
     (case move_impl (a_impl s) of (i, rest) \<Rightarrow> (s\<lparr>a_impl := i\<rparr>, s\<lparr>a_impl := rest\<rparr>))"

definition accepted_ctor :: "in_address_port_t \<Rightarrow> active_socket_t \<Rightarrow> accepted_sock \<times> active_socket_t" where
  "accepted_ctor rem sock =
     (case move_active sock of (s, rest) \<Rightarrow> (\<lparr>as_sock = s, as_remote = rem\<rparr>, rest))"

definition accepted_move :: "accepted_sock \<Rightarrow> accepted_sock \<times> accepted_sock" where
  "accepted_move other =
     (case move_active (as_sock other) of
        (s, rest) \<Rightarrow> (\<lparr>as_sock = s, as_remote = as_remote other\<rparr>, other\<lparr>as_sock := rest\<rparr>))"

definition accepted_move_assign :: "accepted_sock \<Rightarrow> accepted_sock \<Rightarrow> accepted_sock \<times> accepted_sock" where
  "accepted_move_assign this other =
     (case move_assign_impl (a_impl (as_sock this)) (a_impl (as_sock other)) of
        (i, rest) \<Rightarrow>
          (\<lparr>as_sock = (as_sock other)\<lparr>a_impl := i\<rparr>, as_remote = as_remote other\<rparr>,
           other\<lparr>as_sock := (as_sock other)\<lparr>a_impl := rest\<rparr>\<rparr>))"

definition accepted_fd :: "accepted_sock \<Rightarrow> int" where
  "accepted_fd s = impl_fd (a_impl (as_sock s))"

definition accepted_dtor :: "'k os \<Rightarrow> accepted_sock \<Rightarrow> 'k world \<Rightarrow> 'k world" where
  "accepted_dtor K s w = active_dtor K (as_sock s) w"

definition accepted_send ::
  "'k os \<Rightarrow> accepted_sock \<Rightarrow> byte list \<Rightarrow> size_t \<Rightarrow> 'k world \<Rightarrow> size_t option \<times> accepted_sock \<times> 'k world" where
  "accepted_send K s buffer n w =
     (case send_conn K (as_sock s) buffer n 0 w of (r, w1) \<Rightarrow> (r, s, w1))"

definition accepted_recv ::
  "'k os \<Rightarrow> accepted_sock \<Rightarrow> byte list \<Rightarrow> size_t \<Rightarrow> 'k world
   \<Rightarrow> (in_address_port_t \<times> size_t) option \<times> byte list \<times> accepted_sock \<times> 'k world" where
  "accepted_recv K s buffer n w =
     (case receive_conn K (as_sock s) buffer n 0 w of
        (r, buf, w1) \<Rightarrow> (mbind r (\<lambda>got. Some (as_remote s, got)), buf, s, w1))"

definition accepted_finished :: "accepted_sock \<Rightarrow> 'k world \<Rightarrow> bool" where
  "accepted_finished s w \<longleftrightarrow> again w \<or> active_would_block w"

subsection \<open>\<^verbatim>\<open>accepted_sock_ref\<close>\<close>

record accepted_ref =
  ar_set :: bool
  ar_remote :: "in_address_port_t option"

definition ref_ctor :: accepted_ref where
  "ref_ctor = \<lparr>ar_set = True, ar_remote = None\<rparr>"

definition ref_move :: "accepted_ref \<Rightarrow> accepted_ref \<times> accepted_ref" where
  "ref_move other = (other, other\<lparr>ar_set := False\<rparr>)"

text \<open>The move assignment copies the raw pointer; the source keeps its own.\<close>

definition ref_move_assign :: "accepted_ref \<Rightarrow> accepted_ref \<Rightarrow> accepted_ref \<times> accepted_ref" where
  "ref_move_assign this other = (this\<lparr>ar_set := ar_set other, ar_remote := ar_remote other\<rparr>, other)"

text \<open>\<^verbatim>\<open>std::get_if\<close>: the active socket, if the pointer is set and the server holds one.\<close>

definition ref_active :: "accepted_ref \<Rightarrow> sock_state \<Rightarrow> active_socket_t option" where
  "ref_active s st = (if ar_set s then (case st of StActive a \<Rightarrow> Some a | _ \<Rightarrow> None) else None)"

definition ref_send ::
  "'k os \<Rightarrow> sock_state \<Rightarrow> accepted_ref \<Rightarrow> byte list \<Rightarrow> size_t \<Rightarrow> 'k world
   \<Rightarrow> size_t option \<times> accepted_ref \<times> 'k world" where
  "ref_send K st s buffer n w =
     (case ref_active s st of
        None \<Rightarrow> (None, s, w)
      | Some sock \<Rightarrow>
          (case ar_remote s of
             Some a \<Rightarrow> (case send_less K sock a buffer n 0 w of (r, w1) \<Rightarrow> (r, s, w1))
           | None \<Rightarrow> (None, s, w)))"

definition ref_recv ::
  "'k os \<Rightarrow> sock_state \<Rightarrow> accepted_ref \<Rightarrow> byte list \<Rightarrow> size_t \<Rightarrow> 'k world
   \<Rightarrow> (in_address_port_t \<times> size_t) option \<times> byte list \<times> accepted_ref \<times> 'k world" where
  "ref_recv K st s buffer n w =
     (case ref_active s st of
        None \<Rightarrow> (None, buffer, s, w)
      | Some sock \<Rightarrow>
          (case receive_less K sock buffer n 0 w of
             (Some (a, got), buf, w1) \<Rightarrow> (Some (a, got), buf, s\<lparr>ar_remote := Some a\<rparr>, w1)
           | (None, buf, w1) \<Rightarrow> (None, buf, s, w1)))"

text \<open>Without an active socket the result is a value-initialised \<^verbatim>\<open>bool\<close>.\<close>

definition ref_finished :: "sock_state \<Rightarrow> accepted_ref \<Rightarrow> 'k world \<Rightarrow> bool" where
  "ref_finished st s w =
     (case ref_active s st of Some _ \<Rightarrow> again w \<or> active_would_block w | None \<Rightarrow> False)"

subsection \<open>The interface \<^verbatim>\<open>send_recv_i\<close>\<close>

text \<open>
  What the application may rely on whichever of the two it holds: the calls leave descriptors
  alone, and a receive makes no other call than the receive of the system.
\<close>

fun receives :: "event \<Rightarrow> bool" where
  "receives (Sys (SysRecv fd n fl) r e) = True"
| "receives (Sys (SysRecvfrom fd n fl al) r e) = True"
| "receives (Sys c r e) = False"
| "receives (Upcall cb) = False"
| "receives (Ub u) = True"

locale send_recv =
  fixes K :: "'k os"
    and send_op :: "'s \<Rightarrow> byte list \<Rightarrow> size_t \<Rightarrow> 'k world \<Rightarrow> size_t option \<times> 's \<times> 'k world"
    and recv_op :: "'s \<Rightarrow> byte list \<Rightarrow> size_t \<Rightarrow> 'k world
      \<Rightarrow> (in_address_port_t \<times> size_t) option \<times> byte list \<times> 's \<times> 'k world"
  assumes send_quiet: "send_op s buf n w = (r, s1, w1) \<Longrightarrow> via K quiet w w1"
    and recv_quiet: "recv_op s buf n w = (got, buf1, s1, w1) \<Longrightarrow> via K quiet w w1"
    and recv_length: "recv_op s buf n w = (got, buf1, s1, w1) \<Longrightarrow> length buf1 = length buf"
    and recv_receives: "recv_op s buf n w = (got, buf1, s1, w1) \<Longrightarrow> adds receives w w1"

lemma impl_receive_length:
  "impl_receive K s buf n fl w = (r, buf', w1) \<Longrightarrow> length buf' = length buf"
  by (auto simp: impl_receive_def split: option.splits prod.splits if_splits)

lemma impl_receive_from_length:
  "impl_receive_from K s buf n fl w = (r, buf', w1) \<Longrightarrow> length buf' = length buf"
  by (auto simp: impl_receive_from_def recv_from_impl_def split: option.splits prod.splits if_splits)

lemma adds_receives_mark_ubs: "adds receives w w1 \<Longrightarrow> adds receives w (mark_ubs us w1)"
  by (rule adds_trans) (auto simp: adds_def intro!: exI [of _ "rev (map Ub us)"])

lemma impl_receive_receives:
  "impl_receive K s buf n fl w = (r, buf', w1) \<Longrightarrow> adds receives w w1"
  "impl_receive_from K s buf n fl w = (r', buf', w1) \<Longrightarrow> adds receives w w1"
  by (auto simp: impl_receive_def impl_receive_from_def recv_from_impl_def
      split: option.splits prod.splits if_splits intro!: adds_receives_mark_ubs adds_mark_ub
      intro: adds_do_sys dest!: parse_addr_trace)

interpretation acc: send_recv K "accepted_send K" "accepted_recv K" for K
  by unfold_locales
    (auto simp: accepted_send_def accepted_recv_def send_conn_def receive_conn_def split: prod.splits
      dest: via_impl(5,7) impl_receive_length impl_receive_receives)

interpretation acc_ref: send_recv K "ref_send K st" "ref_recv K st" for K st
  by unfold_locales
    (auto simp: ref_send_def ref_recv_def send_less_def receive_less_def
      split: prod.splits option.splits intro: via_refl
      dest: via_impl(6) via_recv_from impl_receive_from_length impl_receive_receives)

subsection \<open>Replies go to the last sender\<close>

theorem reply_goes_to_the_last_sender:
  assumes "ar_set s" and "si_fd (a_impl sock) = Some fd" and "si_family (a_impl sock) = ipv4"
    and "do_sys K (SysRecvfrom fd n 0 sizeof_sockaddr_in) w = (r, w0)" and "rp_ret r \<noteq> -1"
    and "rp_addr r = sa_family AF_INET @ prt @ host @ replicate 8 0" and "length prt = 2" and "length host = 4"
    and "ref_recv K (StActive sock) s buffer n w = (got, buffer', s1, w1)"
    and "ref_send K (StActive sock) s1 response m w1 = (sent, s2, w2)"
  shows "(\<exists>a. got = Some (a, word_of_int (rp_ret r))) \<and> buffer' = overlay buffer (rp_data r)
    \<and> (\<exists>x e. w_trace w2 = Sys (SysSendto fd response m 0 (rp_addr r)) x e # w_trace w1)"
proof -
  obtain a u where p: "parse_addr4 (rp_addr r) w0 = (Some a, u)"
    by (cases "parse_addr4 (rp_addr r) w0") (auto simp: parse_addr4_def split: prod.splits)
  have full: "overlay (replicate 16 0) (rp_addr r) = rp_addr r"
    using assms(6-8) by (simp add: overlay_full)
  have recv: "got = Some (a, word_of_int (rp_ret r))" "buffer' = overlay buffer (rp_data r)"
    "s1 = s\<lparr>ar_remote := Some a\<rparr>" "w1 = u"
    using assms(1-5,9) p full
    by (simp_all add: ref_recv_def ref_active_def receive_less_def impl_receive_from_def recv_from_impl_def)
  note a = sock_addr4_of_parsed [OF assms(6-8) p]
  obtain x v where snd: "do_sys K (SysSendto fd response m 0 (rp_addr r)) w1 = (x, v)" by fastforce
  have "w2 = v"
    using assms(1-3,10) a recv snd
    by (auto simp: ref_send_def ref_active_def send_less_def impl_send_to_def send_to_impl_def is_ipv4_def
        split: if_splits)
  with recv do_sys_trace [OF snd] show ?thesis by blast
qed

text \<open>The witness: a datagram from 127.0.0.1, port 80, and the reply to it.\<close>

definition datagram_os :: "nat os" where
  "datagram_os k c =
     (case c of
        SysRecvfrom fd n fl al \<Rightarrow>
          ((answer 2)\<lparr>rp_data := [104, 105], rp_addr := [2, 0, 0, 80, 127, 0, 0, 1, 0, 0, 0, 0, 0, 0, 0, 0]\<rparr>, k)
      | SysSendto fd buf n fl sa \<Rightarrow> (answer (int (length buf)), k)
      | _ \<Rightarrow> (answer 0, k))"

definition udp_socket :: active_socket_t where
  "udp_socket = \<lparr>a_impl = socket_impl_ctor 5 ipv4, a_remote = None, a_local = None, a_accepted = False\<rparr>"

theorem reply_goes_to_the_last_sender_witness:
  "\<exists>a s1 w1 sent s2 w2 x e. ref_recv datagram_os (StActive udp_socket) ref_ctor [0, 0, 0] 3 (init_world 0)
       = (Some (a, 2), [104, 105, 0], s1, w1)
     \<and> ref_send datagram_os (StActive udp_socket) s1 [9] 1 w1 = (sent, s2, w2)
     \<and> w_trace w2 = Sys (SysSendto 5 [9] 1 0 [2, 0, 0, 80, 127, 0, 0, 1, 0, 0, 0, 0, 0, 0, 0, 0]) x e # w_trace w1"
proof -
  let ?addr = "[2, 0, 0, 80, 127, 0, 0, 1, 0, 0, 0, 0, 0, 0, 0, 0] :: byte list"
  obtain got buf s1 w1 where rc: "ref_recv datagram_os (StActive udp_socket) ref_ctor [0, 0, 0] 3 (init_world 0)
      = (got, buf, s1, w1)" using prod_cases4 by blast
  obtain sent s2 w2 where sn: "ref_send datagram_os (StActive udp_socket) s1 [9] 1 w1 = (sent, s2, w2)"
    using prod_cases3 by blast
  obtain r w0 where d: "do_sys datagram_os (SysRecvfrom 5 3 0 16) (init_world 0) = (r, w0)"
    and r: "rp_ret r = 2" "rp_addr r = ?addr" "rp_ret r \<noteq> -1"
    by (simp add: do_sys_def datagram_os_def Let_def answer_def)
  have addr: "rp_addr r = sa_family AF_INET @ [0, 80] @ [127, 0, 0, 1] @ replicate 8 0"
    by (simp add: r sa_family_def numeral_eq_Suc)
  have data: "overlay [0, 0, 0] (rp_data r) = [104, 105, 0]"
    using d by (auto simp: do_sys_def datagram_os_def Let_def answer_def overlay_def)
  show ?thesis
    using reply_goes_to_the_last_sender [of ref_ctor udp_socket 5 datagram_os 3 "init_world 0" r w0,
        OF _ _ _ d r(3) addr _ _ rc sn] r rc sn data
    by (auto simp: ref_ctor_def udp_socket_def socket_impl_ctor_def)
qed

end
