(* ===== verification/Server.thy ===== *)
theory Server
  imports Accepted
begin

section \<open>The server endpoint\<close>

text \<open>
  Models \<^verbatim>\<open>include/endpoint/server.h\<close> and \<^verbatim>\<open>src/endpoint/server.tpp\<close>. The two versions of
  \<^verbatim>\<open>interface_proxy::start\<close> are \<open>server_start_conn\<close> and \<open>server_start_less\<close>. The
  stored functions are wrappers around the ones the application passes: a stored function may be
  absent (never started), and the function inside a wrapper may be empty; hence two options.

  \<^verbatim>\<open>server_t::stop\<close>, which no program can call as it is, has the theory \<open>Server_Stop\<close>.
\<close>

datatype server_handler = SErase | SReadReady

record 'p server = "('p, server_handler) endpoint" +
  sv_on_conn :: "nat option option"
  sv_erase :: "nat option option"

text \<open>
  The callbacks of the application. A new connection is passed as an rvalue: the callback returns
  what is left of it, and the server destroys the rest.
\<close>

record ('p, 'k) server_app =
  sapp_conn :: "nat \<Rightarrow> accepted_sock \<Rightarrow> 'p server \<times> 'k world
    \<Rightarrow> exn option \<times> accepted_sock \<times> 'p server \<times> 'k world"
  sapp_msg :: "nat \<Rightarrow> accepted_ref \<Rightarrow> 'p server \<times> 'k world \<Rightarrow> exn option \<times> 'p server \<times> 'k world"
  sapp_close :: "nat \<Rightarrow> int \<Rightarrow> 'p server \<times> 'k world \<Rightarrow> exn option \<times> 'p server \<times> 'k world"
  sapp_unhandled :: "nat \<Rightarrow> poll_event list \<Rightarrow> 'p server \<times> 'k world \<Rightarrow> exn option \<times> 'p server \<times> 'k world"

definition server_ctor :: "'p \<Rightarrow> int \<Rightarrow> nat option \<Rightarrow> 'p server" where
  "server_ctor poll af unhandled =
     endpoint.extend (endpoint_ctor poll af unhandled) \<lparr>sv_on_conn = None, sv_erase = None\<rparr>"

definition server_register_cbs :: "'p server \<Rightarrow> 'p server" where
  "server_register_cbs s =
     endpoint_add READ_READY SReadReady
      (endpoint_add EXCEPTION SErase
       (endpoint_add HANGUP SErase
        (endpoint_add ERROR_EV SErase
         (endpoint_add PEER_CLOSED SErase s))))"

definition server_unregister_cbs :: "'p server \<Rightarrow> 'p server" where
  "server_unregister_cbs s =
     endpoint_remove READ_READY
      (endpoint_remove EXCEPTION
       (endpoint_remove HANGUP
        (endpoint_remove ERROR_EV
         (endpoint_remove PEER_CLOSED s))))"

subsection \<open>Handlers\<close>

definition call_erase ::
  "('p, 'k) server_app \<Rightarrow> int \<Rightarrow> 'p server \<times> 'k world \<Rightarrow> exn option \<times> 'p server \<times> 'k world" where
  "call_erase A fd s =
     (case sv_erase (fst s) of
        Some (Some cb) \<Rightarrow> sapp_close A cb fd (fst s, upcall cb (snd s))
      | _ \<Rightarrow> (Some BadFunctionCall, s))"

definition call_on_msg ::
  "('p, 'k) server_app \<Rightarrow> accepted_ref \<Rightarrow> 'p server \<times> 'k world \<Rightarrow> exn option \<times> 'p server \<times> 'k world" where
  "call_on_msg A r s =
     (case sv_on_conn (fst s) of
        Some (Some cb) \<Rightarrow> sapp_msg A cb r (fst s, upcall cb (snd s))
      | _ \<Rightarrow> (Some BadFunctionCall, s))"

definition call_on_conn ::
  "('p, 'k) server_app \<Rightarrow> accepted_sock \<Rightarrow> 'p server \<times> 'k world
   \<Rightarrow> exn option \<times> accepted_sock \<times> 'p server \<times> 'k world" where
  "call_on_conn A acc s =
     (case sv_on_conn (fst s) of
        Some (Some cb) \<Rightarrow> sapp_conn A cb acc (fst s, upcall cb (snd s))
      | _ \<Rightarrow> (Some BadFunctionCall, acc, s))"

text \<open>
  The accepted connection is added to the poll, wrapped and passed on; the wrapper dies at the end
  of the statement, also when the callback throws. \<^verbatim>\<open>assert(remote)\<close> guards the dereference
  in debug builds only.
\<close>

definition accept_one ::
  "'k os \<Rightarrow> ('p, 'k world) poll_traits \<Rightarrow> ('p, 'k) server_app \<Rightarrow> listening_socket_t
   \<Rightarrow> 'p server \<times> 'k world \<Rightarrow> exn option \<times> 'p server \<times> 'k world" where
  "accept_one K PT A listener s =
     (case listening_accept K listener (snd s) of
        (None, w1) \<Rightarrow> (None, (fst s, w1))
      | (Some accepted, w1) \<Rightarrow>
          (case pt_add PT (en_poll (fst s)) (impl_fd (a_impl accepted)) op_READ w1 of
             (_, w2) \<Rightarrow>
               (case a_remote accepted of
                  None \<Rightarrow> (None, (fst s, active_dtor K accepted (mark_ub EmptyOptional w2)))
                | Some remote \<Rightarrow>
                    (case call_on_conn A (fst (accepted_ctor remote accepted)) (fst s, w2) of
                       (ex, rest, (s3, w3)) \<Rightarrow> (ex, (s3, accepted_dtor K rest w3))))))"

fun server_call ::
  "'k os \<Rightarrow> ('p, 'k world) poll_traits \<Rightarrow> ('p, 'k) server_app \<Rightarrow> proto
   \<Rightarrow> (server_handler, 'p server \<times> 'k world) handler_sem" where
  "server_call K PT A pr SErase fd (s, w) =
     (case pt_del PT (en_poll s) fd w of (_, w1) \<Rightarrow> call_erase A fd (s, w1))"
| "server_call K PT A pr SReadReady fd (s, w) =
     (if fd = get_fd s
      then (if is_connectionless pr then call_on_msg A ref_ctor (s, w)
            else (case en_state s of
                    StListening listener \<Rightarrow> accept_one K PT A listener (s, w)
                  | _ \<Rightarrow> (Some BadVariantAccess, (s, w))))
      else (None, (s, w)))"

definition server_unhandled :: "('p, 'k) server_app \<Rightarrow> ('p server \<times> 'k world) unhandled_sem" where
  "server_unhandled A cb evs s = sapp_unhandled A cb evs (fst s, upcall cb (snd s))"

definition server_proceed ::
  "'k os \<Rightarrow> ('p, 'k world) poll_traits \<Rightarrow> ('p, 'k) server_app \<Rightarrow> proto \<Rightarrow> int \<Rightarrow> 'p server \<times> 'k world
   \<Rightarrow> (exn list + bool) \<times> 'p server \<times> 'k world" where
  "server_proceed K PT A pr timeout s =
     observer_proceed
       (\<lambda>t (s, w). case pt_proceed PT (en_poll s) t w of (evs, w1) \<Rightarrow> (evs, (s, w1)))
       (server_call K PT A pr) (server_unhandled A) (en_obs (fst s)) timeout s"

subsection \<open>Starting and destruction\<close>

definition server_start_conn ::
  "'k os \<Rightarrow> inet \<Rightarrow> ('p, 'k world) poll_traits \<Rightarrow> proto \<Rightarrow> string \<Rightarrow> size_t \<Rightarrow> uint32 \<Rightarrow> nat option \<Rightarrow> nat option
   \<Rightarrow> 'p server \<Rightarrow> 'k world \<Rightarrow> bool \<times> 'p server \<times> 'k world" where
  "server_start_conn K N PT pr address prt max_conns on_conn erase s w =
     (case (if idle s then from_string_and_port N (w_junk w) address prt else None) of
        None \<Rightarrow> (False, s, w)
      | Some addr \<Rightarrow>
          (case socket_create K pr (en_af s) w of
             (created, w1) \<Rightarrow>
               (case mbind_obj2 created (\<lambda>k. bind_conn K k addr) (socket_dtor K)
                       (\<lambda>b. binded_listen K b max_conns) (binded_dtor K) w1 of
                  (None, w2) \<Rightarrow> (False, s, w2)
                | (Some listener, w2) \<Rightarrow>
                    (let s1 = server_register_cbs s
                     in case pt_add PT (en_poll s1) (impl_fd (l_impl listener)) op_READ w2 of
                          (_, w3) \<Rightarrow>
                            (case assign_state K (en_state s1) (StListening listener) w3 of
                               (st, w4) \<Rightarrow>
                                 (True, s1\<lparr>en_state := st, sv_on_conn := Some on_conn,
                                           sv_erase := map_option Some erase\<rparr>, w4))))))"

definition server_start_less ::
  "'k os \<Rightarrow> inet \<Rightarrow> ('p, 'k world) poll_traits \<Rightarrow> proto \<Rightarrow> string \<Rightarrow> size_t \<Rightarrow> nat option \<Rightarrow> nat option
   \<Rightarrow> 'p server \<Rightarrow> 'k world \<Rightarrow> bool \<times> 'p server \<times> 'k world" where
  "server_start_less K N PT pr address prt on_conn on_close s w =
     (case (if idle s then from_string_and_port N (w_junk w) address prt else None) of
        None \<Rightarrow> (False, s, w)
      | Some addr \<Rightarrow>
          (case socket_create K pr (en_af s) w of
             (created, w1) \<Rightarrow>
               (case mbind_obj created (\<lambda>k. bind_less K k addr) (socket_dtor K) w1 of
                  (None, w2) \<Rightarrow> (False, s, w2)
                | (Some active, w2) \<Rightarrow>
                    (let s1 = server_register_cbs s
                     in case pt_add PT (en_poll s1) (impl_fd (a_impl active)) op_READ w2 of
                          (_, w3) \<Rightarrow>
                            (case assign_state K (en_state s1) (StActive active) w3 of
                               (st, w4) \<Rightarrow>
                                 (True, s1\<lparr>en_state := st, sv_on_conn := Some on_conn,
                                           sv_erase := Some on_close\<rparr>, w4))))))"

text \<open>
  \<^verbatim>\<open>~server_t\<close>: the erase callback, if one is stored, with \<open>-1\<close>; an exception of it leaves
  a destructor and ends the process. Then the members and bases.
\<close>

definition server_dtor ::
  "'k os \<Rightarrow> ('p \<Rightarrow> 'k world \<Rightarrow> 'k world) \<Rightarrow> ('p, 'k) server_app \<Rightarrow> 'p server \<Rightarrow> 'k world \<Rightarrow> (exn + unit) \<times> 'k world" where
  "server_dtor K poll_dtor A s w =
     (case (if sv_erase s \<noteq> None then call_erase A (-1) (s, w) else (None, (s, w))) of
        (Some e, (s1, w1)) \<Rightarrow> (Inl Terminated, w1)
      | (None, (s1, w1)) \<Rightarrow> (Inr (), poll_dtor (en_poll s1) (state_dtor K (en_state s1) w1)))"

end
