(* ===== verification/Service.thy ===== *)
theory Service
  imports Numerals "HOL-Library.Multiset"
begin

section \<open>The service of the example server\<close>

text \<open>
  Models \<^verbatim>\<open>app/service.h\<close> and \<^verbatim>\<open>app/service.cpp\<close>: the answer to a request is the
  sorted list of the numbers in it and their sum, or the request itself if it holds none. What the
  source uses of the standard library is written out: the separation of a stream into words here,
  \<^verbatim>\<open>isdigit\<close>, \<^verbatim>\<open>std::stoi\<close> and decimal output in theory \<^verbatim>\<open>Numerals\<close>.
\<close>

definition is_number :: "string \<Rightarrow> bool" where
  "is_number s \<longleftrightarrow> s \<noteq> [] \<and> find (\<lambda>c. \<not> is_digit c) s = None"

text \<open>What an \<^verbatim>\<open>istream_iterator<std::string>\<close> reads from a stream.\<close>

function stream_words :: "string \<Rightarrow> string list" where
  "stream_words s =
     (let t = dropWhile is_space s
      in if t = [] then []
         else takeWhile (\<lambda>c. \<not> is_space c) t # stream_words (dropWhile (\<lambda>c. \<not> is_space c) t))"
  by pat_completeness auto

termination
proof (relation "measure length")
  fix s t
  assume t: "t = dropWhile is_space s" "t \<noteq> []"
  then have "\<not> is_space (hd t)" by (metis hd_dropWhile)
  then have "length (dropWhile (\<lambda>c. \<not> is_space c) t) < length t"
    using t(2) by (cases t) (auto intro: le_imp_less_Suc length_dropWhile_le)
  moreover have "length t \<le> length s" using t(1) by (simp add: length_dropWhile_le)
  ultimately show "(dropWhile (\<lambda>c. \<not> is_space c) t, s) \<in> measure length" by simp
qed simp

declare stream_words.simps [simp del]

text \<open>The result of \<^verbatim>\<open>std::stoi\<close> becomes an \<^verbatim>\<open>unsigned\<close> when it is inserted.\<close>

fun transform_stoi :: "string list \<Rightarrow> exn + uint32 list" where
  "transform_stoi [] = Inr []"
| "transform_stoi (s # ss) =
     (case stoi s of
        Inl e \<Rightarrow> Inl e
      | Inr i \<Rightarrow> (case transform_stoi ss of Inl e \<Rightarrow> Inl e | Inr is \<Rightarrow> Inr (word_of_int i # is)))"

definition parse_ints :: "string \<Rightarrow> exn + uint32 list" where
  "parse_ints request = transform_stoi (filter is_number (stream_words request))"

definition create_response :: "string \<Rightarrow> exn + string" where
  "create_response req =
     (case parse_ints req of
        Inl e \<Rightarrow> Inl e
      | Inr ints \<Rightarrow>
          if ints = [] then Inr req
          else (let sorted_ints = sort ints;
                    total = foldl (+) 0 sorted_ints
                in Inr (concat (map (\<lambda>n. decimal (unat n) @ '' '') sorted_ints) @ [CHR 0x0A]
                        @ decimal (unat total))))"

subsection \<open>Words of a stream\<close>

lemma stream_words_Nil [simp]: "stream_words [] = []"
  by (simp add: stream_words.simps)

lemma stream_words_space: "is_space c \<Longrightarrow> stream_words (c # s) = stream_words s"
  by (simp add: stream_words.simps [of "c # s"] stream_words.simps [of s])

lemma stream_words_word:
  assumes "t \<noteq> []" and "\<forall>c \<in> set t. \<not> is_space c" and "is_space d"
  shows "stream_words (t @ d # s) = t # stream_words s"
proof -
  have drop: "dropWhile is_space (t @ d # s) = t @ d # s" using assms(1,2) by (cases t) auto
  have tw: "takeWhile (\<lambda>c. \<not> is_space c) (t @ d # s) = t" using assms by (simp add: takeWhile_append2)
  have dw: "dropWhile (\<lambda>c. \<not> is_space c) (t @ d # s) = d # s" using assms by (simp add: dropWhile_append2)
  show ?thesis
    using assms(1,3) by (subst stream_words.simps) (simp add: drop tw dw Let_def stream_words_space)
qed

lemma stream_words_last:
  assumes "t \<noteq> []" and "\<forall>c \<in> set t. \<not> is_space c"
  shows "stream_words t = [t]"
proof -
  have drop: "dropWhile is_space t = t" using assms by (cases t) auto
  have tw: "takeWhile (\<lambda>c. \<not> is_space c) t = t" and dw: "dropWhile (\<lambda>c. \<not> is_space c) t = []"
    using assms by (simp_all add: takeWhile_eq_all_conv dropWhile_eq_Nil_conv)
  show ?thesis using assms(1) by (subst stream_words.simps) (simp add: Let_def drop tw dw)
qed

subsection \<open>Numbers\<close>

lemma is_number_iff: "is_number s \<longleftrightarrow> s \<noteq> [] \<and> (\<forall>c \<in> set s. is_digit c)"
  by (auto simp: is_number_def find_None_iff)

lemma is_number_numeral: "is_number s \<longleftrightarrow> is_numeral s"
  by (simp add: is_number_iff is_numeral_def)

lemma decimal_is_number: "is_number (decimal n)"
  by (simp add: is_number_numeral decimal_is_numeral)

lemmas stoi_number = stoi_numeral [folded is_number_numeral]

lemma transform_stoi_Inr:
  "transform_stoi ss = Inr is \<Longrightarrow> \<forall>s \<in> set ss. is_number s \<Longrightarrow>
     is = map (\<lambda>s. of_nat (number_value s)) ss \<and> (\<forall>s \<in> set ss. number_value s < 2 ^ 31)"
  by (induction ss arbitrary: "is") (auto simp: stoi_number split: sum.splits if_splits)

lemma parse_ints_Inr:
  "parse_ints req = Inr is \<Longrightarrow>
     is = map (\<lambda>s. of_nat (number_value s)) (filter is_number (stream_words req))
     \<and> (\<forall>s \<in> set (filter is_number (stream_words req)). number_value s < 2 ^ 31)"
  unfolding parse_ints_def by (rule transform_stoi_Inr) simp_all

lemma transform_stoi_small:
  "\<forall>s \<in> set ss. is_number s \<and> number_value s < 2 ^ 31 \<Longrightarrow>
     transform_stoi ss = Inr (map (\<lambda>s. of_nat (number_value s)) ss)"
  by (induction ss) (simp_all add: stoi_number)

lemma transform_stoi_Inl:
  "\<forall>s \<in> set ss. is_number s \<Longrightarrow>
     transform_stoi ss = Inl e \<longleftrightarrow> e = OutOfRange \<and> (\<exists>s \<in> set ss. 2 ^ 31 \<le> number_value s)"
  by (induction ss) (auto simp: stoi_number not_less split: sum.splits if_splits)

lemma parse_ints_Inl:
  "parse_ints req = Inl e \<longleftrightarrow>
     e = OutOfRange \<and> (\<exists>s \<in> set (filter is_number (stream_words req)). 2 ^ 31 \<le> number_value s)"
  unfolding parse_ints_def by (rule transform_stoi_Inl) simp

theorem response_fails_exactly_on_large_numbers:
  "create_response req = Inl e \<longleftrightarrow>
     e = OutOfRange \<and> (\<exists>s \<in> set (stream_words req). is_number s \<and> 2 ^ 31 \<le> number_value s)"
proof -
  have "create_response req = Inl e \<longleftrightarrow> parse_ints req = Inl e"
    by (auto simp: create_response_def Let_def split: sum.splits)
  then show ?thesis by (auto simp: parse_ints_Inl)
qed

lemma parse_ints_empty: "parse_ints req = Inr [] \<longleftrightarrow> filter is_number (stream_words req) = []"
  by (auto dest!: parse_ints_Inr) (simp add: parse_ints_def)

theorem response_echoes_requests_without_numbers:
  "filter is_number (stream_words req) = [] \<longleftrightarrow> parse_ints req = Inr [] \<and> create_response req = Inr req"
  by (auto simp: create_response_def simp flip: parse_ints_empty)

subsection \<open>The answer reads back\<close>

lemma decimal_word: "decimal n \<noteq> [] \<and> (\<forall>c \<in> set (decimal n). \<not> is_space c)"
  using decimal_is_number [of n] by (auto simp: is_number_iff digit_not_space)

lemma stream_words_numbers:
  "stream_words (concat (map (\<lambda>n. decimal (unat n) @ '' '') ns) @ s) = map (\<lambda>n. decimal (unat n)) ns @ stream_words s"
proof (induction ns)
  case (Cons n ns)
  have "is_space CHR '' ''" by (simp add: is_space_def)
  then show ?case using stream_words_word [of "decimal (unat n)" "CHR '' ''"] decimal_word Cons by simp
qed simp

lemma create_response_eq:
  assumes "parse_ints req = Inr ints" and "ints \<noteq> []"
  shows "create_response req = Inr (concat (map (\<lambda>n. decimal (unat n) @ '' '') (sort ints)) @ [CHR 0x0A]
    @ decimal (unat (sum_list ints)))"
proof -
  have "foldl (+) (0 :: uint32) (sort ints) = sum_list (sort ints)"
    by (simp add: fold_plus_sum_list_rev foldl_conv_fold add.commute)
  also have "\<dots> = sum_list ints" by (metis mset_sort sum_mset_sum_list)
  finally show ?thesis using assms by (simp add: create_response_def Let_def)
qed

text \<open>
  C32: The service's answer to a request with numbers whose sum, taken as the service does in 32
  bits, is below 2 to the 31, read by the service's own parser, is the sorted list of the
  request's numbers followed by their sum.
\<close>

theorem response_reads_back:
  assumes "parse_ints req = Inr ints" and "ints \<noteq> []" and "create_response req = Inr response"
    and "unat (sum_list ints) < 2 ^ 31"
  shows "parse_ints response = Inr (sort ints @ [sum_list ints])"
proof -
  let ?total = "sum_list ints"
  have small: "unat n < 2 ^ 31" if "n \<in> set ints" for n
  proof -
    obtain s where "n = of_nat (number_value s)" "number_value s < 2 ^ 31"
      using parse_ints_Inr [OF assms(1)] \<open>n \<in> set ints\<close> by auto
    then show ?thesis by (simp add: unat_of_nat)
  qed
  have "stream_words ([CHR 0x0A] @ decimal (unat ?total)) = [decimal (unat ?total)]"
    using stream_words_last decimal_word by (simp add: stream_words_space is_space_def)
  moreover have "response = concat (map (\<lambda>n. decimal (unat n) @ '' '') (sort ints)) @ ([CHR 0x0A] @ decimal (unat ?total))"
    using assms(3) create_response_eq [OF assms(1,2)] by simp
  ultimately have "stream_words response = map (\<lambda>n. decimal (unat n)) (sort ints @ [?total])"
    by (simp only: stream_words_numbers map_append list.map)
  then have "filter is_number (stream_words response) = map (\<lambda>n. decimal (unat n)) (sort ints @ [?total])"
    by (simp add: decimal_is_number filter_map comp_def)
  moreover have "transform_stoi (map (\<lambda>n. decimal (unat n)) (sort ints @ [?total])) = Inr (sort ints @ [?total])"
    using small assms(4) by (subst transform_stoi_small) (auto simp: decimal_is_number comp_def)
  ultimately show ?thesis by (simp add: parse_ints_def)
qed

theorem response_reads_back_witness:
  "\<exists>response. create_response ''b 30 4 a 17'' = Inr response \<and> parse_ints response = Inr [4, 17, 30, 51]"
proof -
  have "stream_words ''b 30 4 a 17'' = [''b'', ''30'', ''4'', ''a'', ''17'']"
    by (simp add: stream_words.simps is_space_def)
  then have p: "parse_ints ''b 30 4 a 17'' = Inr [30, 4, 17]"
    by (simp add: parse_ints_def is_number_def is_digit_def stoi_def split_sign_def is_space_def number_value_def)
  obtain response where r: "create_response ''b 30 4 a 17'' = Inr response"
    using create_response_eq [OF p] by simp
  from response_reads_back [OF p _ r] r show ?thesis by simp
qed

text \<open>
  C33: Two requests that contain the same numbers as often, in any order and between any other
  words and white space, get the same answer.
\<close>

theorem response_depends_on_the_numbers_only:
  assumes "mset (filter is_number (stream_words req)) = mset (filter is_number (stream_words req'))"
    and "\<exists>s \<in> set (stream_words req). is_number s"
  shows "create_response req = create_response req'"
proof -
  let ?f = "filter is_number (stream_words req)" and ?g = "filter is_number (stream_words req')"
  have sets: "set ?f = set ?g" using assms(1) by (rule mset_eq_setD)
  show ?thesis
  proof (cases "\<exists>s \<in> set ?f. 2 ^ 31 \<le> number_value s")
    case True
    then have "parse_ints req = Inl OutOfRange" "parse_ints req' = Inl OutOfRange"
      unfolding parse_ints_Inl using sets by blast+
    then show ?thesis by (simp add: create_response_def)
  next
    case False
    then have small: "\<forall>s \<in> set ?f. is_number s \<and> number_value s < 2 ^ 31" by (auto simp: not_le)
    then have small': "\<forall>s \<in> set ?g. is_number s \<and> number_value s < 2 ^ 31" unfolding sets .
    let ?v = "\<lambda>s. of_nat (number_value s) :: uint32"
    have p: "parse_ints req = Inr (map ?v ?f)" "parse_ints req' = Inr (map ?v ?g)"
      unfolding parse_ints_def using small small' by (simp_all only: transform_stoi_small)
    have ne: "map ?v ?f \<noteq> []" "map ?v ?g \<noteq> []" using assms sets by (auto simp: filter_empty_conv)
    have m: "mset (map ?v ?f) = mset (map ?v ?g)" using assms(1) by simp
    then have "sort (map ?v ?f) = sort (map ?v ?g)" by (metis mset_sort properties_for_sort sorted_sort)
    moreover have "sum_list (map ?v ?f) = sum_list (map ?v ?g)" using m by (metis sum_mset_sum_list)
    ultimately show ?thesis
      using create_response_eq [OF p(1) ne(1)] create_response_eq [OF p(2) ne(2)] by simp
  qed
qed

theorem response_depends_on_the_numbers_only_witness:
  "create_response ''9 1 x'' = create_response ''y 1 z 9''"
proof (rule response_depends_on_the_numbers_only)
  have w: "stream_words ''9 1 x'' = [''9'', ''1'', ''x'']" "stream_words ''y 1 z 9'' = [''y'', ''1'', ''z'', ''9'']"
    by (simp_all add: stream_words.simps is_space_def)
  show "mset (filter is_number (stream_words ''9 1 x'')) = mset (filter is_number (stream_words ''y 1 z 9''))"
    "\<exists>s \<in> set (stream_words ''9 1 x''). is_number s"
    unfolding w by (simp_all add: is_number_def is_digit_def)
qed

end
