(* ===== verification/App.thy ===== *)
theory App
  imports Server Service
begin

section \<open>The example server's loop\<close>

text \<open>
  Models the loop of \<^verbatim>\<open>app/server_main.cpp\<close> over the connections it holds. A connection is
  anything with the \<^verbatim>\<open>send_recv_i\<close> interface, so the loop takes the receive, send and
  finished operations as arguments. The inner loop receives until nothing is returned; it need
  not end, so its model is a partial function: \<open>None\<close> is a run that never leaves it. What a visit
  does is proved once, for any connection that keeps the contract \<open>visited\<close>, and carried to
  streams and to datagrams.
\<close>

text \<open>
  How an example process ends: \<^verbatim>\<open>main\<close> returns, or \<^verbatim>\<open>std::terminate\<close> with exceptions in
  flight, or \<^verbatim>\<open>exit\<close> in a signal handler; \<open>Running\<close> is a process that has not ended yet.
\<close>

datatype exit_status = Returned | TerminatedBy "exn list" | Exited int | Running

text \<open>
  Signals: a handler takes \<^verbatim>\<open>main_loop\<close> and returns its new value, or \<open>None\<close> where it calls
  \<^verbatim>\<open>exit(1)\<close>. The signals that arrive during a round of a main loop are handled one after the
  other at its end, in front of the next test of \<^verbatim>\<open>main_loop\<close>.
\<close>

fun signals :: "(int \<Rightarrow> int option) \<Rightarrow> nat \<Rightarrow> int \<Rightarrow> int option" where
  "signals handler 0 main_loop = Some main_loop"
| "signals handler (Suc n) main_loop = Option.bind (handler main_loop) (signals handler n)"

type_synonym ('s, 'w) recv_fun =
  "'s \<Rightarrow> byte list \<Rightarrow> size_t \<Rightarrow> 'w \<Rightarrow> (in_address_port_t \<times> size_t) option \<times> byte list \<times> 's \<times> 'w"
type_synonym ('s, 'w) send_fun = "'s \<Rightarrow> byte list \<Rightarrow> size_t \<Rightarrow> 'w \<Rightarrow> size_t option \<times> 's \<times> 'w"

text \<open>\<open>tmp\<close> is the shared buffer, \<open>acc\<close> what the connection has received so far.\<close>

partial_function (option) drain ::
  "('s, 'w) recv_fun \<Rightarrow> byte list \<Rightarrow> 's \<Rightarrow> byte list \<Rightarrow> 'w \<Rightarrow> (byte list \<times> byte list \<times> 's \<times> 'w) option" where
  "drain recv tmp s acc w =
     (case recv s tmp (of_nat (length tmp)) w of
        (None, tmp1, s1, w1) \<Rightarrow> Some (acc, tmp1, s1, w1)
      | (Some (a, n), tmp1, s1, w1) \<Rightarrow> drain recv tmp1 s1 (acc @ take (unat n) tmp1) w1)"

definition to_text :: "byte list \<Rightarrow> string" where
  "to_text bs = map (\<lambda>b. char_of (unat b)) bs"

definition of_text :: "string \<Rightarrow> byte list" where
  "of_text s = map of_char s"

text \<open>
  What becomes of the connection: it is visited next time, visited again at once with its text
  cleared, or erased; an exception of the service ends the process.
\<close>

datatype 's visit =
  Next 's "byte list"
| Again 's
| Erased 's
| Crashed exn

definition visit_connection ::
  "('s, 'w) recv_fun \<Rightarrow> ('s, 'w) send_fun \<Rightarrow> ('s \<Rightarrow> 'w \<Rightarrow> bool) \<Rightarrow> bool \<Rightarrow> byte list \<Rightarrow> 's \<Rightarrow> byte list \<Rightarrow> 'w
   \<Rightarrow> ('s visit \<times> byte list \<times> 'w) option" where
  "visit_connection recv send fin is_tcp tmp s acc w =
     (case drain recv tmp s acc w of
        None \<Rightarrow> None
      | Some (acc1, tmp1, s1, w1) \<Rightarrow>
          if fin s1 w1 \<and> acc1 \<noteq> []
          then (case create_response (to_text acc1) of
                  Inl e \<Rightarrow> Some (Crashed e, tmp1, w1)
                | Inr resp \<Rightarrow>
                    (case send s1 (of_text resp) (of_nat (length resp)) w1 of
                       (sent, s2, w2) \<Rightarrow>
                         Some (if sent = None \<or> \<not> is_tcp then Erased s2 else Again s2, tmp1, w2)))
          else Some (Next s1 acc1, tmp1, w1))"

subsection \<open>Visits that answer\<close>

text \<open>
  What a visit relies on beyond \<open>send_recv\<close>: while pieces are \<open>pending\<close>, a receive into
  a buffer of \<open>n\<close> bytes returns the next one; when none is left it returns nothing, and the
  connection has \<open>rested\<close>, which \<^verbatim>\<open>finished_recv\<close> reports.
\<close>

locale visited = send_recv K send_op recv_op
  for K :: "'k os" and send_op :: "('s, 'k world) send_fun" and recv_op :: "('s, 'k world) recv_fun" +
  fixes fin :: "'s \<Rightarrow> 'k world \<Rightarrow> bool" and pending :: "nat \<Rightarrow> 's \<Rightarrow> 'k world \<Rightarrow> byte list list \<Rightarrow> bool"
    and rested :: "'s \<Rightarrow> 'k world \<Rightarrow> bool"
  assumes piece: "pending n s w (c # cs) \<Longrightarrow> length buf = n \<Longrightarrow> recv_op s buf (of_nat n) w = (got, buf1, s1, w1)
      \<Longrightarrow> (\<exists>a m. got = Some (a, m) \<and> take (unat m) buf1 = c) \<and> pending n s1 w1 cs"
    and pause: "pending n s w [] \<Longrightarrow> length buf = n \<Longrightarrow> recv_op s buf (of_nat n) w = (got, buf1, s1, w1)
      \<Longrightarrow> got = None \<and> rested s1 w1"
    and rested_fin: "rested s w \<Longrightarrow> fin s w"
begin

lemma drain_pending:
  "pending (length tmp) s w cs \<Longrightarrow>
     \<exists>tmp' s' w'. drain recv_op tmp s acc w = Some (acc @ concat cs, tmp', s', w')
       \<and> length tmp' = length tmp \<and> rested s' w' \<and> adds receives w w'"
proof (induction cs arbitrary: tmp s acc w)
  case Nil
  obtain got tmp1 s1 w1 where r: "recv_op s tmp (of_nat (length tmp)) w = (got, tmp1, s1, w1)"
    using prod_cases4 by blast
  have "got = None" "rested s1 w1" using pause [OF Nil refl r] by simp_all
  then show ?case using r recv_length [OF r] recv_receives [OF r] by (subst drain.simps) simp
next
  case (Cons c cs)
  obtain got tmp1 s1 w1 where r: "recv_op s tmp (of_nat (length tmp)) w = (got, tmp1, s1, w1)"
    using prod_cases4 by blast
  obtain a m where g: "got = Some (a, m)" "take (unat m) tmp1 = c" "pending (length tmp) s1 w1 cs"
    using piece [OF Cons.prems refl r] by blast
  then have "drain recv_op tmp s acc w = drain recv_op tmp1 s1 (acc @ c) w1"
    using r by (subst drain.simps) simp
  with Cons.IH [of tmp1 s1 w1 "acc @ c"] g(3) recv_length [OF r] adds_trans [OF recv_receives [OF r]]
  show ?case by fastforce
qed

lemma visit_answers:
  assumes "pending (length tmp) s w cs" and "concat cs \<noteq> []" and "create_response (to_text (concat cs)) = Inr resp"
  obtains tmp' s1 w1 where "length tmp' = length tmp" "rested s1 w1"
    "visit_connection recv_op send_op fin is_tcp tmp s [] w =
       (case send_op s1 (of_text resp) (of_nat (length resp)) w1 of
          (sent, s2, w2) \<Rightarrow> Some (if sent = None \<or> \<not> is_tcp then Erased s2 else Again s2, tmp', w2))"
    "adds receives w w1"
proof -
  obtain tmp' s1 w1 where d: "drain recv_op tmp s [] w = Some (concat cs, tmp', s1, w1)"
    "length tmp' = length tmp" "rested s1 w1" "adds receives w w1"
    using drain_pending [OF assms(1), of "[]"] by auto
  with assms(2,3) rested_fin [OF d(3)] show ?thesis
    by (intro that [OF d(2,3) _ d(4)]) (simp add: visit_connection_def)
qed

lemma visit_idle:
  assumes "pending (length tmp) s w []"
  obtains tmp' s1 w1 where "length tmp' = length tmp" "rested s1 w1" "recv_op s tmp (of_nat (length tmp)) w = (None, tmp', s1, w1)"
    "visit_connection recv_op send_op fin is_tcp tmp s [] w = Some (Next s1 [], tmp', w1)"
proof -
  obtain got tmp1 s1 w1 where r: "recv_op s tmp (of_nat (length tmp)) w = (got, tmp1, s1, w1)"
    using prod_cases4 by blast
  have p: "got = None" "rested s1 w1" using pause [OF assms refl r] by simp_all
  have "drain recv_op tmp s [] w = Some ([], tmp1, s1, w1)" using r p(1) by (subst drain.simps) simp
  then show ?thesis
    using r p by (intro that [OF recv_length [OF r] p(2)]) (simp_all add: visit_connection_def)
qed

end

text \<open>
  A stream: the system delivers the chunks of a request on a connection and then has nothing more
  for now.
\<close>

fun delivers :: "'k os \<Rightarrow> int \<Rightarrow> size_t \<Rightarrow> 'k \<Rightarrow> byte list list \<Rightarrow> bool" where
  "delivers K fd n k [] = (rp_ret (fst (K k (SysRecv fd n 0))) = -1 \<and> rp_errno (fst (K k (SysRecv fd n 0))) = EAGAIN)"
| "delivers K fd n k (c # cs) =
     (rp_ret (fst (K k (SysRecv fd n 0))) = int (length c) \<and> rp_data (fst (K k (SysRecv fd n 0))) = c
      \<and> length c \<le> unat n \<and> delivers K fd n (snd (K k (SysRecv fd n 0))) cs)"

definition stream_pending :: "'k os \<Rightarrow> accepted_sock \<Rightarrow> nat \<Rightarrow> accepted_sock \<Rightarrow> 'k world \<Rightarrow> byte list list \<Rightarrow> bool" where
  "stream_pending K s0 n s w cs \<longleftrightarrow>
     s = s0 \<and> n < 2 ^ 64 \<and> (\<exists>fd. si_fd (a_impl (as_sock s)) = Some fd \<and> delivers K fd (of_nat n) (w_kern w) cs)"

definition stream_rested :: "accepted_sock \<Rightarrow> accepted_sock \<Rightarrow> 'k world \<Rightarrow> bool" where
  "stream_rested s0 s w \<longleftrightarrow> s = s0 \<and> w_errno w = EAGAIN"

lemma stream_recv:
  assumes "si_fd (a_impl (as_sock s)) = Some fd" and "accepted_recv K s buf n w = (got, buf1, s1, w1)"
  obtains r where "do_sys K (SysRecv fd n 0) w = (r, w1)" "s1 = s"
    "rp_ret r = -1 \<Longrightarrow> got = None" "rp_ret r \<noteq> -1 \<Longrightarrow> got = Some (as_remote s, word_of_int (rp_ret r)) \<and> buf1 = overlay buf (rp_data r)"
  using assms by (auto simp: accepted_recv_def receive_conn_def impl_receive_def split: prod.splits if_splits)

interpretation stream: visited K "accepted_send K" "accepted_recv K" accepted_finished "stream_pending K s0" "stream_rested s0"
  for K s0
proof unfold_locales
  fix n s w c cs buf got buf1 s1 w1
  assume p: "stream_pending K s0 n s w (c # cs)" and buf: "length (buf :: byte list) = n"
    and r: "accepted_recv K s buf (of_nat n) w = (got, buf1, s1, w1)"
  then obtain fd where fd: "si_fd (a_impl (as_sock s)) = Some fd" "n < 2 ^ 64" "s = s0"
    and d: "delivers K fd (of_nat n) (w_kern w) (c # cs)" by (auto simp: stream_pending_def simp del: delivers.simps)
  obtain x where x: "do_sys K (SysRecv fd (of_nat n) 0) w = (x, w1)" "s1 = s"
    "rp_ret x \<noteq> -1 \<Longrightarrow> got = Some (as_remote s, word_of_int (rp_ret x)) \<and> buf1 = overlay buf (rp_data x)"
    using fd(1) r by (rule stream_recv) blast
  have c: "rp_ret x = int (length c)" "rp_data x = c" "length c \<le> n" "delivers K fd (of_nat n) (w_kern w1) cs"
    using d do_sys_trace [OF x(1)] fd(2) by (simp_all add: unat_of_nat)
  have "take (unat (word_of_int (int (length c)) :: size_t)) (overlay buf c) = c"
    using c(3) fd(2) buf by (simp add: unat_of_nat take_overlay)
  with x c fd show "(\<exists>a m. got = Some (a, m) \<and> take (unat m) buf1 = c) \<and> stream_pending K s0 n s1 w1 cs"
    by (simp add: stream_pending_def)
next
  fix n s w buf got buf1 s1 w1
  assume p: "stream_pending K s0 n s w []" and "length (buf :: byte list) = n"
    and r: "accepted_recv K s buf (of_nat n) w = (got, buf1, s1, w1)"
  then obtain fd where fd: "si_fd (a_impl (as_sock s)) = Some fd" "s = s0"
    and d: "delivers K fd (of_nat n) (w_kern w) []" by (auto simp: stream_pending_def simp del: delivers.simps)
  obtain x where x: "do_sys K (SysRecv fd (of_nat n) 0) w = (x, w1)" "s1 = s" "rp_ret x = -1 \<Longrightarrow> got = None"
    using fd(1) r by (rule stream_recv) blast
  with d fd(2) do_sys_trace [OF x(1)] show "got = None \<and> stream_rested s0 s1 w1" by (simp add: stream_rested_def)
qed (simp add: stream_rested_def accepted_finished_def again_def eagain_def)

theorem request_is_answered:
  assumes "delivers K fd (of_nat (length tmp)) (w_kern w) chunks" and "si_fd (a_impl (as_sock s)) = Some fd"
    and "length tmp < 2 ^ 64" and "concat chunks \<noteq> []"
    and "create_response (to_text (concat chunks)) = Inr resp"
  shows "\<exists>out tmp' w2 r e t.
      visit_connection (accepted_recv K) (accepted_send K) accepted_finished True tmp s [] w = Some (out, tmp', w2)
    \<and> w_trace w2 = Sys (SysSend fd (of_text resp) (of_nat (length resp)) 0) r e # t
    \<and> out = (if r = -1 then Erased s else Again s)"
proof -
  have "stream_pending K s (length tmp) s w chunks" using assms(1-3) by (auto simp: stream_pending_def)
  then obtain tmp' s1 w1 where v: "stream_rested s s1 w1"
    "visit_connection (accepted_recv K) (accepted_send K) accepted_finished True tmp s [] w =
       (case accepted_send K s1 (of_text resp) (of_nat (length resp)) w1 of
          (sent, s2, w2) \<Rightarrow> Some (if sent = None \<or> \<not> True then Erased s2 else Again s2, tmp', w2))"
    using assms(4,5) by (rule stream.visit_answers)
  obtain r w2 where sys: "do_sys K (SysSend fd (of_text resp) (of_nat (length resp)) 0) w1 = (r, w2)" by fastforce
  have "visit_connection (accepted_recv K) (accepted_send K) accepted_finished True tmp s [] w
      = Some (if rp_ret r = -1 then Erased s else Again s, tmp', w2)"
    using v assms(2) sys by (simp add: stream_rested_def accepted_send_def send_conn_def impl_send_def)
  with do_sys_trace [OF sys] show ?thesis
    by (intro exI [of _ "if rp_ret r = -1 then Erased s else Again s"] exI [of _ tmp']
        exI [of _ w2] exI [of _ "rp_ret r"] exI [of _ "w_errno w2"] exI [of _ "w_trace w1"]) simp
qed

text \<open>The witness: a request that arrives in two pieces.\<close>

definition pieces_os :: "byte list list os" where
  "pieces_os k c =
     (case c of
        SysRecv fd n fl \<Rightarrow>
          (case k of [] \<Rightarrow> (failure EAGAIN, []) | p # ps \<Rightarrow> ((answer (int (length p)))\<lparr>rp_data := p\<rparr>, ps))
      | SysSend fd buf n fl \<Rightarrow> (answer (int (length buf)), k)
      | _ \<Rightarrow> (answer 0, k))"

definition sample_connection :: accepted_sock where
  "sample_connection =
     \<lparr>as_sock = \<lparr>a_impl = socket_impl_ctor 9 ipv4, a_remote = Some (sample_addr 80), a_local = None,
       a_accepted = True\<rparr>, as_remote = sample_addr 80\<rparr>"

theorem request_is_answered_witness:
  "\<exists>out tmp' w2. visit_connection (accepted_recv pieces_os) (accepted_send pieces_os) accepted_finished True
      [0, 0, 0, 0] sample_connection [] (init_world [[104], [105]]) = Some (out, tmp', w2)"
proof -
  have "stream_words ''hi'' = [''hi'']" by (simp add: stream_words.simps is_space_def)
  then have resp: "create_response ''hi'' = Inr ''hi''"
    by (simp add: create_response_def parse_ints_def is_number_def is_digit_def)
  have hi: "to_text (concat [[104], [105]]) = ''hi''" by (simp add: to_text_def char_of_def bit_Suc_0_iff)
  have d: "delivers pieces_os 9 (of_nat (length [0, 0, 0, 0 :: byte])) (w_kern (init_world [[104], [105]])) [[104], [105]]"
    by (simp add: pieces_os_def answer_def failure_def)
  from request_is_answered [OF d, of sample_connection "''hi''"] resp hi
  show ?thesis by (auto simp: sample_connection_def socket_impl_ctor_def)
qed

subsection \<open>Datagrams\<close>

text \<open>
  A connectionless server: what waits on its socket is datagrams, each with the socket address of
  its sender, which the visit reads in one go.
\<close>

fun datagrams :: "'k os \<Rightarrow> int \<Rightarrow> size_t \<Rightarrow> 'k \<Rightarrow> (byte list \<times> byte list) list \<Rightarrow> bool" where
  "datagrams K fd n k [] \<longleftrightarrow>
     rp_ret (fst (K k (SysRecvfrom fd n 0 sizeof_sockaddr_in))) = -1
     \<and> rp_errno (fst (K k (SysRecvfrom fd n 0 sizeof_sockaddr_in))) = EAGAIN"
| "datagrams K fd n k ((sa, c) # ds) \<longleftrightarrow>
     rp_ret (fst (K k (SysRecvfrom fd n 0 sizeof_sockaddr_in))) = int (length c)
     \<and> rp_data (fst (K k (SysRecvfrom fd n 0 sizeof_sockaddr_in))) = c
     \<and> rp_addr (fst (K k (SysRecvfrom fd n 0 sizeof_sockaddr_in))) = sa
     \<and> (\<exists>prt host. sa = sa_family AF_INET @ prt @ host @ replicate 8 0 \<and> length prt = 2 \<and> length host = 4)
     \<and> length c \<le> unat n \<and> datagrams K fd n (snd (K k (SysRecvfrom fd n 0 sizeof_sockaddr_in))) ds"

text \<open>A send through \<open>s\<close> goes to the socket address \<open>sa\<close>.\<close>

definition replies_to :: "accepted_ref \<Rightarrow> byte list \<Rightarrow> bool" where
  "replies_to s sa \<longleftrightarrow>
     (\<exists>a. ar_remote s = Some a \<and> is_ipv4 (ap_addr a) \<and> sock_addr4 (ap_addr a) (ap_port a) = sa)"

definition ref_pending ::
  "'k os \<Rightarrow> active_socket_t \<Rightarrow> int \<Rightarrow> byte list \<Rightarrow> nat \<Rightarrow> accepted_ref \<Rightarrow> 'k world \<Rightarrow> byte list list \<Rightarrow> bool" where
  "ref_pending K sock fd sa n s w cs \<longleftrightarrow>
     ar_set s \<and> n < 2 ^ 64 \<and> si_fd (a_impl sock) = Some fd \<and> si_family (a_impl sock) = ipv4
     \<and> (\<exists>ds. map snd ds = cs \<and> datagrams K fd (of_nat n) (w_kern w) ds
            \<and> (if ds = [] then replies_to s sa else fst (last ds) = sa))"

definition ref_rested :: "byte list \<Rightarrow> accepted_ref \<Rightarrow> 'k world \<Rightarrow> bool" where
  "ref_rested sa s w \<longleftrightarrow> ar_set s \<and> replies_to s sa \<and> w_errno w = EAGAIN"

lemma ref_recv_some:
  assumes "ar_set s" and "si_fd (a_impl sock) = Some fd" and "si_family (a_impl sock) = ipv4"
    and "do_sys K (SysRecvfrom fd n 0 sizeof_sockaddr_in) w = (r, w0)" and "rp_ret r \<noteq> -1"
    and "rp_addr r = sa_family AF_INET @ prt @ host @ replicate 8 0" and "length prt = 2" and "length host = 4"
  obtains a us where "is_ipv4 (ap_addr a)" "sock_addr4 (ap_addr a) (ap_port a) = rp_addr r"
    "ref_recv K (StActive sock) s buf n w =
       (Some (a, word_of_int (rp_ret r)), overlay buf (rp_data r), s\<lparr>ar_remote := Some a\<rparr>, mark_ubs us w0)"
proof -
  obtain a us where p: "parse_addr4 (rp_addr r) w0 = (Some a, mark_ubs us w0)"
    by (cases "copy_out (rp_addr r) 4 16 MAX_IN_ADDR_BYTE_LEN (w_junk w0)") (simp add: parse_addr4_def)
  have "overlay (replicate 16 0) (rp_addr r) = rp_addr r" using assms(6-8) by (simp add: overlay_full)
  then have "ref_recv K (StActive sock) s buf n w =
      (Some (a, word_of_int (rp_ret r)), overlay buf (rp_data r), s\<lparr>ar_remote := Some a\<rparr>, mark_ubs us w0)"
    using assms(1-5) p
    by (simp add: ref_recv_def ref_active_def receive_less_def impl_receive_from_def recv_from_impl_def)
  with sock_addr4_of_parsed [OF assms(6-8) p] that show ?thesis by blast
qed

lemma ref_recv_none:
  assumes "ar_set s" and "si_fd (a_impl sock) = Some fd" and "si_family (a_impl sock) = ipv4"
    and "do_sys K (SysRecvfrom fd n 0 sizeof_sockaddr_in) w = (r, w0)" and "rp_ret r = -1"
  shows "ref_recv K (StActive sock) s buf n w = (None, buf, s, w0)"
  using assms by (simp add: ref_recv_def ref_active_def receive_less_def impl_receive_from_def recv_from_impl_def)

interpretation dgram: visited K "ref_send K (StActive sock)" "ref_recv K (StActive sock)" "ref_finished (StActive sock)"
  "ref_pending K sock fd sa" "ref_rested sa" for K sock fd sa
proof unfold_locales
  fix n s w c cs buf got buf1 s1 w1
  assume p: "ref_pending K sock fd sa n s w (c # cs)" and buf: "length (buf :: byte list) = n"
    and r: "ref_recv K (StActive sock) s buf (of_nat n) w = (got, buf1, s1, w1)"
  have s: "ar_set s" "n < 2 ^ 64" "si_fd (a_impl sock) = Some fd" "si_family (a_impl sock) = ipv4"
    using p by (simp_all only: ref_pending_def)
  obtain ds where ds: "map snd ds = c # cs" "datagrams K fd (of_nat n) (w_kern w) ds"
      "if ds = [] then replies_to s sa else fst (last ds) = sa"
    using p unfolding ref_pending_def by metis
  obtain sb ds1 where d1: "ds = (sb, c) # ds1" "map snd ds1 = cs" using ds(1) by (cases ds) auto
  obtain x w0 where x: "do_sys K (SysRecvfrom fd (of_nat n) 0 sizeof_sockaddr_in) w = (x, w0)" by fastforce
  obtain prt host where dg: "rp_ret x = int (length c)" "rp_data x = c" "rp_addr x = sb" "length c \<le> n"
    "sb = sa_family AF_INET @ prt @ host @ replicate 8 0" "length prt = 2" "length host = 4"
    "datagrams K fd (of_nat n) (w_kern w0) ds1"
  proof -
    have k: "K (w_kern w) (SysRecvfrom fd (of_nat n) 0 sizeof_sockaddr_in) = (x, w_kern w0)"
      using do_sys_trace [OF x] by simp
    have n: "unat (of_nat n :: size_t) = n" using s(2) by (simp add: unat_of_nat)
    show ?thesis
      using ds(2) [unfolded d1(1) datagrams.simps k fst_conv snd_conv n] that by blast
  qed
  then have "rp_ret x \<noteq> -1" "rp_addr x = sa_family AF_INET @ prt @ host @ replicate 8 0" by simp_all
  from ref_recv_some [OF s(1,3,4) x this dg(6,7), of buf] obtain a us where
    a: "is_ipv4 (ap_addr a)" "sock_addr4 (ap_addr a) (ap_port a) = rp_addr x"
      "ref_recv K (StActive sock) s buf (of_nat n) w =
        (Some (a, word_of_int (rp_ret x)), overlay buf (rp_data x), s\<lparr>ar_remote := Some a\<rparr>, mark_ubs us w0)"
    by blast
  have res: "got = Some (a, word_of_int (rp_ret x))" "buf1 = overlay buf c" "s1 = s\<lparr>ar_remote := Some a\<rparr>"
    "w_kern w1 = w_kern w0"
    using a(3) r dg(2) by auto
  have "take (unat (word_of_int (int (length c)) :: size_t)) (overlay buf c) = c"
    using dg(4) s(2) buf by (simp add: unat_of_nat take_overlay)
  then have "\<exists>a m. got = Some (a, m) \<and> take (unat m) buf1 = c" using res(1,2) dg(1) by simp
  moreover have "replies_to s1 sb" using a(1,2) dg(3) res(3) by (simp add: replies_to_def)
  then have "if ds1 = [] then replies_to s1 sa else fst (last ds1) = sa"
    using ds(3) d1(1) by (cases "ds1 = []") simp_all
  then have "ref_pending K sock fd sa n s1 w1 cs"
    unfolding ref_pending_def res(4) using s d1(2) dg(8) res(3) by (intro conjI exI [of _ ds1]) simp_all
  ultimately show "(\<exists>a m. got = Some (a, m) \<and> take (unat m) buf1 = c) \<and> ref_pending K sock fd sa n s1 w1 cs" ..
next
  fix n s w buf got buf1 s1 w1
  assume p: "ref_pending K sock fd sa n s w []" and "length (buf :: byte list) = n"
    and r: "ref_recv K (StActive sock) s buf (of_nat n) w = (got, buf1, s1, w1)"
  then have s: "ar_set s" "si_fd (a_impl sock) = Some fd" "si_family (a_impl sock) = ipv4" "replies_to s sa"
    "datagrams K fd (of_nat n) (w_kern w) []" by (auto simp: ref_pending_def)
  obtain x w0 where x: "do_sys K (SysRecvfrom fd (of_nat n) 0 sizeof_sockaddr_in) w = (x, w0)" by fastforce
  have "rp_ret x = -1" "w_errno w0 = EAGAIN" using s(5) do_sys_trace [OF x] by simp_all
  with ref_recv_none [OF s(1-3) x, of buf] r s show "got = None \<and> ref_rested sa s1 w1"
    by (simp add: ref_rested_def)
qed (simp add: ref_rested_def ref_finished_def ref_active_def again_def eagain_def)

text \<open>
  The visit of a connectionless server's connection: all datagrams that wait are answered together, to
  the sender of the last one.
\<close>

theorem datagrams_are_answered_together:
  assumes "ar_set s" and "si_fd (a_impl sock) = Some fd" and "si_family (a_impl sock) = ipv4"
    and "datagrams K fd (of_nat (length tmp)) (w_kern w) ds" and "length tmp < 2 ^ 64"
    and "concat (map snd ds) \<noteq> []" and "create_response (to_text (concat (map snd ds))) = Inr resp"
  shows "\<exists>s' tmp' w' r e t.
      visit_connection (ref_recv K (StActive sock)) (ref_send K (StActive sock)) (ref_finished (StActive sock))
        False tmp s [] w = Some (Erased s', tmp', w')
    \<and> w_trace w' = Sys (SysSendto fd (of_text resp) (of_nat (length resp)) 0 (fst (last ds))) r e # t"
proof -
  have "ds \<noteq> []" using assms(6) by auto
  have "ref_pending K sock fd (fst (last ds)) (length tmp) s w (map snd ds)"
    unfolding ref_pending_def using assms(1-5) \<open>ds \<noteq> []\<close> by (intro conjI exI [of _ ds]) simp_all
  then obtain tmp' s1 w1 where v: "ref_rested (fst (last ds)) s1 w1"
    "visit_connection (ref_recv K (StActive sock)) (ref_send K (StActive sock)) (ref_finished (StActive sock)) False tmp s [] w =
       (case ref_send K (StActive sock) s1 (of_text resp) (of_nat (length resp)) w1 of
          (sent, s2, w2) \<Rightarrow> Some (if sent = None \<or> \<not> False then Erased s2 else Again s2, tmp', w2))"
    using assms(6,7) by (rule dgram.visit_answers)
  then obtain a where a: "ar_set s1" "ar_remote s1 = Some a" "is_ipv4 (ap_addr a)"
    "sock_addr4 (ap_addr a) (ap_port a) = fst (last ds)" by (auto simp: ref_rested_def replies_to_def)
  obtain r w2 where sys: "do_sys K (SysSendto fd (of_text resp) (of_nat (length resp)) 0 (fst (last ds))) w1 = (r, w2)"
    by fastforce
  have "snd (snd (ref_send K (StActive sock) s1 (of_text resp) (of_nat (length resp)) w1)) = w2"
    using a sys assms(2,3)
    by (simp add: ref_send_def ref_active_def send_less_def impl_send_to_def send_to_impl_def is_ipv4_def)
  then obtain sent s2 where "ref_send K (StActive sock) s1 (of_text resp) (of_nat (length resp)) w1 = (sent, s2, w2)"
    by (cases "ref_send K (StActive sock) s1 (of_text resp) (of_nat (length resp)) w1") auto
  with v(2) do_sys_trace [OF sys] show ?thesis by auto
qed

text \<open>The witness: two datagrams of two senders.\<close>

definition two_senders_os :: "nat os" where
  "two_senders_os k c =
     (case c of
        SysEpollWait ep n t \<Rightarrow> ((answer 1)\<lparr>rp_events := [(1, 5)]\<rparr>, k)
      | SysRecvfrom fd n fl al \<Rightarrow>
          (if k < 2
           then ((answer 1)\<lparr>rp_data := [104], rp_addr := [2, 0, 0, of_nat k, 127, 0, 0, 1, 0, 0, 0, 0, 0, 0, 0, 0]\<rparr>, Suc k)
           else (failure EAGAIN, k))
      | SysSendto fd buf n fl sa \<Rightarrow> (answer (int (length buf)), k)
      | _ \<Rightarrow> (answer 0, k))"

abbreviation two_datagrams :: "(byte list \<times> byte list) list" where
  "two_datagrams \<equiv> map (\<lambda>p. ([2, 0, 0, p, 127, 0, 0, 1, 0, 0, 0, 0, 0, 0, 0, 0], [104])) [0, 1]"

lemma two_senders:
  "datagrams two_senders_os 5 (of_nat (length [0, 0, 0 :: byte])) 0 two_datagrams"
  "create_response (to_text (concat (map snd two_datagrams))) = Inr ''hh''" "of_text ''hh'' = [104, 104]"
proof -
  have "\<exists>prt host. [2, 0, 0, p, 127, 0, 0, 1, 0, 0, 0, 0, 0, 0, 0, 0] = sa_family AF_INET @ prt @ host @ replicate 8 0
      \<and> length prt = 2 \<and> length host = 4" for p
    by (intro exI [of _ "[0, p]"] exI [of _ "[127, 0, 0, 1]"]) (simp add: sa_family_def numeral_eq_Suc)
  then show "datagrams two_senders_os 5 (of_nat (length [0, 0, 0 :: byte])) 0 two_datagrams"
    by (simp add: two_senders_os_def)
  have "stream_words ''hh'' = [''hh'']" by (simp add: stream_words.simps is_space_def)
  then have "create_response ''hh'' = Inr ''hh''"
    by (simp add: create_response_def parse_ints_def is_number_def is_digit_def)
  moreover have "to_text (concat (map snd two_datagrams)) = ''hh''" by (simp add: to_text_def char_of_def bit_Suc_0_iff)
  ultimately show "create_response (to_text (concat (map snd two_datagrams))) = Inr ''hh''" by simp
  show "of_text ''hh'' = [104, 104]" by (simp add: of_text_def)
qed

theorem datagrams_are_answered_together_witness:
  "\<exists>s' tmp' w' r e t.
     visit_connection (ref_recv two_senders_os (StActive udp_socket)) (ref_send two_senders_os (StActive udp_socket))
       (ref_finished (StActive udp_socket)) False [0, 0, 0] ref_ctor [] (init_world 0) = Some (Erased s', tmp', w')
     \<and> w_trace w' = Sys (SysSendto 5 [104, 104] 2 0 [2, 0, 0, 1, 127, 0, 0, 1, 0, 0, 0, 0, 0, 0, 0, 0]) r e # t"
proof -
  have d: "datagrams two_senders_os 5 (of_nat (length [0, 0, 0 :: byte])) (w_kern (init_world 0)) two_datagrams"
    using two_senders(1) by simp
  from datagrams_are_answered_together [OF _ _ _ d _ _ two_senders(2), of ref_ctor udp_socket] two_senders(3)
  show ?thesis by (simp add: ref_ctor_def udp_socket_def socket_impl_ctor_def)
qed

subsection \<open>Peers that close\<close>

text \<open>
  After an orderly shutdown by the peer, \<^verbatim>\<open>recv\<close> returns \<open>0\<close> whenever it is called.
  The library reports that as a result, not as the absence of one, and the inner loop goes on.
\<close>

definition at_eof :: "'k os \<Rightarrow> int \<Rightarrow> 'k \<Rightarrow> bool" where
  "at_eof K fd k \<longleftrightarrow>
     (\<exists>S. k \<in> S \<and> (\<forall>j \<in> S. \<forall>n. rp_ret (fst (K j (SysRecv fd n 0))) = 0 \<and> snd (K j (SysRecv fd n 0)) \<in> S))"

lemma drain_step_at_eof:
  assumes "si_fd (a_impl (as_sock s)) = Some fd" and "at_eof K fd (w_kern w)"
    and "accepted_recv K s tmp n w = (got, tmp1, s1, w1)"
  shows "got \<noteq> None \<and> s1 = s \<and> at_eof K fd (w_kern w1)"
proof -
  obtain S where S: "w_kern w \<in> S"
    "\<forall>j \<in> S. \<forall>n. rp_ret (fst (K j (SysRecv fd n 0))) = 0 \<and> snd (K j (SysRecv fd n 0)) \<in> S"
    using assms(2) by (auto simp: at_eof_def)
  obtain r v where d: "do_sys K (SysRecv fd n 0) w = (r, v)" by fastforce
  have "K (w_kern w) (SysRecv fd n 0) = (r, w_kern v)" using do_sys_trace [OF d] by simp
  with S have "rp_ret r = 0" "w_kern v \<in> S" by (metis fst_conv, metis snd_conv)
  moreover from this S(2) have "at_eof K fd (w_kern v)" by (auto simp: at_eof_def)
  ultimately show ?thesis
    using assms(1,3) d by (auto simp: accepted_recv_def receive_conn_def impl_receive_def)
qed

lemma drain_diverges:
  assumes "drain recv tmp s acc w = Some y"
  shows "recv = accepted_recv K \<Longrightarrow> si_fd (a_impl (as_sock s)) = Some fd \<Longrightarrow> at_eof K fd (w_kern w) \<Longrightarrow> False"
  using assms
proof (induct recv tmp s acc w y arbitrary: rule: drain.raw_induct [rotated, consumes 1, case_names step])
  case (step dr recv tmp s acc w y)
  obtain got tmp1 s1 w1 where r: "recv s tmp (of_nat (length tmp)) w = (got, tmp1, s1, w1)"
    using prod_cases4 by blast
  have "accepted_recv K s tmp (of_nat (length tmp)) w = (got, tmp1, s1, w1)"
    using r step.prems(1) by simp
  note eof = drain_step_at_eof [OF step.prems(2,3) this]
  then obtain a n where "got = Some (a, n)" by auto
  with step.hyps(2) r have "dr recv tmp1 s1 (acc @ take (unat n) tmp1) w1 = Some y" by simp
  from step.hyps(1) [OF this step.prems(1)] eof step.prems(2) show ?case by simp
qed

text \<open>
  C39: When the peer has closed its side, so that every further receive reports zero bytes, the
  server's inner loop over that connection never ends.
\<close>

theorem server_hangs_on_a_closed_connection:
  assumes "si_fd (a_impl (as_sock s)) = Some fd" and "at_eof K fd (w_kern w)"
  shows "visit_connection (accepted_recv K) (accepted_send K) accepted_finished True tmp s acc w = None"
proof (cases "drain (accepted_recv K) tmp s acc w")
  case None
  then show ?thesis by (simp add: visit_connection_def)
next
  case (Some y)
  from drain_diverges [OF this refl assms] show ?thesis ..
qed

theorem server_hangs_on_a_closed_connection_witness:
  "visit_connection (accepted_recv counting_os) (accepted_send counting_os) accepted_finished True
     [0, 0] sample_connection [] (init_world [9]) = None"
proof (rule server_hangs_on_a_closed_connection)
  show "si_fd (a_impl (as_sock sample_connection)) = Some 9"
    by (simp add: sample_connection_def socket_impl_ctor_def)
  show "at_eof counting_os 9 (w_kern (init_world [9]))"
    unfolding at_eof_def by (rule exI [of _ UNIV]) (simp add: counting_os_def answer_def)
qed

end
