(* ===== verification/Async_Stdin.thy ===== *)
theory Async_Stdin
  imports Prelude
begin

section \<open>Lines of the standard input\<close>

text \<open>
  Models \<^verbatim>\<open>app/async_stdin.h\<close> and \<^verbatim>\<open>app/async_stdin.cpp\<close>, and what they use of
  \<^verbatim>\<open>std::cin\<close>: the stream takes its bytes through the buffer of C's \<^verbatim>\<open>stdin\<close>, so one
  \<^verbatim>\<open>read\<close> of the descriptor may bring more than the line that is asked for. What the coming
  \<^verbatim>\<open>read\<close>s of the descriptor return is a list of texts; an empty text, or the end of the list,
  is the end of the file. What \<^verbatim>\<open>poll\<close> answers is an argument.
\<close>

record pollfd =
  pf_fd :: int
  pf_events :: "16 word"

record async_stdin =
  ai_fd :: pollfd

definition STDIN_FILENO :: int where "STDIN_FILENO = 0"
definition POLLIN :: "16 word" where "POLLIN = 1"
definition POLLPRI :: "16 word" where "POLLPRI = 2"
definition POLLRDNORM :: "16 word" where "POLLRDNORM = 0x40"
definition POLLRDBAND :: "16 word" where "POLLRDBAND = 0x80"

definition async_stdin_ctor :: async_stdin where
  "async_stdin_ctor =
     \<lparr>ai_fd = \<lparr>pf_fd = STDIN_FILENO, pf_events = POLLIN OR POLLRDBAND OR POLLRDNORM OR POLLPRI\<rparr>\<rparr>"

subsection \<open>\<^verbatim>\<open>std::cin\<close>\<close>

record cin =
  cin_buf :: string          \<comment> \<open>read from the descriptor, not yet taken\<close>
  cin_reads :: "string list" \<comment> \<open>what the descriptor will deliver\<close>
  cin_eof :: bool

definition newline :: char where
  "newline = CHR 0x0A"

text \<open>
  \<^verbatim>\<open>std::getline\<close>: takes up to the next newline, which it drops, reading on as needed; at the
  end of the file it keeps what it has. Once the end was seen it takes nothing.
\<close>

fun scan_line :: "string \<Rightarrow> string \<Rightarrow> string list \<Rightarrow> string \<times> cin" where
  "scan_line str [] [] = (str, \<lparr>cin_buf = [], cin_reads = [], cin_eof = True\<rparr>)"
| "scan_line str [] (r # rs) =
     (if r = [] then (str, \<lparr>cin_buf = [], cin_reads = rs, cin_eof = True\<rparr>) else scan_line str r rs)"
| "scan_line str (c # cs) rs =
     (if c = newline then (str, \<lparr>cin_buf = cs, cin_reads = rs, cin_eof = False\<rparr>)
      else scan_line (str @ [c]) cs rs)"

definition getline :: "cin \<Rightarrow> string \<times> cin" where
  "getline c = (if cin_eof c then ([], c) else scan_line [] (cin_buf c) (cin_reads c))"

subsection \<open>\<^verbatim>\<open>read_line\<close>\<close>

definition read_line :: "(pollfd \<Rightarrow> int) \<Rightarrow> async_stdin \<Rightarrow> cin \<Rightarrow> string option \<times> cin" where
  "read_line poll ai c =
     (if poll (ai_fd ai) = 1
      then (case getline c of (ret, c1) \<Rightarrow> (Some ret, c1))
      else (None, c))"

text \<open>Successive calls, each with the answer of its \<^verbatim>\<open>poll\<close>.\<close>

fun read_lines :: "(pollfd \<Rightarrow> int) list \<Rightarrow> async_stdin \<Rightarrow> cin \<Rightarrow> string option list \<times> cin" where
  "read_lines [] ai c = ([], c)"
| "read_lines (poll # polls) ai c =
     (case read_line poll ai c of
        (line, c1) \<Rightarrow> (case read_lines polls ai c1 of (lines, c2) \<Rightarrow> (line # lines, c2)))"

subsection \<open>The lines of a text\<close>

fun split_lines :: "string \<Rightarrow> string \<Rightarrow> string list" where
  "split_lines str [] = (if str = [] then [] else [str])"
| "split_lines str (c # cs) = (if c = newline then str # split_lines [] cs else split_lines (str @ [c]) cs)"

definition cin_lines :: "cin \<Rightarrow> string list" where
  "cin_lines c = split_lines [] (cin_buf c @ concat (cin_reads c))"

text \<open>Every read of an open file returns something; after the end nothing is left.\<close>

definition cin_ok :: "cin \<Rightarrow> bool" where
  "cin_ok c \<longleftrightarrow> [] \<notin> set (cin_reads c) \<and> (cin_eof c \<longrightarrow> cin_buf c = [] \<and> cin_reads c = [])"

lemma scan_line_next:
  "scan_line str buf rs = (l, c') \<Longrightarrow> [] \<notin> set rs \<Longrightarrow>
     cin_ok c' \<and> (case split_lines str (buf @ concat rs) of
                     [] \<Rightarrow> l = [] \<and> cin_lines c' = [] | x # xs \<Rightarrow> l = x \<and> cin_lines c' = xs)"
proof (induction str buf rs rule: scan_line.induct)
  case (2 str r rs)
  then show ?case by (cases "r = []") simp_all
next
  case (3 str c cs rs)
  then show ?case by (cases "c = newline") (auto simp: cin_ok_def cin_lines_def)
qed (auto simp: cin_ok_def cin_lines_def)

lemma getline_next:
  assumes "cin_ok c" and "getline c = (l, c')"
  shows "cin_ok c'" and "l = (case cin_lines c of [] \<Rightarrow> [] | x # xs \<Rightarrow> x)" and "cin_lines c' = tl (cin_lines c)"
proof -
  have "cin_ok c' \<and> l = (case cin_lines c of [] \<Rightarrow> [] | x # xs \<Rightarrow> x) \<and> cin_lines c' = tl (cin_lines c)"
  proof (cases "cin_eof c")
    case True
    with assms show ?thesis by (auto simp: getline_def cin_lines_def cin_ok_def)
  next
    case False
    with assms(2) have s: "scan_line [] (cin_buf c) (cin_reads c) = (l, c')" by (simp add: getline_def)
    have "[] \<notin> set (cin_reads c)" using assms(1) by (simp add: cin_ok_def)
    from scan_line_next [OF s this] show ?thesis
      by (auto simp: cin_lines_def split: list.splits)
  qed
  then show "cin_ok c'" "l = (case cin_lines c of [] \<Rightarrow> [] | x # xs \<Rightarrow> x)" "cin_lines c' = tl (cin_lines c)"
    by simp_all
qed

lemma read_lines_ready:
  assumes "cin_ok c" and "\<forall>poll \<in> set polls. poll (ai_fd ai) = 1" and "length polls \<le> m"
  shows "fst (read_lines polls ai c) = map Some (take (length polls) (cin_lines c @ replicate m []))"
  using assms
proof (induction polls arbitrary: c m)
  case (Cons poll polls)
  obtain l c1 where g: "getline c = (l, c1)" by (rule prod.exhaust)
  note next_line = getline_next [OF Cons.prems(1) g]
  have IH: "length polls \<le> k \<Longrightarrow>
      fst (read_lines polls ai c1) = map Some (take (length polls) (cin_lines c1 @ replicate k []))" for k
    using Cons.IH [OF next_line(1)] Cons.prems(2) by simp
  have step: "fst (read_lines (poll # polls) ai c) = Some l # fst (read_lines polls ai c1)"
    using Cons.prems(2) g by (simp add: read_line_def split_def)
  show ?case
  proof (cases "cin_lines c")
    case Nil
    with Cons.prems(3) next_line IH [of "m - 1"] step show ?thesis by (cases m) simp_all
  next
    case (Cons x xs)
    with Cons.prems(3) next_line IH [of m] step show ?thesis by simp
  qed
qed simp

text \<open>
  C20: However the bytes of the standard input are cut into reads, successive calls of read_line
  that find it ready return its lines in order and without their newlines, the last one also
  when it does not end in a newline, and empty lines from then on.
\<close>

theorem input_lines_are_read_in_order:
  assumes "[] \<notin> set reads" and "\<forall>poll \<in> set polls. poll (ai_fd ai) = 1"
  shows "fst (read_lines polls ai \<lparr>cin_buf = [], cin_reads = reads, cin_eof = False\<rparr>) =
    map Some (take (length polls) (split_lines [] (concat reads) @ replicate (length polls) []))"
  using read_lines_ready [of "\<lparr>cin_buf = [], cin_reads = reads, cin_eof = False\<rparr>" polls ai "length polls"] assms
  by (simp add: cin_ok_def cin_lines_def)

theorem input_lines_are_read_in_order_witness:
  "fst (read_lines (replicate 4 (\<lambda>_. 1)) async_stdin_ctor
     \<lparr>cin_buf = [], cin_reads = [''ab'', [CHR ''c'', newline, newline], ''d''], cin_eof = False\<rparr>) =
   [Some ''abc'', Some [], Some ''d'', Some []]"
proof -
  have nl: "newline \<noteq> CHR ''a''" "newline \<noteq> CHR ''b''" "newline \<noteq> CHR ''c''" "newline \<noteq> CHR ''d''"
    by (simp_all add: newline_def)
  have "split_lines [] (concat [''ab'', [CHR ''c'', newline, newline], ''d'']) = [''abc'', [], ''d'']"
    using nl by auto
  then show ?thesis
    using input_lines_are_read_in_order
      [of "[''ab'', [CHR ''c'', newline, newline], ''d'']" "replicate 4 (\<lambda>_. 1)" async_stdin_ctor]
    by (simp add: numeral_eq_Suc)
qed

text \<open>
  A read that brings several lines: \<^verbatim>\<open>poll\<close> looks at the descriptor, which is then empty, not at
  the buffer. The lines behind the first one wait there until the descriptor has something again.
\<close>

lemma read_lines_not_ready:
  "\<forall>poll \<in> set polls. poll (ai_fd ai) \<noteq> 1 \<Longrightarrow> read_lines polls ai c = (replicate (length polls) None, c)"
  by (induction polls) (simp_all add: read_line_def)

theorem read_ahead_lines_wait:
  assumes "newline \<notin> set line" and "poll (ai_fd ai) = 1" and "\<forall>q \<in> set polls. q (ai_fd ai) \<noteq> 1"
  shows "read_lines (poll # polls) ai \<lparr>cin_buf = [], cin_reads = (line @ newline # ahead) # reads, cin_eof = False\<rparr> =
    (Some line # replicate (length polls) None, \<lparr>cin_buf = ahead, cin_reads = reads, cin_eof = False\<rparr>)"
proof -
  have "newline \<notin> set l \<Longrightarrow> scan_line str (l @ newline # ahead) reads =
      (str @ l, \<lparr>cin_buf = ahead, cin_reads = reads, cin_eof = False\<rparr>)" for str l
    by (induction l arbitrary: str) auto
  with assms(1,2) read_lines_not_ready [OF assms(3)] show ?thesis
    by (simp add: read_line_def getline_def)
qed

theorem read_ahead_lines_wait_witness:
  "read_lines [\<lambda>_. 1, \<lambda>_. 0, \<lambda>_. 0] async_stdin_ctor
     \<lparr>cin_buf = [], cin_reads = [''a'' @ newline # ''b'' @ [newline]], cin_eof = False\<rparr> =
   ([Some ''a'', None, None], \<lparr>cin_buf = ''b'' @ [newline], cin_reads = [], cin_eof = False\<rparr>)"
  using read_ahead_lines_wait [of "''a''" "\<lambda>_. 1" async_stdin_ctor "[\<lambda>_. 0, \<lambda>_. 0]" "''b'' @ [newline]" "[]"]
  by (simp add: newline_def)

end
