(* ===== verification/Client_Main.thy ===== *)
theory Client_Main
  imports Client_Protocol Client_Props App Async_Stdin
begin

section \<open>The example client\<close>

text \<open>
  Models \<^verbatim>\<open>app/client_main.cpp\<close>: the signal handler, the callbacks and \<^verbatim>\<open>init\<close>, the main
  loop, and \<^verbatim>\<open>main\<close>. A round takes what \<^verbatim>\<open>async_stdin\<close> returns in it, a line or nothing;
  since the input depends on nothing else of the program, \<open>client_program\<close> computes the lines of
  all rounds beforehand. The output streams are the results.
\<close>

subsection \<open>The read callback\<close>

text \<open>
  The loop receives into a fresh buffer of 256 bytes until \<^verbatim>\<open>finished_recv\<close>. It need not end:
  \<open>None\<close> is a run that never leaves it.
\<close>

partial_function (option) read_response ::
  "'k os \<Rightarrow> proto \<Rightarrow> 'p client \<Rightarrow> byte list \<Rightarrow> 'k world \<Rightarrow> (byte list \<times> 'k world) option" where
  "read_response K pr cl resp w =
     (case client_recv K pr cl (replicate 256 0) 256 w of
        (rec, tmp_buff, w1) \<Rightarrow>
          let resp1 = (case rec of Some (_, n) \<Rightarrow> resp @ take (unat n) tmp_buff | None \<Rightarrow> resp)
          in if client_finished_recv cl w1 then Some (resp1, w1) else read_response K pr cl resp1 w1)"

text \<open>
  The three callbacks: connected, readable, disconnected. The client has no callback for unhandled
  events. After a read that never ends nothing else happens; \<open>NoReturn\<close> marks that place in
  the history.
\<close>

definition main_app :: "'k os \<Rightarrow> proto \<Rightarrow> ('p, 'k) client_app" where
  "main_app K pr =
     \<lparr>app_call = (\<lambda>cb (cl, w).
        if cb = 1
        then (case read_response K pr cl [] w of
                Some (resp, w1) \<Rightarrow> (None, (cl, w1))
              | None \<Rightarrow> (None, (cl, mark_ub NoReturn w)))
        else (None, (cl, w))),
      app_unhandled = (\<lambda>cb evs s. (None, s))\<rparr>"

subsection \<open>\<^verbatim>\<open>init\<close> and the main loop\<close>

definition client_init ::
  "'k os \<Rightarrow> inet \<Rightarrow> ('p, 'k world) poll_traits \<Rightarrow> proto \<Rightarrow> int \<Rightarrow> int option \<Rightarrow> 'p client \<Rightarrow> 'k world
   \<Rightarrow> bool \<times> 'p client \<times> 'k world" where
  "client_init K N PT pr port local_port cl w =
     (case (case local_port of
              Some lp \<Rightarrow> client_start_at K N PT pr ''127.0.0.1'' (word_of_int lp) cl w
            | None \<Rightarrow> client_start K PT pr cl w) of
        (started, cl1, w1) \<Rightarrow>
          if started
          then client_connect K N pr ''127.0.0.1'' (word_of_int port) (Some 0) (Some 1) (Some 2) cl1 w1
          else (False, cl1, w1))"

text \<open>
  One round, with the line to send, if there is one. The result is the line that the error message
  quotes; an exception of \<^verbatim>\<open>proceed\<close> leaves the loop.
\<close>

definition client_round ::
  "'k os \<Rightarrow> ('p, 'k world) poll_traits \<Rightarrow> ('p, 'k) client_app \<Rightarrow> proto \<Rightarrow> string option
   \<Rightarrow> 'p client \<times> 'k world \<Rightarrow> (exn list + string option) \<times> 'p client \<times> 'k world" where
  "client_round K PT A pr line s =
     (case client_proceed PT A 10 s of
        (Inl exs, s1) \<Rightarrow> (Inl exs, s1)
      | (Inr _, (cl, w1)) \<Rightarrow>
          (case line of
             None \<Rightarrow> (Inr None, (cl, w1))
           | Some input \<Rightarrow>
               (case client_send K pr cl (of_text input) (of_nat (length input)) w1 of
                  (sent, w2) \<Rightarrow>
                    (Inr (if sent = None \<and> \<not> client_finished_send cl w2 \<and> \<not> client_finished_recv cl w2
                          then Some input else None), (cl, w2)))))"

definition client_sig :: "int \<Rightarrow> int option" where
  "client_sig main_loop = (if main_loop = 0 then None else Some 0)"

text \<open>
  The loop. Each round comes with its line and the number of signals that arrive during it; the
  list is as far as the run is looked at.
\<close>

fun client_rounds ::
  "'k os \<Rightarrow> ('p, 'k world) poll_traits \<Rightarrow> ('p, 'k) client_app \<Rightarrow> proto \<Rightarrow> int \<Rightarrow> (string option \<times> nat) list
   \<Rightarrow> 'p client \<times> 'k world \<Rightarrow> exit_status \<times> 'p client \<times> 'k world" where
  "client_rounds K PT A pr main_loop [] s = (if main_loop = 0 then Returned else Running, s)"
| "client_rounds K PT A pr main_loop ((line, sigs) # rounds) s =
     (if main_loop = 0 then (Returned, s)
      else case client_round K PT A pr line s of
             (Inl exs, s1) \<Rightarrow> (TerminatedBy exs, s1)
           | (Inr _, s1) \<Rightarrow>
               (case signals client_sig sigs main_loop of
                  None \<Rightarrow> (Exited 1, s1)
                | Some main_loop1 \<Rightarrow> client_rounds K PT A pr main_loop1 rounds s1))"

subsection \<open>\<^verbatim>\<open>main\<close>\<close>

text \<open>
  From the parsed arguments on. The process ends by \<^verbatim>\<open>return 0\<close>, which destroys the client, by
  \<^verbatim>\<open>std::terminate\<close>, because the epoll's constructor or \<^verbatim>\<open>proceed\<close> threw or because
  \<^verbatim>\<open>init\<close> failed, or by \<^verbatim>\<open>exit\<close> in the signal handler, which destroys no local object. A
  TCP client ignores the local port.
\<close>

definition client_main ::
  "'k os \<Rightarrow> inet \<Rightarrow> proto \<Rightarrow> int \<Rightarrow> int option \<Rightarrow> (string option \<times> nat) list \<Rightarrow> 'k world
   \<Rightarrow> exit_status \<times> 'k world" where
  "client_main K N pr remote_port local_port rounds w =
     (case epoll_ctor K 5 10 w of
        (Inl e, w1) \<Rightarrow> (TerminatedBy [e], w1)
      | (Inr ep, w1) \<Rightarrow>
          (case client_init K N (epoll_traits K) pr remote_port
                  (if is_connectionless pr then local_port else None) (client_ctor ep ipv4 None) w1 of
             (False, cl, w2) \<Rightarrow> (TerminatedBy [], w2)
           | (True, cl, w2) \<Rightarrow>
               (case client_rounds K (epoll_traits K) (main_app K pr) pr 1 rounds (cl, w2) of
                  (out, (cl1, w3)) \<Rightarrow>
                    (out, if out = Returned then client_dtor K (epoll_dtor K) cl1 w3 else w3))))"

text \<open>
  The arguments: protocol, remote port and, if there is one more, local port. An exception of
  \<^verbatim>\<open>std::stoi\<close> leaves \<^verbatim>\<open>main\<close>. Everything but \<^verbatim>\<open>tcp\<close> is taken for \<^verbatim>\<open>udp\<close>.
\<close>

definition client_args :: "string list \<Rightarrow> exn list + proto \<times> int \<times> int option" where
  "client_args argv =
     (if length argv < 3 then Inl []
      else case stoi (argv ! 2) of
             Inl e \<Rightarrow> Inl [e]
           | Inr remote_port \<Rightarrow>
               let pr = (if argv ! 1 = ''tcp'' then tcp else udp)
               in if length argv > 3
                  then (case stoi (argv ! 3) of Inl e \<Rightarrow> Inl [e] | Inr p \<Rightarrow> Inr (pr, remote_port, Some p))
                  else Inr (pr, remote_port, None))"

text \<open>
  The program. Per round of its loop it takes what \<^verbatim>\<open>poll\<close> answers for the standard input and the
  number of signals.
\<close>

definition client_program ::
  "'k os \<Rightarrow> inet \<Rightarrow> string list \<Rightarrow> ((pollfd \<Rightarrow> int) \<times> nat) list \<Rightarrow> cin \<Rightarrow> 'k world \<Rightarrow> exit_status \<times> 'k world" where
  "client_program K N argv rounds input w =
     (case client_args argv of
        Inl exs \<Rightarrow> (TerminatedBy exs, w)
      | Inr (pr, remote_port, local_port) \<Rightarrow>
          client_main K N pr remote_port local_port
            (zip (fst (read_lines (map fst rounds) async_stdin_ctor input)) (map snd rounds)) w)"

end
