(* ===== verification/Client_Main_Props.thy ===== *)
theory Client_Main_Props
  imports Client_Main
begin

section \<open>What the example client does\<close>

subsection \<open>Reading a response\<close>

text \<open>What each receive keeps, the loop keeps.\<close>

lemma read_response_keeps_aux:
  assumes "read_response K pr cl resp w = Some y"
  shows "(\<forall>w a buf w1. client_recv K pr cl (replicate 256 0) 256 w = (a, buf, w1) \<and> I w \<longrightarrow> I w1) \<Longrightarrow> I w \<Longrightarrow> I (snd y)"
  using assms
proof (induct K pr cl resp w y rule: read_response.raw_induct [rotated, consumes 1, case_names step])
  case (step rr K pr cl resp w y)
  obtain a buf w1 where r: "client_recv K pr cl (replicate 256 0) 256 w = (a, buf, w1)"
    using prod_cases3 by blast
  have inv: "I w1" using step.prems r by blast
  show ?case
  proof (cases "client_finished_recv cl w1")
    case True
    with step.hyps(2) r inv show ?thesis by (auto simp: Let_def)
  next
    case False
    with step.hyps(2) r obtain resp1 where "rr K pr cl resp1 w1 = Some y" by (auto simp: Let_def)
    from step.hyps(1) [OF this step.prems(1) inv] show ?thesis by blast
  qed
qed

lemma read_response_keeps:
  assumes "read_response K pr cl resp w = Some (r, w')" and "I w"
    and "\<And>w a buf w1. client_recv K pr cl (replicate 256 0) 256 w = (a, buf, w1) \<Longrightarrow> I w \<Longrightarrow> I w1"
  shows "I w'"
  using read_response_keeps_aux [OF assms(1), of I] assms(2,3) by fastforce

text \<open>A connected client of a stream protocol.\<close>

definition talks_on :: "'p client \<Rightarrow> int \<Rightarrow> bool" where
  "talks_on cl fd \<longleftrightarrow> (\<exists>s. en_state cl = StActive s \<and> si_fd (a_impl s) = Some fd) \<and> cl_remote cl \<noteq> None"

lemma client_recv_stream:
  assumes "talks_on cl fd" and "\<not> is_connectionless pr" and "do_sys K (SysRecv fd n 0) w = (r, w1)"
  shows "client_recv K pr cl buf n w =
    (if rp_ret r = -1 then (None, buf, w1)
     else (Some (the (cl_remote cl), word_of_int (rp_ret r)), overlay buf (rp_data r), w1))"
  using assms by (auto simp: talks_on_def client_recv_def receive_conn_def impl_receive_def)

lemma client_finished_recv_stream: "talks_on cl fd \<Longrightarrow> client_finished_recv cl w \<longleftrightarrow> w_errno w = EAGAIN"
  by (auto simp: talks_on_def client_finished_recv_def client_again_or_would_block_def again_def eagain_def
      active_would_block_def would_block_def)

lemma read_response_step:
  assumes "talks_on cl fd" and "\<not> is_connectionless pr" and "delivers K fd 256 (w_kern w) (c # cs)"
    and "do_sys K (SysRecv fd 256 0) w = (r, w1)"
  shows "read_response K pr cl resp w =
      (if w_errno w = EAGAIN then Some (resp @ c, w1) else read_response K pr cl (resp @ c) w1)"
    and "delivers K fd 256 (w_kern w1) cs" and "w_errno w1 = w_errno w"
proof -
  note tr = do_sys_trace [OF assms(4)]
  have r: "rp_ret r = int (length c)" "rp_data r = c" "length c \<le> 256" "delivers K fd 256 (w_kern w1) cs"
    using assms(3) tr by simp_all
  then have e: "w_errno w1 = w_errno w" using tr by simp
  have "take (unat (word_of_int (int (length c)) :: size_t)) (overlay (replicate 256 0) c) = c"
    using r(3) by (simp add: unat_of_nat take_overlay)
  then show "read_response K pr cl resp w =
      (if w_errno w = EAGAIN then Some (resp @ c, w1) else read_response K pr cl (resp @ c) w1)"
    using client_recv_stream [OF assms(1,2,4)] r(1,2) e
    by (subst read_response.simps) (simp add: Let_def client_finished_recv_stream [OF assms(1)])
  show "delivers K fd 256 (w_kern w1) cs" "w_errno w1 = w_errno w" using r(4) e by simp_all
qed

lemma read_response_collects:
  assumes "talks_on cl fd" and "\<not> is_connectionless pr"
  shows "delivers K fd 256 (w_kern w) chunks \<Longrightarrow> w_errno w \<noteq> EAGAIN
    \<Longrightarrow> \<exists>w'. read_response K pr cl resp w = Some (resp @ concat chunks, w') \<and> w_errno w' = EAGAIN"
proof (induction chunks arbitrary: resp w)
  case Nil
  obtain r w1 where d: "do_sys K (SysRecv fd 256 0) w = (r, w1)" by fastforce
  have "rp_ret r = -1" "w_errno w1 = EAGAIN" using Nil do_sys_trace [OF d] by simp_all
  with client_recv_stream [OF assms d] show ?case
    by (subst read_response.simps) (simp add: client_finished_recv_stream [OF assms(1)])
next
  case (Cons c cs)
  obtain r w1 where d: "do_sys K (SysRecv fd 256 0) w = (r, w1)" by fastforce
  note step = read_response_step [OF assms Cons.prems(1) d]
  from Cons.IH [OF step(2), of "resp @ c"] step(1) [of resp] step(3) Cons.prems(2) show ?case by simp
qed

text \<open>
  C26: When errno is not EAGAIN before, the example client's read callback ends and returns the
  whole response, in however many pieces it arrives, and leaves errno at EAGAIN.
\<close>

theorem first_response_is_complete:
  assumes "talks_on cl fd" and "\<not> is_connectionless pr"
    and "delivers K fd 256 (w_kern w) chunks" and "w_errno w \<noteq> EAGAIN"
  shows "\<exists>w'. read_response K pr cl [] w = Some (concat chunks, w') \<and> w_errno w' = EAGAIN"
  using read_response_collects [OF assms(1-4), where resp = "[]"] by simp

lemma talks_on_connected: "talks_on connected_client 7"
  by (simp add: talks_on_def connected_client_def socket_impl_ctor_def)

lemma pieces_delivers: "\<forall>p \<in> set ps. length p \<le> unat n \<Longrightarrow> delivers pieces_os fd n ps ps"
  by (induction ps) (simp_all add: pieces_os_def)

theorem first_response_is_complete_witness:
  "\<exists>w'. read_response pieces_os tcp connected_client [] (init_world [[104], [105]]) = Some ([104, 105], w')
     \<and> w_errno w' = EAGAIN"
proof -
  have "delivers pieces_os 7 256 (w_kern (init_world [[104], [105]])) [[104], [105]]"
    by (simp add: pieces_delivers del: delivers.simps)
  from first_response_is_complete [OF talks_on_connected _ this] show ?thesis by simp
qed

text \<open>
  \<^verbatim>\<open>finished_recv\<close> looks at \<^verbatim>\<open>errno\<close> only, which a successful \<^verbatim>\<open>recv\<close> leaves as it is.
\<close>

text \<open>
  C27: After one complete response errno is EAGAIN, and a call of the example client's read
  callback that still finds it so, because no failing call came in between, stops after its
  first receive: it returns the first piece that has arrived, at most 256 bytes, and leaves the
  rest unread, although the subscription is edge triggered.
\<close>

theorem later_responses_are_cut:
  assumes "talks_on cl fd" and "\<not> is_connectionless pr"
    and "delivers K fd 256 (w_kern w) chunks" and "w_errno w \<noteq> EAGAIN"
    and "read_response K pr cl [] w = Some (resp, w1)"
    and "delivers K fd 256 (w_kern w2) (c # cs)" and "w_errno w2 = w_errno w1"
  shows "resp = concat chunks
    \<and> (\<exists>w3. read_response K pr cl [] w2 = Some (c, w3) \<and> delivers K fd 256 (w_kern w3) cs)"
proof -
  obtain r w3 where d: "do_sys K (SysRecv fd 256 0) w2 = (r, w3)" by fastforce
  have "resp = concat chunks" "w_errno w2 = EAGAIN"
    using read_response_collects [OF assms(1-4), where resp = "[]"] assms(5,7) by auto
  with read_response_step(1) [OF assms(1,2,6) d, where resp = "[]"] read_response_step(2) [OF assms(1,2,6) d]
  show ?thesis by simp
qed

theorem later_responses_are_cut_witness:
  "\<exists>w1 w3. read_response pieces_os tcp connected_client [] (init_world [[104], [105]]) = Some ([104, 105], w1)
     \<and> read_response pieces_os tcp connected_client [] ((init_world [[106], [107]])\<lparr>w_errno := w_errno w1\<rparr>) = Some ([106], w3)"
proof -
  have d: "delivers pieces_os 7 256 (w_kern (init_world [[104], [105]])) [[104], [105]]"
    by (simp add: pieces_delivers del: delivers.simps)
  obtain w1 where w1: "read_response pieces_os tcp connected_client [] (init_world [[104], [105]]) = Some ([104, 105], w1)"
    using read_response_collects [OF talks_on_connected _ d, of tcp "[]"] by auto
  let ?w2 = "(init_world [[106], [107]])\<lparr>w_errno := w_errno w1\<rparr>"
  have "delivers pieces_os 7 256 (w_kern ?w2) [[106], [107]]"
    by (simp add: pieces_delivers del: delivers.simps)
  from later_responses_are_cut [OF talks_on_connected _ d _ w1 this] w1 show ?thesis by auto
qed

text \<open>When the server has closed its side, every receive returns nothing and succeeds.\<close>

lemma read_response_diverges_aux:
  assumes "read_response K pr cl resp w = Some y"
  shows "talks_on cl fd \<Longrightarrow> \<not> is_connectionless pr \<Longrightarrow> at_eof K fd (w_kern w) \<Longrightarrow> w_errno w \<noteq> EAGAIN \<Longrightarrow> False"
  using assms
proof (induct K pr cl resp w y rule: read_response.raw_induct [rotated, consumes 1, case_names step])
  case (step rr K pr cl resp w y)
  obtain r w1 where d: "do_sys K (SysRecv fd 256 0) w = (r, w1)" by fastforce
  note tr = do_sys_trace [OF d]
  obtain S where S: "w_kern w \<in> S"
    "\<forall>j \<in> S. \<forall>n. rp_ret (fst (K j (SysRecv fd n 0))) = 0 \<and> snd (K j (SysRecv fd n 0)) \<in> S"
    using step.prems(3) unfolding at_eof_def by blast
  then have r: "rp_ret r = 0" and k: "w_kern w1 \<in> S" using tr by (metis fst_conv, metis snd_conv)
  with S(2) have eof: "at_eof K fd (w_kern w1)" unfolding at_eof_def by blast
  have e: "w_errno w1 \<noteq> EAGAIN" using tr r step.prems(4) by simp
  have "rr K pr cl resp w1 = Some y"
    using step.hyps(2) client_recv_stream [OF step.prems(1,2) d] r e
    by (simp add: Let_def client_finished_recv_stream [OF step.prems(1)])
  from step.hyps(1) [OF this step.prems(1,2) eof e] show ?case .
qed

theorem client_hangs_on_a_closed_connection:
  assumes "talks_on cl fd" and "\<not> is_connectionless pr" and "at_eof K fd (w_kern w)" and "w_errno w \<noteq> EAGAIN"
  shows "read_response K pr cl resp w = None"
proof (cases "read_response K pr cl resp w")
  case (Some y)
  from read_response_diverges_aux [OF this assms] show ?thesis ..
qed

theorem client_hangs_on_a_closed_connection_witness:
  "read_response counting_os tcp connected_client [] (init_world [7]) = None"
proof (rule client_hangs_on_a_closed_connection [OF talks_on_connected])
  show "at_eof counting_os 7 (w_kern (init_world [7]))"
    unfolding at_eof_def by (rule exI [of _ UNIV]) (simp add: counting_os_def answer_def)
qed simp_all

subsection \<open>The callbacks meet the client's contracts\<close>

lemma main_app_call:
  assumes "app_call (main_app K pr) cb (cl, w) = (ex, s')" and "I w"
    and "\<And>w a buf w1. client_recv K pr cl (replicate 256 0) 256 w = (a, buf, w1) \<Longrightarrow> I w \<Longrightarrow> I w1"
    and "\<And>w. I w \<Longrightarrow> I (mark_ub NoReturn w)"
  shows "ex = None \<and> fst s' = cl \<and> I (snd s')"
proof (cases "cb = 1 \<and> read_response K pr cl [] w \<noteq> None")
  case True
  then obtain resp w1 where r: "read_response K pr cl [] w = Some (resp, w1)" by auto
  with assms(1) True have "ex = None" "s' = (cl, w1)" by (simp_all add: main_app_def)
  then show ?thesis using read_response_keeps [OF r, of I] assms(2,3) by simp
next
  case False
  with assms(1) have "ex = None \<and> (s' = (cl, w) \<or> s' = (cl, mark_ub NoReturn w))"
    by (auto simp: main_app_def split: if_splits option.splits)
  with assms(2,4) show ?thesis by auto
qed

lemma main_app_follows:
  assumes "posix_fds K live"
  shows "app_follows live pr (main_app K pr)"
proof -
  have "client_inv live pr s'" if i: "client_inv live pr s" "app_call (main_app K pr) cb s = (ex, s')" for cb s ex s'
  proof -
    obtain cl w where s: "s = (cl, w)" by (rule prod.exhaust)
    note h = i [unfolded s]
    have "client_inv live pr (cl, mark_ub NoReturn w)" if "client_inv live pr (cl, w)" for w
      using that by (simp add: client_inv_def)
    then have "fst s' = cl \<and> client_inv live pr (cl, snd s')"
      using main_app_call [OF h(2), of "\<lambda>w. client_inv live pr (cl, w)"] h(1) client_recv_inv [OF _ assms]
      by blast
    then show ?thesis by (cases s') simp
  qed
  moreover have "app_unhandled (main_app K pr) cb evs s = (ex, s') \<Longrightarrow> s' = s" for cb evs s ex s'
    by (simp add: main_app_def)
  ultimately show ?thesis unfolding app_follows_def by blast
qed

definition main_quiet :: "'k os \<Rightarrow> epoll_t client \<times> 'k world \<Rightarrow> epoll_t client \<times> 'k world \<Rightarrow> bool" where
  "main_quiet K s0 s \<longleftrightarrow> same_endpoint (fst s0) (fst s) \<and> via K quiet (snd s0) (snd s)"

lemma main_quiet_refl: "main_quiet K s s"
  by (simp add: main_quiet_def same_endpoint_def via_refl)

lemma main_quiet_trans: "main_quiet K s0 s1 \<Longrightarrow> main_quiet K s1 s2 \<Longrightarrow> main_quiet K s0 s2"
  unfolding main_quiet_def same_endpoint_def by (metis via_trans)

lemma main_quiet_app:
  assumes "call_app (main_app K pr) cb (cl, w) = (ex, s')"
  shows "ex = None \<and> fst s' = cl \<and> via K quiet w (snd s')"
proof (rule main_app_call [OF assms [unfolded call_app_def fst_conv snd_conv]])
  show "via K quiet w (upcall cb w)" by (simp add: via_refl via_upcall)
  show "via K quiet w v'" if "client_recv K pr cl (replicate 256 0) 256 v = (a, buf, v')" "via K quiet w v"
    for v a buf v'
    using client_recv_quiet [OF that(1)] that(2) by (blast intro: via_trans)
qed (rule via_ub)

lemma main_quiet_call:
  assumes "client_call (epoll_traits K) (main_app K pr) h fd s = (ex, s')"
  shows "main_quiet K s s'"
proof -
  obtain cl w where s: "s = (cl, w)" by fastforce
  obtain ok w1 where d: "del_socket K (en_poll cl) fd w = (ok, w1)" by fastforce
  have q: "via K quiet w w1" using d by (rule via_sockets(3))
  note app = assms [unfolded s]
  show ?thesis
  proof (cases h)
    case Erase
    with app d q show ?thesis
      by (auto simp: s main_quiet_def same_endpoint_def via_refl split: if_splits option.splits prod.splits
          dest!: main_quiet_app intro: via_trans)
  next
    case ReadReady
    with app show ?thesis
      by (auto simp: s main_quiet_def same_endpoint_def via_refl split: if_splits option.splits
          dest!: main_quiet_app)
  next
    case WriteReady
    with app show ?thesis
      by (auto simp: s main_quiet_def same_endpoint_def via_refl split: if_splits option.splits prod.splits
          dest!: main_quiet_app)
  qed
qed

interpretation mq: handler_contract "main_quiet K s0"
  "\<lambda>t (c, w). case pt_proceed (epoll_traits K) (en_poll c) t w of (evs, w1) \<Rightarrow> (evs, (c, w1))"
  "client_call (epoll_traits K) (main_app K pr)" "client_unhandled (main_app K pr)" obs for K s0 pr obs
proof unfold_locales
  fix t s evs s1
  assume "(case s of (c, w) \<Rightarrow> case pt_proceed (epoll_traits K) (en_poll c) t w of (evs, w1) \<Rightarrow> (evs, (c, w1))) = (evs, s1)"
    and s0: "main_quiet K s0 s"
  then have "main_quiet K s s1"
    by (auto simp: main_quiet_def same_endpoint_def split: prod.splits dest: via_epoll_proceed)
  with s0 show "main_quiet K s0 s1" by (rule main_quiet_trans)
next
  show "main_quiet K s0 s1"
    if "client_call (epoll_traits K) (main_app K pr) h fd s = (ex, s1)" "main_quiet K s0 s" for h fd s ex s1
    using main_quiet_trans [OF that(2) main_quiet_call [OF that(1)]] .
next
  fix cb evs s ex s1
  assume u: "client_unhandled (main_app K pr) cb evs s = (ex, s1)" and s0: "main_quiet K s0 s"
  have "main_quiet K s s1"
    using u by (cases s) (auto simp: main_quiet_def same_endpoint_def client_unhandled_def main_app_def
        via_refl via_upcall)
  with s0 show "main_quiet K s0 s1" by (rule main_quiet_trans)
qed

lemma client_proceed_quiet:
  "client_proceed (epoll_traits K) (main_app K pr) t s = (r, s') \<Longrightarrow> main_quiet K s s'"
  unfolding client_proceed_def by (erule mq.proceed_keeps) (rule main_quiet_refl)

subsection \<open>Rounds of the main loop\<close>

lemma client_round_quiet:
  assumes "client_round K (epoll_traits K) (main_app K pr) pr line s = (r, s')"
  shows "main_quiet K s s'"
proof -
  obtain x cl w1 where p: "client_proceed (epoll_traits K) (main_app K pr) 10 s = (x, (cl, w1))"
    using prod_cases3 by blast
  note q = client_proceed_quiet [OF p]
  have "main_quiet K (cl, w1) (cl, w2)" if "client_send K pr cl buf n w1 = (sent, w2)" for buf n sent w2
    using client_send_quiet [OF that] by (simp add: main_quiet_def same_endpoint_def)
  with assms p q show ?thesis
    by (auto simp: client_round_def split: sum.splits option.splits prod.splits intro: main_quiet_trans)
qed

lemma client_rounds_keep:
  assumes "\<And>line s x s1. client_round K PT A pr line s = (x, s1) \<Longrightarrow> P s \<Longrightarrow> P s1"
  shows "client_rounds K PT A pr main_loop rounds s = (out, s') \<Longrightarrow> P s \<Longrightarrow> P s'"
proof (induction rounds arbitrary: main_loop s)
  case (Cons round rounds)
  obtain line sigs where l: "round = (line, sigs)" by (rule prod.exhaust)
  obtain x s1 where r: "client_round K PT A pr line s = (x, s1)" by (rule prod.exhaust)
  with assms Cons.prems(2) have "P s1" by blast
  with Cons l r show ?case by (auto split: if_splits sum.splits option.splits)
qed simp

lemma client_rounds_quiet:
  "client_rounds K (epoll_traits K) (main_app K pr) pr main_loop rounds s = (out, s') \<Longrightarrow> main_quiet K s s'"
  by (rule client_rounds_keep [where P = "main_quiet K s"])
    (auto intro: main_quiet_refl main_quiet_trans client_round_quiet)

lemma client_round_inv:
  assumes "client_round K PT A pr line s = (r, s')" and "posix_fds K live" and "poll_neutral K PT"
    and "app_follows live pr A" and "client_inv live pr s"
  shows "client_inv live pr s'"
proof -
  obtain x cl w1 where p: "client_proceed PT A 10 s = (x, (cl, w1))" using prod_cases3 by blast
  have "client_inv live pr (cl, w1)" using client_proceed_inv [OF p assms(2-5)] .
  with assms(1) p client_send_inv [OF _ assms(2)] show ?thesis
    by (fastforce simp: client_round_def split: sum.splits option.splits prod.splits)
qed

lemma client_rounds_inv:
  assumes "posix_fds K live" and "poll_neutral K PT" and "app_follows live pr A"
  shows "client_rounds K PT A pr main_loop rounds s = (out, s') \<Longrightarrow> client_inv live pr s \<Longrightarrow> client_inv live pr s'"
  using client_round_inv [OF _ assms] by (rule client_rounds_keep)

text \<open>
  The error message appears exactly if the send failed for another reason than \<^verbatim>\<open>EAGAIN\<close>; a
  client that is not connected reports nothing, since it counts as finished.
\<close>

theorem unsent_line_is_reported:
  assumes "client_proceed PT A 10 s = (Inr b, (cl, w1))"
    and "client_send K pr cl (of_text line) (of_nat (length line)) w1 = (sent, w2)"
  shows "client_round K PT A pr (Some line) s =
    (Inr (if sent = None \<and> (\<exists>x. en_state cl = StActive x) \<and> w_errno w2 \<noteq> EAGAIN then Some line else None), (cl, w2))"
  using assms
  by (auto simp: client_round_def client_finished_send_def client_finished_recv_def
      client_again_or_would_block_def again_def eagain_def active_would_block_def would_block_def
      split: sock_state.splits)

definition broken_os :: "nat os" where
  "broken_os k c = (case c of SysSend fd buf n fl \<Rightarrow> (failure 104, k) | _ \<Rightarrow> (answer 0, k))"

theorem unsent_line_is_reported_witness:
  "fst (client_round broken_os (epoll_traits broken_os) silent_app tcp (Some ''hi'') (connected_client, init_world 0))
   = Inr (Some ''hi'')"
proof -
  obtain x cl w1 where p: "client_proceed (epoll_traits broken_os) silent_app 10 (connected_client, init_world 0)
      = (x, (cl, w1))" using prod_cases3 by blast
  have x: "x = Inr False" "cl = connected_client"
    using p by (auto simp: client_proceed_def observer_proceed_def epoll_proceed_def broken_os_def do_sys_def
        handle_unhandled_def add_exception_def Let_def split: option.splits)
  obtain sent w2 where s: "client_send broken_os tcp cl (of_text ''hi'') (of_nat (length ''hi'')) w1 = (sent, w2)"
    by fastforce
  have "sent = None" "w_errno w2 = 104" "\<exists>a. en_state cl = StActive a"
    using s x(2) by (auto simp: client_send_def connected_client_def send_conn_def impl_send_def do_sys_def
        broken_os_def socket_impl_ctor_def)
  with unsent_line_is_reported [OF p [unfolded x(1)] s] show ?thesis by simp
qed

subsection \<open>\<^verbatim>\<open>init\<close>\<close>

lemma client_init_cases:
  assumes "client_init K N PT pr prt lp cl w = (b, cl', w')"
  obtains b1 cl1 w1 where
    "(case lp of Some l \<Rightarrow> client_start_at K N PT pr ''127.0.0.1'' (word_of_int l) cl w
      | None \<Rightarrow> client_start K PT pr cl w) = (b1, cl1, w1)"
    "if b1 then client_connect K N pr ''127.0.0.1'' (word_of_int prt) (Some 0) (Some 1) (Some 2) cl1 w1 = (b, cl', w')
     else \<not> b \<and> cl' = cl1 \<and> w' = w1"
proof -
  obtain b1 cl1 w1 where s: "(case lp of Some l \<Rightarrow> client_start_at K N PT pr ''127.0.0.1'' (word_of_int l) cl w
      | None \<Rightarrow> client_start K PT pr cl w) = (b1, cl1, w1)" using prod_cases3 by blast
  with assms show ?thesis by (intro that [OF s]) (simp add: client_init_def split: if_splits)
qed

lemma client_init_inv:
  assumes "client_init K N PT pr prt lp cl w = (b, cl', w')" and "posix_fds K live" and "poll_neutral K PT"
    and "client_inv live pr (cl, w)"
  shows "client_inv live pr (cl', w')"
  using assms(1)
proof (rule client_init_cases)
  fix b1 cl1 w1
  assume s: "(case lp of Some l \<Rightarrow> client_start_at K N PT pr ''127.0.0.1'' (word_of_int l) cl w
      | None \<Rightarrow> client_start K PT pr cl w) = (b1, cl1, w1)"
    and c: "if b1 then client_connect K N pr ''127.0.0.1'' (word_of_int prt) (Some 0) (Some 1) (Some 2) cl1 w1 = (b, cl', w')
     else \<not> b \<and> cl' = cl1 \<and> w' = w1"
  have "client_inv live pr (cl1, w1)"
    using s client_start_inv [OF _ assms(2-4)] client_start_at_inv [OF _ assms(2-4)]
    by (cases lp) auto
  with c assms(2) show ?thesis by (auto split: if_splits intro: client_connect_inv)
qed

lemma client_ok_init:
  assumes "client_init K N (epoll_traits K) pr prt lp cl w = (b, cl', w')" and "client_ok pr cl"
    and "en_state cl = StIdle None" and "posix_fds K live"
  shows "client_ok pr cl' \<and> en_poll cl' = en_poll cl \<and> accounts live w {} w' (state_fds (en_state cl'))"
  using assms(1)
proof (rule client_init_cases)
  fix b1 cl1 w1
  assume s: "(case lp of Some l \<Rightarrow> client_start_at K N (epoll_traits K) pr ''127.0.0.1'' (word_of_int l) cl w
      | None \<Rightarrow> client_start K (epoll_traits K) pr cl w) = (b1, cl1, w1)"
    and c: "if b1 then client_connect K N pr ''127.0.0.1'' (word_of_int prt) (Some 0) (Some 1) (Some 2) cl1 w1 = (b, cl', w')
     else \<not> b \<and> cl' = cl1 \<and> w' = w1"
  have one: "client_ok pr cl1 \<and> en_poll cl1 = en_poll cl \<and> accounts live w {} w1 (state_fds (en_state cl1))"
  proof (cases lp)
    case None
    with s have st: "client_start K (epoll_traits K) pr cl w = (b1, cl1, w1)" by simp
    have "accounts live w {} w1 (state_fds (en_state cl1))"
      using client_start_accounts [OF st assms(4) epoll_ok assms(3)] by (simp only: assms(3) state_fds.simps)
    then show ?thesis
      using client_ok_start [OF st assms(2)] client_start_sound [OF st epoll_ok] by blast
  next
    case (Some l)
    with s have st: "client_start_at K N (epoll_traits K) pr ''127.0.0.1'' (word_of_int l) cl w = (b1, cl1, w1)" by simp
    have "accounts live w {} w1 (state_fds (en_state cl1))"
      using client_start_at_accounts [OF st assms(4) epoll_ok] by (simp only: assms(3) state_fds.simps)
    then show ?thesis
      using client_ok_start_at [OF st assms(2)] client_start_at_sound [OF st epoll_ok] by blast
  qed
  show ?thesis
  proof (cases b1)
    case True
    with c have cn: "client_connect K N pr ''127.0.0.1'' (word_of_int prt) (Some 0) (Some 1) (Some 2) cl1 w1 = (b, cl', w')"
      by simp
    note cs = client_connect_cases [OF cn one [THEN conjunct1]]
    have poll: "en_poll cl' = en_poll cl1" using cs by (auto simp: set_fields_def)
    note ok = client_ok_connect [OF cn one [THEN conjunct1]]
    have "via K quiet w1 w'" using cs by simp
    then have "accounts live w1 (state_fds (en_state cl1)) w' (state_fds (en_state cl'))"
      unfolding ok [THEN conjunct2, THEN conjunct1] by (rule accounts_quiet [OF assms(4)])
    with one have "accounts live w {} w' (state_fds (en_state cl'))" by (blast intro: accounts_trans)
    then show ?thesis using one ok poll by simp
  next
    case False
    with c one show ?thesis by simp
  qed
qed

lemma new_client [simp]:
  "en_state (client_ctor ep af u) = StIdle None" "en_poll (client_ctor ep af u) = ep" "en_af (client_ctor ep af u) = af"
  by (simp_all add: client_ctor_def endpoint_ctor_def endpoint.defs)

theorem example_client_connects:
  assumes "\<not> is_connectionless pr"
    and "client_init K N (epoll_traits K) pr prt None (client_ctor ep ipv4 None) w = (True, cl, w')"
  shows "\<exists>fd sa r1 e1 r2 e2 ty pn e3.
      w_trace w' = Sys (SysConnect fd sa) r1 e1
        # Sys (SysEpollCtl (ep_fd ep) EPOLL_CTL_ADD fd (Some (flags_from_op op_READ_WRITE, fd))) r2 e2
        # Sys (SysSocket ipv4 ty pn) fd e3 # w_trace w
    \<and> (r1 = 0 \<or> e1 = EINPROGRESS) \<and> talks_on cl fd
    \<and> cl_remote cl = from_string_and_port N (w_junk w) ''127.0.0.1'' (word_of_int prt)
    \<and> cl_on_connect cl = Some 0 \<and> cl_on_read_ready cl = Some 1 \<and> cl_on_disconnect cl = Some 2"
  using assms(2)
proof (rule client_init_cases)
  fix b1 cl1 w1
  assume "(case None of Some l \<Rightarrow> client_start_at K N (epoll_traits K) pr ''127.0.0.1'' (word_of_int l) (client_ctor ep ipv4 None) w
      | None \<Rightarrow> client_start K (epoll_traits K) pr (client_ctor ep ipv4 None) w) = (b1, cl1, w1)"
    and c: "if b1 then client_connect K N pr ''127.0.0.1'' (word_of_int prt) (Some 0) (Some 1) (Some 2) cl1 w1 = (True, cl, w')
     else \<not> True \<and> cl = cl1 \<and> w' = w1"
  then have s: "client_start K (epoll_traits K) pr (client_ctor ep ipv4 None) w = (True, cl1, w1)"
    and cn: "client_connect K N pr ''127.0.0.1'' (word_of_int prt) (Some 0) (Some 1) (Some 2) cl1 w1 = (True, cl, w')"
    by (auto split: if_splits)
  from s show ?thesis
  proof (cases rule: client_start_cases)
    case (started t v ok u st)
    obtain r ty pn where d: "do_sys K (SysSocket ipv4 ty pn) w = (r, v)" "rp_ret r \<noteq> -1"
      "t = \<lparr>s_impl = socket_impl_ctor (rp_ret r) ipv4\<rparr>"
      using socket_create_trace [OF started(3)] by (auto split: if_splits)
    let ?fd = "rp_ret r"
    have st: "st = StIdle (Some t)" "w1 = u" using started(5) by simp_all
    have cl1: "en_state cl1 = StIdle (Some t)" "get_fd cl1 = ?fd" "state_fds (en_state cl1) = {?fd}"
      using started(6) st d(3) by (simp_all add: get_fd_def impl_fds_def socket_impl_ctor_def impl_fd_def)
    obtain r2 where e: "do_sys K (SysEpollCtl (ep_fd ep) EPOLL_CTL_ADD ?fd (Some (flags_from_op op_READ_WRITE, ?fd))) v = (r2, u)"
      using started(4) d(3)
      by (auto simp: add_socket_def epoll_ctl_def impl_fd_def socket_impl_ctor_def Let_def split: prod.splits)
    have ok: "client_ok pr cl1" using client_ok_start [OF s client_ok_ctor] .
    note op = connect_opened [OF ok assms(1) _ cn]
    have junk: "w_junk w1 = w_junk w" using d(1) e st(2) by (simp add: do_sys_frame)
    obtain x where x: "en_state cl = StActive x" using op cl1(1) by auto
    have "si_fd (a_impl x) = Some ?fd" using op cl1 x by (auto simp: impl_fds_def)
    moreover have "cl_remote cl \<noteq> None"
      using client_ok_connect [OF cn ok] x assms(1) by (simp add: client_ok_def)
    ultimately have "talks_on cl ?fd" using x by (simp add: talks_on_def)
    moreover obtain sa r1 e1 where "w_trace w' = Sys (SysConnect ?fd sa) r1 e1 # w_trace w1" "r1 = 0 \<or> e1 = EINPROGRESS"
      using op cl1 by auto
    ultimately show ?thesis
      using op cl1 junk do_sys_trace [OF d(1)] do_sys_trace [OF e] st(2) by auto
  qed simp_all
qed

text \<open>The witness uses the C library that knows the loopback address.\<close>

lemma loopback_init:
  assumes "\<not> w_connect_static w False" and "en_state cl0 = StIdle None" and "en_af cl0 = ipv4"
  shows "\<exists>cl w'. client_init counting_os loopback_inet (epoll_traits counting_os) tcp 7777 None cl0 w = (True, cl, w')"
proof -
  obtain b1 cl1 w1 where s: "client_start counting_os (epoll_traits counting_os) tcp cl0 w = (b1, cl1, w1)"
    using prod_cases3 by blast
  have n: "- 1 \<noteq> foldr max (k :: int list) 2 + 1" for k using foldr_max_ge [of 2 k 2] by auto
  have b1: "b1" "w_connect_static w1 = w_connect_static w" "\<exists>fd. en_state cl1 = StIdle (Some \<lparr>s_impl = socket_impl_ctor fd ipv4\<rparr>)"
    using s assms(2,3) n [symmetric]
    by (auto simp: client_start_def idle_def socket_create_def impl_open_def do_sys_def counting_os_def tcp_def
        answer_def Let_def impl_default_def move_impl_def socket_impl_ctor_def add_socket_def epoll_ctl_def
        socket_dtor_def destroy_impl_def impl_empty_def split: prod.splits)
  obtain b cl w' where c: "client_connect counting_os loopback_inet tcp ''127.0.0.1'' 7777 (Some 0) (Some 1) (Some 2) cl1 w1
      = (b, cl, w')" using prod_cases3 by blast
  obtain a where a: "from_string_and_port loopback_inet (w_junk w1) ''127.0.0.1'' 7777 = Some a" "is_ipv4 (ap_addr a)"
    using loopback_parse by blast
  have "b"
    using c b1(2,3) a assms(1)
    by (auto simp: client_connect_def connect_closure_def socket_connect_def impl_connect_def connect_addr_def
        socket_impl_ctor_def do_sys_def counting_os_def answer_def Let_def split: prod.splits)
  with s b1(1) c show ?thesis by (simp add: client_init_def)
qed

theorem example_client_connects_witness:
  "\<exists>cl w'. client_init counting_os loopback_inet (epoll_traits counting_os) tcp 7777 None
      (client_ctor \<lparr>ep_fd = 3, ep_max_events = 10\<rparr> ipv4 None) (init_world [3]) = (True, cl, w')
    \<and> (\<exists>fd. talks_on cl fd) \<and> cl_on_read_ready cl = Some 1"
proof -
  obtain cl w' where i: "client_init counting_os loopback_inet (epoll_traits counting_os) tcp 7777 None
      (client_ctor \<lparr>ep_fd = 3, ep_max_events = 10\<rparr> ipv4 None) (init_world [3]) = (True, cl, w')"
    using loopback_init [of "init_world [3]" "client_ctor \<lparr>ep_fd = 3, ep_max_events = 10\<rparr> ipv4 None"] by auto
  with example_client_connects [OF _ i] show ?thesis by auto
qed

subsection \<open>\<^verbatim>\<open>main\<close>\<close>

text \<open>
  The ways through \<open>client_main\<close>.
\<close>

lemma client_main_cases:
  assumes "client_main K N pr prt lp lines w = (x, w')"
  obtains (no_epoll) e where "epoll_ctor K 5 10 w = (Inl e, w')" "x = TerminatedBy [e]"
  | (no_init) ep w1 cl where "epoll_ctor K 5 10 w = (Inr ep, w1)" "x = TerminatedBy []"
      "client_init K N (epoll_traits K) pr prt (if is_connectionless pr then lp else None) (client_ctor ep ipv4 None) w1
        = (False, cl, w')"
  | (ran) ep w1 cl w2 cl1 w3 where "epoll_ctor K 5 10 w = (Inr ep, w1)"
      "client_init K N (epoll_traits K) pr prt (if is_connectionless pr then lp else None) (client_ctor ep ipv4 None) w1
        = (True, cl, w2)"
      "client_rounds K (epoll_traits K) (main_app K pr) pr 1 lines (cl, w2) = (x, (cl1, w3))"
      "w' = (if x = Returned then client_dtor K (epoll_dtor K) cl1 w3 else w3)"
proof -
  obtain e w1 where e: "epoll_ctor K 5 10 w = (e, w1)" by fastforce
  show ?thesis
  proof (cases e)
    case (Inl a)
    with assms e show ?thesis by (intro no_epoll [of a]) (simp_all add: client_main_def)
  next
    case (Inr ep)
    obtain b cl w2 where i: "client_init K N (epoll_traits K) pr prt (if is_connectionless pr then lp else None)
        (client_ctor ep ipv4 None) w1 = (b, cl, w2)" using prod_cases3 by blast
    obtain out cl1 w3 where r: "client_rounds K (epoll_traits K) (main_app K pr) pr 1 lines (cl, w2) = (out, (cl1, w3))"
      using prod_cases3 by blast
    show ?thesis
    proof (cases b)
      case False
      with assms e Inr i show ?thesis by (intro no_init [of ep w1 cl]) (simp_all add: client_main_def)
    next
      case True
      with assms e Inr i r show ?thesis
        by (intro ran [of ep w1 cl w2 cl1 w3]) (simp_all add: client_main_def split: if_splits)
    qed
  qed
qed

lemma udp_main_needs_a_local_port:
  assumes "is_connectionless pr"
  shows "\<exists>exs. fst (client_main K N pr prt None lines w) = TerminatedBy exs"
proof -
  obtain x w' where m: "client_main K N pr prt None lines w = (x, w')" by (rule prod.exhaust)
  from m have "\<exists>exs. x = TerminatedBy exs"
  proof (cases rule: client_main_cases)
    case (ran ep w1 cl w2 cl1 w3)
    from ran(2) obtain cl0 w0 where s: "client_start K (epoll_traits K) pr (client_ctor ep ipv4 None) w1 = (True, cl0, w0)"
      and c: "client_connect K N pr ''127.0.0.1'' (word_of_int prt) (Some 0) (Some 1) (Some 2) cl0 w0 = (True, cl, w2)"
      by (rule client_init_cases) (auto split: if_splits)
    obtain t where "en_state cl0 = StIdle (Some t)"
      using s by (cases rule: client_start_cases) (auto dest: assign_idle)
    with c assms show ?thesis by (auto simp: client_connect_def Let_def)
  qed simp_all
  with m show ?thesis by simp
qed

lemma epoll_ctor_created:
  assumes "epoll_ctor K q m w = (res, w1)"
  obtains r where "do_sys K (SysEpollCreate q) w = (r, w1)"
    "res = (if rp_ret r = -1 then Inl (RuntimeError (w_errno w1)) else Inr \<lparr>ep_fd = rp_ret r, ep_max_events = m\<rparr>)"
  using assms by (auto simp: epoll_ctor_def split: prod.splits)

lemma main_before_return:
  assumes "posix_fds K live" and "ledger_ok live w" and "well_ordered (w_trace w)"
    and "epoll_ctor K 5 10 w = (Inr ep, w1)"
    and "client_init K N (epoll_traits K) pr prt lp (client_ctor ep ipv4 None) w1 = (b, cl, w2)"
    and "client_rounds K (epoll_traits K) (main_app K pr) pr 1 lines (cl, w2) = (out, (cl1, w3))"
  shows "client_inv live pr (cl, w2)" and "client_inv live pr (cl1, w3)" and "en_poll cl1 = ep" and "ep_fd ep \<noteq> -1"
    and "ep_fd ep \<notin> open_fds (w_trace w) \<union> state_fds (en_state cl1)"
    and "open_fds (w_trace w3) = insert (ep_fd ep) (open_fds (w_trace w)) \<union> state_fds (en_state cl1)"
    and "open_fds (w_trace w) \<inter> state_fds (en_state cl1) = {}"
proof -
  obtain r where d: "do_sys K (SysEpollCreate 5) w = (r, w1)" and r: "rp_ret r \<noteq> -1" "ep_fd ep = rp_ret r"
    using assms(4) by (rule epoll_ctor_created) (auto split: if_splits)
  have led: "ledger_ok live w1" using ledger_ok_do_sys [OF assms(1,2) d] .
  have "well_ordered (w_trace w1)" using do_sys_trace [OF d] assms(3) by simp
  with led have "client_inv live pr (client_ctor ep ipv4 None, w1)" by (rule client_inv_new)
  with client_init_inv [OF assms(5,1) epoll_neutral] show inv: "client_inv live pr (cl, w2)" .
  show "client_inv live pr (cl1, w3)"
    using client_rounds_inv [OF assms(1) epoll_neutral main_app_follows [OF assms(1)] assms(6) inv] .
  have ini: "client_ok pr cl \<and> en_poll cl = ep \<and> accounts live w1 {} w2 (state_fds (en_state cl))"
    using client_ok_init [OF assms(5) client_ok_ctor _ assms(1)] by simp
  have q: "same_endpoint cl cl1" "via K quiet w2 w3"
    using client_rounds_quiet [OF assms(6)] by (simp_all add: main_quiet_def)
  then have "accounts live w2 (state_fds (en_state cl)) w3 (state_fds (en_state cl1))"
    by (simp add: same_endpoint_def accounts_quiet [OF assms(1)])
  with ini have "accounts live w1 {} w3 (state_fds (en_state cl1))" by (blast intro: accounts_trans)
  then have acc: "state_fds (en_state cl1) \<subseteq> open_fds (w_trace w3)"
    "open_fds (w_trace w3) - state_fds (en_state cl1) = open_fds (w_trace w1)"
    using led by (auto simp: accounts_def)
  have w1: "open_fds (w_trace w1) = insert (ep_fd ep) (open_fds (w_trace w))"
    using open_fds_do_sys [OF d] r by simp
  have fresh: "ep_fd ep \<noteq> -1" "ep_fd ep \<notin> open_fds (w_trace w)" using do_sys_fresh [OF assms(1,2) d] r by auto
  show "en_poll cl1 = ep" using ini q by (simp add: same_endpoint_def)
  show "ep_fd ep \<noteq> -1" by (rule fresh(1))
  show "ep_fd ep \<notin> open_fds (w_trace w) \<union> state_fds (en_state cl1)" using fresh(2) acc w1 by blast
  show "open_fds (w_trace w3) = insert (ep_fd ep) (open_fds (w_trace w)) \<union> state_fds (en_state cl1)"
    using acc w1 by blast
  show "open_fds (w_trace w) \<inter> state_fds (en_state cl1) = {}" using acc w1 by blast
qed

lemma client_main_follows_protocol:
  assumes "posix_fds K live" and "ledger_ok live w" and "well_ordered (w_trace w)"
    and "client_main K N pr prt lp lines w = (x, w')"
  shows "well_ordered (w_trace w')
    \<or> (\<exists>fd r e t. x = Returned \<and> w_trace w' = Sys (SysClose fd) r e # t \<and> well_ordered t \<and> fd \<in> open_fds t)"
  using assms(4)
proof (cases rule: client_main_cases)
  case (no_epoll e)
  from no_epoll(1) obtain r where "do_sys K (SysEpollCreate 5) w = (r, w')" by (rule epoll_ctor_created)
  with assms(3) do_sys_trace show ?thesis by fastforce
next
  case (no_init ep w1 cl)
  then show ?thesis
    using main_before_return(1) [OF assms(1-3) no_init(1) no_init(3), of "[]"]
    by (simp add: client_inv_def sys_inv_def)
next
  case (ran ep w1 cl w2 cl1 w3)
  note before = main_before_return [OF assms(1-3) ran(1-3)]
  have inv: "sys_inv live pr (state_pool (en_state cl1)) w3" using before(2) by (simp add: client_inv_def)
  show ?thesis
  proof (cases "x = Returned")
    case False
    with ran(4) inv show ?thesis by (simp add: sys_inv_def)
  next
    case True
    let ?u = "state_dtor K (en_state cl1) w3"
    have "sys_inv live pr ((state_pool (en_state cl1))(0 := None)) ?u"
      using inv assms(1) by (rule sys_inv_dtor) simp
    then have u: "well_ordered (w_trace ?u)" by (simp add: sys_inv_def)
    have "ep_fd ep \<in> open_fds (w_trace ?u)" using before(5,6) by (simp add: open_fds_state_dtor)
    moreover obtain r v where v: "do_sys K (SysClose (ep_fd ep)) ?u = (r, v)" by fastforce
    moreover have "x = Returned" "w' = v" using ran(4) True before(3,4) v by (simp_all add: client_dtor_def epoll_dtor_def)
    ultimately show ?thesis using u do_sys_trace [OF v] by blast
  qed
qed

lemma client_main_releases_descriptors:
  assumes "posix_fds K live" and "ledger_ok live w" and "well_ordered (w_trace w)"
    and "client_main K N pr prt lp lines w = (Returned, w')"
  shows "open_fds (w_trace w') = open_fds (w_trace w)"
  using assms(4)
proof (cases rule: client_main_cases)
  case (ran ep w1 cl w2 cl1 w3)
  note before = main_before_return [OF assms(1-3) ran(1-3)]
  have "w' = client_dtor K (epoll_dtor K) cl1 w3" using ran(4) by simp
  with before(3-7) show ?thesis by (auto simp: client_dtor_def open_fds_epoll_dtor open_fds_state_dtor)
qed simp_all

lemma quiet_round:
  "\<exists>s1. client_round counting_os (epoll_traits counting_os) (main_app K pr) pr None s = (Inr None, s1)"
  by (cases s) (auto simp: client_round_def client_proceed_def observer_proceed_def epoll_traits_def epoll_proceed_def
      do_sys_def counting_os_def answer_def handle_unhandled_def add_exception_def main_app_def client_unhandled_def
      Let_def split: option.splits)

lemma loopback_main:
  obtains w' where "client_main counting_os loopback_inet tcp 7777 None [(None, 1)] (init_world []) = (Returned, w')"
proof -
  obtain w1 where e: "epoll_ctor counting_os 5 10 (init_world []) = (Inr \<lparr>ep_fd = 3, ep_max_events = 10\<rparr>, w1)"
    "\<not> w_connect_static w1 False"
    by (simp add: epoll_ctor_def do_sys_def counting_os_def answer_def Let_def)
  obtain cl w2 where "client_init counting_os loopback_inet (epoll_traits counting_os) tcp 7777 None
      (client_ctor \<lparr>ep_fd = 3, ep_max_events = 10\<rparr> ipv4 None) w1 = (True, cl, w2)"
    using loopback_init [OF e(2), of "client_ctor \<lparr>ep_fd = 3, ep_max_events = 10\<rparr> ipv4 None"] by auto
  moreover obtain s1 where "client_round counting_os (epoll_traits counting_os) (main_app counting_os tcp) tcp None (cl, w2)
      = (Inr None, s1)" using quiet_round by blast
  ultimately show ?thesis using e(1) that by (cases s1) (simp add: client_main_def client_sig_def)
qed

subsection \<open>The program\<close>

lemma client_program_cases:
  assumes "client_program K N argv rounds input w = (x, w')"
  obtains (bad_args) exs where "client_args argv = Inl exs" "x = TerminatedBy exs" "w' = w"
  | (runs) pr prt lp lines where "client_args argv = Inr (pr, prt, lp)" "client_main K N pr prt lp lines w = (x, w')"
      "lines = zip (fst (read_lines (map fst rounds) async_stdin_ctor input)) (map snd rounds)"
  using assms by (auto simp: client_program_def split: sum.splits)

text \<open>
  C16: Every run of the example client, whatever its arguments, its input and the signals it
  gets and however it ends, makes system calls only in an order the socket protocol allows;
  after a regular return the one further call is the close of the epoll, which is still open
  then.
\<close>

theorem example_client_follows_protocol:
  assumes "posix_fds K live" and "ledger_ok live w" and "well_ordered (w_trace w)"
    and "client_program K N argv rounds input w = (x, w')"
  shows "well_ordered (w_trace w')
    \<or> (\<exists>fd r e t. x = Returned \<and> w_trace w' = Sys (SysClose fd) r e # t \<and> well_ordered t \<and> fd \<in> open_fds t)"
  using assms(4)
proof (cases rule: client_program_cases)
  case bad_args
  with assms(3) show ?thesis by simp
next
  case (runs pr prt lp lines)
  show ?thesis using client_main_follows_protocol [OF assms(1-3) runs(2)] .
qed

text \<open>
  C14: When the example client returns, whatever its arguments and its input, the process has
  exactly the descriptors open that it had before.
\<close>

theorem example_client_releases_descriptors:
  assumes "posix_fds K live" and "ledger_ok live w" and "well_ordered (w_trace w)"
    and "client_program K N argv rounds input w = (Returned, w')"
  shows "open_fds (w_trace w') = open_fds (w_trace w)"
  using assms(4)
proof (cases rule: client_program_cases)
  case (runs pr prt lp lines)
  show ?thesis using client_main_releases_descriptors [OF assms(1-3) runs(2)] .
qed simp_all

text \<open>The witness: a TCP client that is stopped in its first round.\<close>

definition no_input :: cin where
  "no_input = \<lparr>cin_buf = [], cin_reads = [], cin_eof = False\<rparr>"

lemma sample_client_program:
  obtains w' where "client_program counting_os loopback_inet [''client'', ''tcp'', ''7777''] [(\<lambda>_. 0, 1)] no_input (init_world [])
    = (Returned, w')"
proof -
  obtain w' where "client_main counting_os loopback_inet tcp 7777 None [(None, 1)] (init_world []) = (Returned, w')"
    by (rule loopback_main)
  with that show ?thesis by (simp add: client_program_def client_args_def stoi_port read_line_def)
qed

theorem example_client_follows_protocol_witness:
  "\<exists>w'. client_program counting_os loopback_inet [''client'', ''tcp'', ''7777''] [(\<lambda>_. 0, 1)] no_input (init_world [])
      = (Returned, w')
    \<and> (well_ordered (w_trace w') \<or> (\<exists>fd r e t. w_trace w' = Sys (SysClose fd) r e # t \<and> well_ordered t))"
proof -
  obtain w' where m: "client_program counting_os loopback_inet [''client'', ''tcp'', ''7777''] [(\<lambda>_. 0, 1)] no_input
      (init_world []) = (Returned, w')" by (rule sample_client_program)
  from example_client_follows_protocol [OF counting_os_posix init_ledger _ m] m show ?thesis by auto
qed

theorem example_client_releases_descriptors_witness:
  "\<exists>w'. client_program counting_os loopback_inet [''client'', ''tcp'', ''7777''] [(\<lambda>_. 0, 1)] no_input (init_world [])
      = (Returned, w') \<and> open_fds (w_trace w') = {}"
proof -
  obtain w' where m: "client_program counting_os loopback_inet [''client'', ''tcp'', ''7777''] [(\<lambda>_. 0, 1)] no_input
      (init_world []) = (Returned, w')" by (rule sample_client_program)
  from example_client_releases_descriptors [OF counting_os_posix init_ledger _ m] m show ?thesis by auto
qed

text \<open>Anything but \<^verbatim>\<open>tcp\<close> makes a UDP client, and one without a local port never gets past \<^verbatim>\<open>init\<close>.\<close>

text \<open>
  C38: The example client, called with a protocol other than tcp and without a local port,
  always terminates, whatever the system and the C library do.
\<close>

theorem udp_client_needs_a_local_port:
  assumes "length argv = 3" and "argv ! 1 \<noteq> ''tcp''"
  shows "\<exists>exs. fst (client_program K N argv rounds input w) = TerminatedBy exs"
  using assms udp_main_needs_a_local_port [of udp]
  by (auto simp: client_program_def client_args_def split: sum.splits)

theorem udp_client_needs_a_local_port_witness:
  "\<exists>exs. fst (client_program counting_os loopback_inet [''client'', ''udp'', ''7777''] [(\<lambda>_. 1, 1)] no_input (init_world []))
     = TerminatedBy exs"
  by (rule udp_client_needs_a_local_port) simp_all

end
