(* ===== verification/Client_Program_Props.thy ===== *)
theory Client_Program_Props
  imports Client_Main_Props
begin

section \<open>How the example client runs and ends\<close>

text \<open>
  Signals and the main loop of the example client, and what the loop does once its standard input
  has ended.
\<close>

subsection \<open>Signals\<close>

lemma signals_client:
  "signals client_sig n 1 = (if n = 0 then Some 1 else if n = 1 then Some 0 else None)"
proof (cases n)
  case (Suc m)
  then show ?thesis by (cases m) (simp_all add: client_sig_def)
qed simp

lemma client_rounds_stopped [simp]: "client_rounds K PT A pr 0 rounds s = (Returned, s)"
proof (cases rounds)
  case (Cons round rest)
  then show ?thesis by (cases round) simp
qed simp

definition silent :: "(string option \<times> nat) list \<Rightarrow> bool" where
  "silent rounds \<longleftrightarrow> (\<forall>r \<in> set rounds. snd r = 0)"

lemma silent_simps [simp]: "silent []" "silent ((line, n) # rounds) \<longleftrightarrow> n = 0 \<and> silent rounds"
  by (simp_all add: silent_def)

text \<open>Rounds without signals go on to the next ones, unless an exception leaves the loop.\<close>

lemma silent_rounds_append:
  "silent pre \<Longrightarrow> client_rounds K PT A pr 1 (pre @ rest) s =
     (case client_rounds K PT A pr 1 pre s of
        (Running, s') \<Rightarrow> client_rounds K PT A pr 1 rest s' | (out, s') \<Rightarrow> (out, s'))"
proof (induction pre arbitrary: s)
  case (Cons round pre)
  then obtain line where rd: "round = (line, 0)" "silent pre" by (cases round) simp
  obtain x s1 where r: "client_round K PT A pr line s = (x, s1)" by (rule prod.exhaust)
  show ?case using Cons.IH [OF rd(2)] rd(1) r by (cases x) simp_all
qed simp

lemma silent_rounds_stay:
  "silent rounds \<Longrightarrow> client_rounds K PT A pr 1 rounds s = (out, s') \<Longrightarrow> out = Running \<or> (\<exists>exs. out = TerminatedBy exs)"
proof (induction rounds arbitrary: s)
  case (Cons round rounds)
  then obtain line where rd: "round = (line, 0)" "silent rounds" by (cases round) simp
  obtain x s1 where r: "client_round K PT A pr line s = (x, s1)" by (rule prod.exhaust)
  show ?case using Cons.IH [OF rd(2)] Cons.prems(2) rd(1) r by (cases x) auto
qed simp

text \<open>
  C18: The first signals the example client gets end its loop after the round they arrive in:
  with one signal main returns in the state that round left, with more than one the process
  exits with 1, no later round runs, and without a signal the loop would still run or an
  exception has left it already.
\<close>

theorem first_signal_ends_the_loop:
  assumes "silent pre" and "0 < k" and "client_rounds K PT A pr 1 (pre @ [(line, 0)]) s = (out, s')"
  shows "client_rounds K PT A pr 1 (pre @ (line, k) # post) s =
      (if out = Running then if k = 1 then Returned else Exited 1 else out, s')
    \<and> (out = Running \<or> (\<exists>exs. out = TerminatedBy exs))"
proof -
  obtain out0 s0 where r0: "client_rounds K PT A pr 1 pre s = (out0, s0)" by (rule prod.exhaust)
  obtain x s1 where r1: "client_round K PT A pr line s0 = (x, s1)" by (rule prod.exhaust)
  have "silent (pre @ [(line, 0)])" using assms(1) by (simp add: silent_def)
  note stay = silent_rounds_stay [OF this assms(3)] silent_rounds_stay [OF assms(1) r0]
  have last: "client_rounds K PT A pr 1 [(line, 0)] s0 = (case x of Inl exs \<Rightarrow> (TerminatedBy exs, s1) | Inr _ \<Rightarrow> (Running, s1))"
    using r1 by (cases x) simp_all
  have first: "client_rounds K PT A pr 1 ((line, k) # post) s0 = (case x of Inl exs \<Rightarrow> (TerminatedBy exs, s1)
      | Inr _ \<Rightarrow> (if k = 1 then Returned else Exited 1, s1))"
    using r1 assms(2) by (cases x) (simp_all add: signals_client)
  show ?thesis
    using assms(3) stay unfolding silent_rounds_append [OF assms(1)] r0
    by (elim disjE exE) (auto simp: last first split: sum.splits simp del: client_rounds.simps)
qed

theorem first_signal_ends_the_loop_witness:
  "\<exists>s'. client_rounds counting_os (epoll_traits counting_os) (main_app counting_os tcp) tcp 1
     [(None, 0), (None, 1), (Some ''later'', 0)] (client_ctor \<lparr>ep_fd = 3, ep_max_events = 10\<rparr> ipv4 None, init_world [3])
     = (Returned, s')"
proof -
  let ?s = "(client_ctor \<lparr>ep_fd = 3, ep_max_events = 10\<rparr> ipv4 None, init_world [3])"
  let ?rounds = "client_rounds counting_os (epoll_traits counting_os) (main_app counting_os tcp) tcp 1"
  obtain s1 where s1: "client_round counting_os (epoll_traits counting_os) (main_app counting_os tcp) tcp None ?s = (Inr None, s1)"
    using quiet_round by blast
  obtain s2 where "client_round counting_os (epoll_traits counting_os) (main_app counting_os tcp) tcp None s1 = (Inr None, s2)"
    using quiet_round by blast
  with s1 have "?rounds ([(None, 0)] @ [(None, 0)]) ?s = (Running, s2)" by simp
  from first_signal_ends_the_loop [OF _ _ this, of 1 "[(Some ''later'', 0)]"] show ?thesis by simp
qed

subsection \<open>The end of the standard input\<close>

text \<open>
  At the end of its file the standard input is always readable, and \<^verbatim>\<open>getline\<close> then returns an empty
  text, which \<^verbatim>\<open>read_line\<close> does not tell from an empty line.
\<close>

text \<open>
  Once the standard input has ended, every round of a connected client sends a message of no bytes.
\<close>

theorem end_of_input_sends_empty_lines:
  assumes "cin_ok c" and "cin_lines c = []" and "poll (ai_fd ai) = 1"
    and "client_proceed PT A 10 s = (Inr b, (cl, w1))" and "talks_on cl fd" and "\<not> is_connectionless pr"
  shows "\<exists>c' out w2 r e. read_line poll ai c = (Some [], c') \<and> cin_ok c' \<and> cin_lines c' = []
    \<and> client_round K PT A pr (fst (read_line poll ai c)) s = (Inr out, (cl, w2))
    \<and> w_trace w2 = Sys (SysSend fd [] 0 0) r e # w_trace w1"
proof -
  obtain l c' where g: "getline c = (l, c')" by (rule prod.exhaust)
  have line: "read_line poll ai c = (Some [], c')" "cin_ok c'" "cin_lines c' = []"
    using getline_next [OF assms(1) g] g assms(2,3) by (simp_all add: read_line_def)
  obtain r w2 where d: "do_sys K (SysSend fd [] 0 0) w1 = (r, w2)" by fastforce
  with assms(4-6) have "\<exists>out. client_round K PT A pr (Some []) s = (Inr out, (cl, w2))"
    by (auto simp: client_round_def talks_on_def client_send_def send_conn_def impl_send_def of_text_def)
  with line do_sys_trace [OF d] show ?thesis by (simp add: fst_conv) blast
qed

definition talking_client :: "epoll_t client" where
  "talking_client = (client_ctor \<lparr>ep_fd = 3, ep_max_events = 10\<rparr> ipv4 None)
     \<lparr>en_state := StActive \<lparr>a_impl = socket_impl_ctor 4 ipv4, a_remote = Some (sample_addr 80), a_local = None,
       a_accepted = False\<rparr>, cl_remote := Some (sample_addr 80)\<rparr>"

theorem end_of_input_sends_empty_lines_witness:
  "\<exists>out w2 r e t. client_round counting_os (epoll_traits counting_os) (main_app counting_os tcp) tcp
       (fst (read_line (\<lambda>_. 1) async_stdin_ctor no_input)) (talking_client, init_world [4, 3])
     = (Inr out, (talking_client, w2)) \<and> w_trace w2 = Sys (SysSend 4 [] 0 0) r e # t"
proof -
  have p: "\<exists>b w1. client_proceed (epoll_traits counting_os) (main_app counting_os tcp) 10 (talking_client, init_world [4, 3])
      = (Inr b, (talking_client, w1))"
    by (intro exI [of _ False]) (simp add: client_proceed_def observer_proceed_def epoll_traits_def epoll_proceed_def do_sys_def counting_os_def
        answer_def handle_unhandled_def add_exception_def talking_client_def client_unhandled_def main_app_def Let_def
        split: option.splits)
  then obtain b w1 where p: "client_proceed (epoll_traits counting_os) (main_app counting_os tcp) 10
      (talking_client, init_world [4, 3]) = (Inr b, (talking_client, w1))" by blast
  have t: "talks_on talking_client 4" by (simp add: talks_on_def talking_client_def socket_impl_ctor_def)
  have "cin_ok no_input" "cin_lines no_input = []" by (simp_all add: no_input_def cin_ok_def cin_lines_def)
  from end_of_input_sends_empty_lines [OF this _ p t, of "\<lambda>_. 1" async_stdin_ctor tcp counting_os] show ?thesis
    by auto
qed

end
