(* ===== verification/Connections.thy ===== *)
theory Connections
  imports App
begin

section \<open>The example server's connections\<close>

text \<open>
  Models \<^verbatim>\<open>app/base_socket.h\<close> and the global vector \<^verbatim>\<open>active_sockets\<close> of
  \<^verbatim>\<open>app/server_main.cpp\<close>. A \<^verbatim>\<open>base_socket\<close> constructs the connection in a buffer of its own
  and keeps a \<^verbatim>\<open>unique_ptr\<close> to that buffer, so it points into itself. Its moves are the
  implicit ones: they take over the pointer and copy the bytes of the buffer.

  A place in memory is an allocation of the vector (they are numbered) and an index into it.
  \<open>object_at\<close> is the object at a place, as long as the place belongs to an element of the
  vector; what a pointer finds elsewhere is gone. Allocation, growth and the order of moves in
  \<^verbatim>\<open>erase\<close> and \<^verbatim>\<open>remove_if\<close> are those of the standard library; the growth factor, which
  the standard leaves open, is the parameter \<open>grow\<close>.
\<close>

subsection \<open>\<^verbatim>\<open>base_socket\<close>\<close>

datatype conn = Tcp accepted_sock | Udp accepted_ref

record base_socket =
  bs_ptr :: "(nat \<times> nat) option"
  bs_fd :: int
  bs_storage :: "conn option"

record connections =
  cn_buffer :: nat
  cn_capacity :: nat
  cn_elems :: "(base_socket \<times> byte list) list"

definition connections_ctor :: connections where
  "connections_ctor = \<lparr>cn_buffer = 0, cn_capacity = 0, cn_elems = []\<rparr>"

fun move_conn :: "conn \<Rightarrow> conn \<times> conn" where
  "move_conn (Tcp a) = (case accepted_move a of (x, rest) \<Rightarrow> (Tcp x, Tcp rest))"
| "move_conn (Udp r) = (case ref_move r of (x, rest) \<Rightarrow> (Udp x, Udp rest))"

text \<open>Both constructors: the object at \<open>addr\<close>, and what is left of the argument.\<close>

definition base_socket_ctor :: "nat \<times> nat \<Rightarrow> conn \<Rightarrow> int \<Rightarrow> base_socket \<times> conn" where
  "base_socket_ctor addr arg_sock arg_fd =
     (case move_conn arg_sock of
        (c, rest) \<Rightarrow> (\<lparr>bs_ptr = Some addr, bs_fd = arg_fd, bs_storage = Some c\<rparr>, rest))"

definition base_socket_move :: "base_socket \<Rightarrow> base_socket \<times> base_socket" where
  "base_socket_move other =
     (\<lparr>bs_ptr = bs_ptr other, bs_fd = bs_fd other, bs_storage = bs_storage other\<rparr>, other\<lparr>bs_ptr := None\<rparr>)"

definition object_at :: "connections \<Rightarrow> nat \<times> nat \<Rightarrow> conn option" where
  "object_at v addr =
     (if fst addr = cn_buffer v \<and> snd addr < length (cn_elems v)
      then bs_storage (fst (cn_elems v ! snd addr)) else None)"

fun destroy_conn :: "'k os \<Rightarrow> conn \<Rightarrow> 'k world \<Rightarrow> 'k world" where
  "destroy_conn K (Tcp a) w = accepted_dtor K a w"
| "destroy_conn K (Udp r) w = w"

text \<open>The deleter calls the destructor of the object that the pointer finds.\<close>

definition deleter :: "'k os \<Rightarrow> connections \<Rightarrow> (nat \<times> nat) option \<Rightarrow> 'k world \<Rightarrow> 'k world" where
  "deleter K v ptr w =
     (case ptr of
        None \<Rightarrow> w
      | Some addr \<Rightarrow>
          (case object_at v addr of
             Some c \<Rightarrow> destroy_conn K c w
           | None \<Rightarrow> mark_ub UseAfterFree w))"

subsection \<open>The vector\<close>

text \<open>
  \<^verbatim>\<open>emplace_back\<close>: within the capacity the new element is constructed behind the last one;
  otherwise in a new allocation, into which the old elements are then moved.
\<close>

definition emplace_back ::
  "(nat \<Rightarrow> nat) \<Rightarrow> conn \<Rightarrow> int \<Rightarrow> connections \<Rightarrow> connections \<times> conn" where
  "emplace_back grow sock fd v =
     (let n = length (cn_elems v)
      in if n < cn_capacity v
         then (case base_socket_ctor (cn_buffer v, n) sock fd of
                 (b, rest) \<Rightarrow> (v\<lparr>cn_elems := cn_elems v @ [(b, [])]\<rparr>, rest))
         else (case base_socket_ctor (Suc (cn_buffer v), n) sock fd of
                 (b, rest) \<Rightarrow>
                   (v\<lparr>cn_buffer := Suc (cn_buffer v), cn_capacity := grow (cn_capacity v),
                      cn_elems := map (\<lambda>(e, text). (fst (base_socket_move e), text)) (cn_elems v) @ [(b, [])]\<rparr>,
                    rest)))"

text \<open>\<^verbatim>\<open>v[i] = std::move(v[j])\<close>: the old object of \<open>i\<close> is deleted, then the bytes are copied.\<close>

definition move_assign_at :: "'k os \<Rightarrow> nat \<Rightarrow> nat \<Rightarrow> connections \<times> 'k world \<Rightarrow> connections \<times> 'k world" where
  "move_assign_at K i j s =
     (case s of
        (v, w) \<Rightarrow>
          (let ei = cn_elems v ! i; ej = cn_elems v ! j
           in (v\<lparr>cn_elems := (cn_elems v)[i := (fst (base_socket_move (fst ej)), snd ej),
                                           j := (snd (base_socket_move (fst ej)), [])]\<rparr>,
               deleter K v (bs_ptr (fst ei)) w)))"

fun shift_down :: "'k os \<Rightarrow> nat \<Rightarrow> nat \<Rightarrow> connections \<times> 'k world \<Rightarrow> connections \<times> 'k world" where
  "shift_down K 0 i s = s"
| "shift_down K (Suc m) i s = shift_down K m (Suc i) (move_assign_at K i (Suc i) s)"

text \<open>The elements from \<open>r\<close> on are destroyed, the first one first.\<close>

fun destroy_range :: "'k os \<Rightarrow> connections \<Rightarrow> nat list \<Rightarrow> 'k world \<Rightarrow> 'k world" where
  "destroy_range K v [] w = w"
| "destroy_range K v (i # is) w = destroy_range K v is (deleter K v (bs_ptr (fst (cn_elems v ! i))) w)"

definition erase_tail :: "'k os \<Rightarrow> nat \<Rightarrow> connections \<times> 'k world \<Rightarrow> connections \<times> 'k world" where
  "erase_tail K r s =
     (case s of
        (v, w) \<Rightarrow>
          (v\<lparr>cn_elems := take r (cn_elems v)\<rparr>, destroy_range K v [r..<length (cn_elems v)] w))"

definition erase_at :: "'k os \<Rightarrow> nat \<Rightarrow> connections \<times> 'k world \<Rightarrow> connections \<times> 'k world" where
  "erase_at K k s =
     (let n = length (cn_elems (fst s))
      in erase_tail K (n - 1) (shift_down K (n - 1 - k) k s))"

text \<open>
  \<^verbatim>\<open>remove_if\<close>: the elements that do not match are moved to the front; \<open>r\<close> is where
  the next one goes. The loop starts behind the first match.
\<close>

fun remove_loop ::
  "'k os \<Rightarrow> int \<Rightarrow> nat list \<Rightarrow> nat \<Rightarrow> connections \<times> 'k world \<Rightarrow> nat \<times> connections \<times> 'k world" where
  "remove_loop K fd [] r s = (r, s)"
| "remove_loop K fd (i # is) r s =
     (if bs_fd (fst (cn_elems (fst s) ! i)) = fd then remove_loop K fd is r s
      else remove_loop K fd is (Suc r) (move_assign_at K r i s))"

text \<open>The callbacks that \<^verbatim>\<open>init\<close> passes to a TCP and to a UDP server.\<close>

definition on_conn_tcp :: "(nat \<Rightarrow> nat) \<Rightarrow> accepted_sock \<Rightarrow> connections \<Rightarrow> connections \<times> conn" where
  "on_conn_tcp grow sock v = emplace_back grow (Tcp sock) (accepted_fd sock) v"

definition on_close_tcp :: "'k os \<Rightarrow> int \<Rightarrow> connections \<times> 'k world \<Rightarrow> connections \<times> 'k world" where
  "on_close_tcp K fd s =
     (let es = cn_elems (fst s);
          first = length (takeWhile (\<lambda>e. bs_fd (fst e) \<noteq> fd) es)
      in case remove_loop K fd [Suc first..<length es] first s of
           (r, s1) \<Rightarrow> erase_tail K r s1)"

definition on_msg_udp :: "(nat \<Rightarrow> nat) \<Rightarrow> accepted_ref \<Rightarrow> connections \<Rightarrow> connections \<times> conn" where
  "on_msg_udp grow sock v = emplace_back grow (Udp sock) (-1) v"

definition on_close_udp :: "'k os \<Rightarrow> connections \<times> 'k world \<Rightarrow> connections \<times> 'k world" where
  "on_close_udp K s = erase_tail K 0 s"

subsection \<open>The loop over the connections\<close>

text \<open>The virtual calls of \<^verbatim>\<open>send_recv_i\<close>; \<open>st\<close> is the state of a connectionless server.\<close>

fun conn_recv ::
  "'k os \<Rightarrow> sock_state \<Rightarrow> conn \<Rightarrow> byte list \<Rightarrow> size_t \<Rightarrow> 'k world
   \<Rightarrow> (in_address_port_t \<times> size_t) option \<times> byte list \<times> conn \<times> 'k world" where
  "conn_recv K st (Tcp a) buf n w =
     (case accepted_recv K a buf n w of (r, buf1, a1, w1) \<Rightarrow> (r, buf1, Tcp a1, w1))"
| "conn_recv K st (Udp x) buf n w =
     (case ref_recv K st x buf n w of (r, buf1, x1, w1) \<Rightarrow> (r, buf1, Udp x1, w1))"

fun conn_send ::
  "'k os \<Rightarrow> sock_state \<Rightarrow> conn \<Rightarrow> byte list \<Rightarrow> size_t \<Rightarrow> 'k world \<Rightarrow> size_t option \<times> conn \<times> 'k world" where
  "conn_send K st (Tcp a) buf n w = (case accepted_send K a buf n w of (r, a1, w1) \<Rightarrow> (r, Tcp a1, w1))"
| "conn_send K st (Udp x) buf n w = (case ref_send K st x buf n w of (r, x1, w1) \<Rightarrow> (r, Udp x1, w1))"

fun conn_finished :: "sock_state \<Rightarrow> conn \<Rightarrow> 'k world \<Rightarrow> bool" where
  "conn_finished st (Tcp a) w = accepted_finished a w"
| "conn_finished st (Udp x) w = ref_finished st x w"

text \<open>A visit changes the object where the pointer finds it, and the text of the element.\<close>

definition put_object :: "nat \<times> nat \<Rightarrow> conn \<Rightarrow> connections \<Rightarrow> connections" where
  "put_object addr c v =
     v\<lparr>cn_elems := (cn_elems v)[snd addr := ((fst (cn_elems v ! snd addr))\<lparr>bs_storage := Some c\<rparr>,
                                             snd (cn_elems v ! snd addr))]\<rparr>"

definition put_text :: "nat \<Rightarrow> byte list \<Rightarrow> connections \<Rightarrow> connections" where
  "put_text i text v = v\<lparr>cn_elems := (cn_elems v)[i := (fst (cn_elems v ! i), text)]\<rparr>"

text \<open>
  The \<^verbatim>\<open>for\<close> loop from element \<open>i\<close> on. \<open>None\<close> is a run that does not leave it; the
  first component of a result is the exception that ends the process, if one does. A use of a
  pointer whose object is gone ends the run with its mark.
\<close>

partial_function (option) serve_from ::
  "'k os \<Rightarrow> sock_state \<Rightarrow> bool \<Rightarrow> byte list \<Rightarrow> nat \<Rightarrow> connections \<Rightarrow> 'k world
   \<Rightarrow> (exn option \<times> connections \<times> byte list \<times> 'k world) option" where
  "serve_from K st is_tcp tmp i v w =
     (if length (cn_elems v) \<le> i then Some (None, v, tmp, w)
      else case Option.bind (bs_ptr (fst (cn_elems v ! i))) (\<lambda>addr. map_option (\<lambda>c. (addr, c)) (object_at v addr)) of
             None \<Rightarrow> Some (None, v, tmp, mark_ub UseAfterFree w)
           | Some (addr, c) \<Rightarrow>
               (case visit_connection (conn_recv K st) (conn_send K st) (conn_finished st) is_tcp tmp c
                       (snd (cn_elems v ! i)) w of
                  None \<Rightarrow> None
                | Some (Crashed e, tmp1, w1) \<Rightarrow> Some (Some e, v, tmp1, w1)
                | Some (Next c1 text, tmp1, w1) \<Rightarrow>
                    serve_from K st is_tcp tmp1 (Suc i) (put_text i text (put_object addr c1 v)) w1
                | Some (Again c1, tmp1, w1) \<Rightarrow>
                    serve_from K st is_tcp tmp1 i (put_text i [] (put_object addr c1 v)) w1
                | Some (Erased c1, tmp1, w1) \<Rightarrow>
                    (case erase_at K i (put_object addr c1 v, w1) of
                       (v2, w2) \<Rightarrow> serve_from K st is_tcp tmp1 i v2 w2)))"

end
