(* ===== verification/Server_Main.thy ===== *)
theory Server_Main
  imports Connections
begin

section \<open>The example server\<close>

text \<open>
  Models \<^verbatim>\<open>app/server_main.cpp\<close>: the signal handler, the callbacks and the two versions of
  \<^verbatim>\<open>init\<close>, the main loop, and \<^verbatim>\<open>main\<close>. The vector \<^verbatim>\<open>active_sockets\<close> is a global object: here
  it lies beside the state of the system, which \<open>beside\<close> lifts to a system that leaves it alone.
\<close>

definition beside :: "'k os \<Rightarrow> ('k \<times> connections) os" where
  "beside K s c = (case K (fst s) c of (r, k) \<Rightarrow> (r, (k, snd s)))"

definition active_sockets :: "('k \<times> connections) world \<Rightarrow> connections" where
  "active_sockets w = snd (w_kern w)"

definition put_sockets :: "connections \<Rightarrow> ('k \<times> connections) world \<Rightarrow> ('k \<times> connections) world" where
  "put_sockets v w = w\<lparr>w_kern := (fst (w_kern w), v)\<rparr>"

subsection \<open>\<^verbatim>\<open>init\<close> and its callbacks\<close>

fun tcp_rest :: "conn \<Rightarrow> accepted_sock \<Rightarrow> accepted_sock" where
  "tcp_rest (Tcp rest) acc = rest"
| "tcp_rest (Udp _) acc = acc"

definition server_callbacks ::
  "('k \<times> connections) os \<Rightarrow> (nat \<Rightarrow> nat) \<Rightarrow> proto \<Rightarrow> ('p, 'k \<times> connections) server_app" where
  "server_callbacks K grow pr =
     \<lparr>sapp_conn = (\<lambda>cb acc (s, w). case on_conn_tcp grow acc (active_sockets w) of
        (v, rest) \<Rightarrow> (None, tcp_rest rest acc, (s, put_sockets v w))),
      sapp_msg = (\<lambda>cb r (s, w). case on_msg_udp grow r (active_sockets w) of
        (v, rest) \<Rightarrow> (None, (s, put_sockets v w))),
      sapp_close = (\<lambda>cb fd (s, w).
        case (if is_connectionless pr then on_close_udp K (active_sockets w, w)
              else on_close_tcp K fd (active_sockets w, w)) of
          (v, w1) \<Rightarrow> (None, (s, put_sockets v w1))),
      sapp_unhandled = (\<lambda>cb evs s. (None, s))\<rparr>"

definition server_init ::
  "'k os \<Rightarrow> inet \<Rightarrow> ('p, 'k world) poll_traits \<Rightarrow> proto \<Rightarrow> int \<Rightarrow> 'p server \<Rightarrow> 'k world
   \<Rightarrow> bool \<times> 'p server \<times> 'k world" where
  "server_init K N PT pr local_port s w =
     (if is_connectionless pr
      then server_start_less K N PT pr ''127.0.0.1'' (word_of_int local_port) (Some 0) (Some 1) s w
      else server_start_conn K N PT pr ''127.0.0.1'' (word_of_int local_port) 10 (Some 0) (Some 1) s w)"

subsection \<open>The main loop\<close>

text \<open>
  One round: \<^verbatim>\<open>proceed\<close>, then the loop over the connections. The first component of a result is
  what \<^verbatim>\<open>std::terminate\<close> finds in flight, if the round ends so.
\<close>

definition server_round ::
  "('k \<times> connections) os \<Rightarrow> ('p, ('k \<times> connections) world) poll_traits \<Rightarrow> ('p, 'k \<times> connections) server_app
   \<Rightarrow> proto \<Rightarrow> byte list \<Rightarrow> 'p server \<times> ('k \<times> connections) world
   \<Rightarrow> (exn list option \<times> byte list \<times> 'p server \<times> ('k \<times> connections) world) option" where
  "server_round K PT A pr tmp s =
     (case server_proceed K PT A pr 10 s of
        (Inl exs, s1) \<Rightarrow> Some (Some exs, tmp, s1)
      | (Inr _, (sv, w1)) \<Rightarrow>
          (case serve_from K (en_state sv) (\<not> is_connectionless pr) tmp 0 (active_sockets w1) w1 of
             None \<Rightarrow> None
           | Some (ex, v, tmp1, w2) \<Rightarrow> Some (map_option (\<lambda>e. [e]) ex, tmp1, (sv, put_sockets v w2))))"

definition server_sig :: "int \<Rightarrow> int option" where
  "server_sig main_loop = (if main_loop = 0 then None else Some 0)"

text \<open>The loop; each round comes with the number of signals that arrive during it.\<close>

fun server_rounds ::
  "('k \<times> connections) os \<Rightarrow> ('p, ('k \<times> connections) world) poll_traits \<Rightarrow> ('p, 'k \<times> connections) server_app
   \<Rightarrow> proto \<Rightarrow> int \<Rightarrow> nat list \<Rightarrow> byte list \<Rightarrow> 'p server \<times> ('k \<times> connections) world
   \<Rightarrow> (exit_status \<times> 'p server \<times> ('k \<times> connections) world) option" where
  "server_rounds K PT A pr main_loop [] tmp s = Some (if main_loop = 0 then Returned else Running, s)"
| "server_rounds K PT A pr main_loop (sigs # rounds) tmp s =
     (if main_loop = 0 then Some (Returned, s)
      else case server_round K PT A pr tmp s of
             None \<Rightarrow> None
           | Some (Some exs, tmp1, s1) \<Rightarrow> Some (TerminatedBy exs, s1)
           | Some (None, tmp1, s1) \<Rightarrow>
               (case signals server_sig sigs main_loop of
                  None \<Rightarrow> Some (Exited 1, s1)
                | Some main_loop1 \<Rightarrow> server_rounds K PT A pr main_loop1 rounds tmp1 s1))"

subsection \<open>\<^verbatim>\<open>main\<close>\<close>

text \<open>
  \<^verbatim>\<open>return 0\<close> destroys the server, whose destructor calls the close callback, and then, like
  \<^verbatim>\<open>exit\<close>, the global vector. An exception that leaves a destructor ends the process.
\<close>

definition destroy_sockets :: "('k \<times> connections) os \<Rightarrow> ('k \<times> connections) world \<Rightarrow> ('k \<times> connections) world" where
  "destroy_sockets K w = (case erase_tail K 0 (active_sockets w, w) of (v, w1) \<Rightarrow> put_sockets v w1)"

definition server_exit ::
  "('k \<times> connections) os \<Rightarrow> (epoll_t, 'k \<times> connections) server_app
   \<Rightarrow> epoll_t server \<times> ('k \<times> connections) world \<Rightarrow> exit_status \<times> ('k \<times> connections) world" where
  "server_exit K A s =
     (case server_dtor K (epoll_dtor K) A (fst s) (snd s) of
        (Inl e, w1) \<Rightarrow> (TerminatedBy [e], w1)
      | (Inr _, w1) \<Rightarrow> (Returned, destroy_sockets K w1))"

definition server_main ::
  "('k \<times> connections) os \<Rightarrow> inet \<Rightarrow> (nat \<Rightarrow> nat) \<Rightarrow> proto \<Rightarrow> int \<Rightarrow> nat list \<Rightarrow> ('k \<times> connections) world
   \<Rightarrow> (exit_status \<times> ('k \<times> connections) world) option" where
  "server_main K N grow pr local_port rounds w =
     (let A = server_callbacks K grow pr; buff_size = (if is_connectionless pr then 256 else 20)
      in case epoll_ctor K 5 10 w of
           (Inl e, w1) \<Rightarrow> Some (TerminatedBy [e], w1)
         | (Inr ep, w1) \<Rightarrow>
             (case server_init K N (epoll_traits K) pr local_port (server_ctor ep ipv4 None) w1 of
                (False, s, w2) \<Rightarrow> Some (TerminatedBy [], w2)
              | (True, s, w2) \<Rightarrow>
                  (case server_rounds K (epoll_traits K) A pr 1 rounds (replicate buff_size 0) (s, w2) of
                     None \<Rightarrow> None
                   | Some (Returned, s3) \<Rightarrow> Some (server_exit K A s3)
                   | Some (Exited n, s3) \<Rightarrow> Some (Exited n, destroy_sockets K (snd s3))
                   | Some (out, s3) \<Rightarrow> Some (out, snd s3))))"

text \<open>
  The arguments. The check of \<^verbatim>\<open>argc\<close> admits a program name and one argument; \<^verbatim>\<open>argv[2]\<close> is
  then the null pointer, of which \<^verbatim>\<open>std::stoi\<close> makes a string. A protocol that is neither
  \<^verbatim>\<open>tcp\<close> nor \<^verbatim>\<open>udp\<close> leaves the server unset.
\<close>

datatype bad_args = TooFew | NullPort | BadPort exn | BadProto

definition server_args :: "string list \<Rightarrow> bad_args + proto \<times> int" where
  "server_args argv =
     (if length argv < 2 then Inl TooFew
      else if length argv = 2 then Inl NullPort
      else case stoi (argv ! 2) of
             Inl e \<Rightarrow> Inl (BadPort e)
           | Inr local_port \<Rightarrow>
               if argv ! 1 = ''tcp'' then Inr (tcp, local_port)
               else if argv ! 1 = ''udp'' then Inr (udp, local_port)
               else Inl BadProto)"

definition server_program ::
  "('k \<times> connections) os \<Rightarrow> inet \<Rightarrow> (nat \<Rightarrow> nat) \<Rightarrow> string list \<Rightarrow> nat list \<Rightarrow> ('k \<times> connections) world
   \<Rightarrow> (exit_status \<times> ('k \<times> connections) world) option" where
  "server_program K N grow argv rounds w =
     (case server_args argv of
        Inl TooFew \<Rightarrow> Some (TerminatedBy [], w)
      | Inl NullPort \<Rightarrow> Some (TerminatedBy [], mark_ub NullText w)
      | Inl (BadPort e) \<Rightarrow> Some (TerminatedBy [e], w)
      | Inl BadProto \<Rightarrow> Some (TerminatedBy [], w)
      | Inr (pr, local_port) \<Rightarrow> server_main K N grow pr local_port rounds w)"

end
