(* ===== verification/Connections_Props.thy ===== *)
theory Connections_Props
  imports Connections
begin

section \<open>What becomes of the example server's connections\<close>

text \<open>
  Elements that point into themselves serve their own connection; a new connection that fits into
  the capacity keeps that so. Growth and erasure do not: both move elements, and a moved element
  points to where it was.
\<close>

definition self_pointing :: "connections \<Rightarrow> bool" where
  "self_pointing v \<longleftrightarrow>
     (\<forall>i < length (cn_elems v). bs_ptr (fst (cn_elems v ! i)) = Some (cn_buffer v, i)
                              \<and> bs_storage (fst (cn_elems v ! i)) \<noteq> None)"

abbreviation elem :: "connections \<Rightarrow> nat \<Rightarrow> base_socket" where
  "elem v i \<equiv> fst (cn_elems v ! i)"

text \<open>The connection that element \<open>i\<close> talks to.\<close>

definition serves :: "connections \<Rightarrow> nat \<Rightarrow> conn option" where
  "serves v i = Option.bind (bs_ptr (elem v i)) (object_at v)"

lemma self_pointing_serves:
  "self_pointing v \<Longrightarrow> i < length (cn_elems v) \<Longrightarrow> serves v i = bs_storage (elem v i) \<and> serves v i \<noteq> None"
  by (simp add: self_pointing_def serves_def object_at_def)

lemma self_pointing_ctor: "self_pointing connections_ctor"
  by (simp add: self_pointing_def connections_ctor_def)

subsection \<open>Growth\<close>

lemma emplace_back_length:
  "emplace_back grow c fd v = (v', rest) \<Longrightarrow> length (cn_elems v') = Suc (length (cn_elems v))"
  by (auto simp: emplace_back_def Let_def split: prod.splits if_splits)

lemma emplace_back_fits:
  assumes "emplace_back grow c fd v = (v', rest)" and "length (cn_elems v) < cn_capacity v" and "self_pointing v"
  shows "self_pointing v'"
  using assms
  by (auto simp: emplace_back_def base_socket_ctor_def self_pointing_def nth_append less_Suc_eq
      split: prod.splits)

lemma emplace_back_grows:
  assumes "emplace_back grow c fd v = (v', rest)" and "\<not> length (cn_elems v) < cn_capacity v"
    and "self_pointing v" and "i < length (cn_elems v)"
  shows "serves v' i = None" and "bs_ptr (elem v' i) = Some (cn_buffer v, i)"
proof -
  obtain e t where e: "cn_elems v ! i = (e, t)" by (rule prod.exhaust)
  have "bs_ptr e = Some (cn_buffer v, i)" using assms(3,4) e by (auto simp: self_pointing_def)
  then show "serves v' i = None" and "bs_ptr (elem v' i) = Some (cn_buffer v, i)"
    using assms(1,2,4) e
    by (auto simp: emplace_back_def base_socket_move_def serves_def object_at_def nth_append split: prod.splits)
qed

text \<open>A visit to an element whose object is gone is undefined behaviour.\<close>

lemma serve_from_gone:
  assumes "i < length (cn_elems v)" and "serves v i = None"
  shows "serve_from K st is_tcp tmp i v w = Some (None, v, tmp, mark_ub UseAfterFree w)"
proof -
  have "Option.bind (bs_ptr (elem v i)) (\<lambda>addr. map_option (\<lambda>c. (addr, c)) (object_at v addr)) = None"
    using assms(2) by (cases "bs_ptr (elem v i)") (simp_all add: serves_def)
  with assms(1) show ?thesis by (subst serve_from.simps) simp
qed

text \<open>
  C30: With a vector that grows to one element first, as the usual implementations do, the
  second connection makes the vector reallocate: the first element's pointer then points to
  freed memory, and the next visit of the connections uses it.
\<close>

theorem second_connection_breaks_the_first:
  assumes "grow 0 = 1"
    and "emplace_back grow c1 fd1 connections_ctor = (v1, rest1)"
    and "emplace_back grow c2 fd2 v1 = (v2, rest2)"
  shows "serves v1 0 = Some (fst (move_conn c1))
    \<and> serve_from K st is_tcp tmp 0 v2 w = Some (None, v2, tmp, mark_ub UseAfterFree w)"
proof -
  have v1: "cn_capacity v1 = 1" "length (cn_elems v1) = 1" "self_pointing v1"
    "bs_storage (elem v1 0) = Some (fst (move_conn c1))"
    using assms(1,2)
    by (auto simp: emplace_back_def connections_ctor_def base_socket_ctor_def self_pointing_def split: prod.splits)
  have "serves v2 0 = None" using emplace_back_grows(1) [OF assms(3) _ v1(3)] v1(1,2) by simp
  then have "serve_from K st is_tcp tmp 0 v2 w = Some (None, v2, tmp, mark_ub UseAfterFree w)"
    using emplace_back_length [OF assms(3)] by (intro serve_from_gone) simp_all
  with self_pointing_serves [OF v1(3), of 0] v1(2,4) show ?thesis by simp
qed

definition second_connection :: accepted_sock where
  "second_connection = sample_connection\<lparr>as_sock := (as_sock sample_connection)\<lparr>a_impl := socket_impl_ctor 10 ipv4\<rparr>\<rparr>"

theorem second_connection_breaks_the_first_witness:
  "\<exists>v1 v2. serves v1 0 = Some (fst (move_conn (Tcp sample_connection))) \<and>
     serve_from counting_os (StIdle None) True [0, 0] 0 v2 (init_world [9, 10]) =
       Some (None, v2, [0, 0], mark_ub UseAfterFree (init_world [9, 10]))"
proof -
  obtain v1 r1 where e1: "emplace_back (\<lambda>n. max 1 (2 * n)) (Tcp sample_connection) 9 connections_ctor = (v1, r1)"
    by (rule prod.exhaust)
  obtain v2 r2 where e2: "emplace_back (\<lambda>n. max 1 (2 * n)) (Tcp second_connection) 10 v1 = (v2, r2)"
    by (rule prod.exhaust)
  show ?thesis
    by (intro exI) (rule second_connection_breaks_the_first [OF _ e1 e2, of counting_os], simp)
qed

subsection \<open>Erasure\<close>

text \<open>Shifting elements down when the first of them has already been moved from.\<close>

definition shifted :: "nat \<Rightarrow> nat \<Rightarrow> (base_socket \<times> byte list) list \<Rightarrow> (base_socket \<times> byte list) list" where
  "shifted i m es = take i es @ take m (drop (Suc i) es)
     @ [((fst (es ! (i + m)))\<lparr>bs_ptr := None\<rparr>, [])] @ drop (Suc (i + m)) es"

lemma base_socket_move_fst [simp]: "fst (base_socket_move b) = b"
  by (simp add: base_socket_move_def)

lemma base_socket_move_snd [simp]: "snd (base_socket_move b) = b\<lparr>bs_ptr := None\<rparr>"
  by (simp add: base_socket_move_def)

lemma shift_down_moved:
  assumes "i + m < length (cn_elems v)" and "bs_ptr (elem v i) = None" and "snd (cn_elems v ! i) = []"
  shows "shift_down K m i (v, w) = (v\<lparr>cn_elems := shifted i m (cn_elems v)\<rparr>, w)"
  using assms
proof (induction m arbitrary: i v)
  case 0
  obtain e t where e: "cn_elems v ! i = (e, t)" by (rule prod.exhaust)
  have "((fst (cn_elems v ! i))\<lparr>bs_ptr := None\<rparr>, []) = cn_elems v ! i"
    using 0 e by simp
  then show ?case using 0 by (simp add: shifted_def id_take_nth_drop [symmetric])
next
  case (Suc m)
  let ?es = "cn_elems v"
  let ?v = "v\<lparr>cn_elems := ?es[i := ?es ! Suc i, Suc i := ((fst (?es ! Suc i))\<lparr>bs_ptr := None\<rparr>, [])]\<rparr>"
  have step: "move_assign_at K i (Suc i) (v, w) = (?v, w)"
    using Suc.prems(2) by (simp add: move_assign_at_def deleter_def Let_def)
  have i: "Suc i < length ?es" using Suc.prems(1) by simp
  have "shift_down K m (Suc i) (?v, w) = (?v\<lparr>cn_elems := shifted (Suc i) m (cn_elems ?v)\<rparr>, w)"
    using Suc.prems i by (intro Suc.IH) simp_all
  moreover have "shifted (Suc i) m (cn_elems ?v) = shifted i (Suc m) ?es"
  proof (rule nth_equalityI)
    show "length (shifted (Suc i) m (cn_elems ?v)) = length (shifted i (Suc m) ?es)"
      using Suc.prems(1) by (simp add: shifted_def)
    fix k assume "k < length (shifted (Suc i) m (cn_elems ?v))"
    then show "shifted (Suc i) m (cn_elems ?v) ! k = shifted i (Suc m) ?es ! k"
      using Suc.prems(1)
      by (cases "k = i") (auto simp: shifted_def nth_append nth_list_update min_def nth_Cons split: nat.splits)
  qed
  ultimately show ?case using step by simp
qed

lemma deleter_finds:
  "serves v i = Some c \<Longrightarrow> deleter K v (bs_ptr (elem v i)) w = destroy_conn K c w"
  by (cases "bs_ptr (elem v i)") (simp_all add: deleter_def serves_def)

text \<open>
  What \<^verbatim>\<open>erase\<close> does, wherever the pointers lead: the list of elements is the right one, the
  connection that the pointer of the erased element finds is destroyed, and no pointer is adjusted.
\<close>

lemma erase_at_moves:
  assumes "serves v k = Some c" and "Suc k < length (cn_elems v)"
  shows "erase_at K k (v, w) =
    (v\<lparr>cn_elems := take k (cn_elems v) @ drop (Suc k) (cn_elems v)\<rparr>, destroy_conn K c w)"
proof -
  let ?es = "cn_elems v" and ?n = "length (cn_elems v)" and ?w = "destroy_conn K c w"
  let ?es1 = "?es[k := ?es ! Suc k, Suc k := ((elem v (Suc k))\<lparr>bs_ptr := None\<rparr>, [])]"
  let ?es2 = "shifted (Suc k) (?n - 2 - k) ?es1"
  have "move_assign_at K k (Suc k) (v, w) = (v\<lparr>cn_elems := ?es1\<rparr>, ?w)"
    using deleter_finds [OF assms(1)] assms(2) by (simp add: move_assign_at_def Let_def)
  moreover have "?n - 1 - k = Suc (?n - 2 - k)" using assms(2) by simp
  ultimately have "shift_down K (?n - 1 - k) k (v, w) = (v\<lparr>cn_elems := ?es2\<rparr>, ?w)"
    using shift_down_moved [of "Suc k" "?n - 2 - k" "v\<lparr>cn_elems := ?es1\<rparr>" K ?w] assms(2) by simp
  moreover have len: "length ?es2 = ?n" using assms(2) by (simp add: shifted_def)
  moreover have "bs_ptr (fst (?es2 ! (?n - 1))) = None"
    using assms(2) by (auto simp: shifted_def nth_append min_def nth_Cons split: nat.splits)
  moreover have "[?n - 1..<?n] = [?n - 1]" using assms(2) by (cases ?n) simp_all
  moreover have "take (?n - 1) ?es2 = take k ?es @ drop (Suc k) ?es"
  proof (rule nth_equalityI)
    show "length (take (?n - 1) ?es2) = length (take k ?es @ drop (Suc k) ?es)" using len assms(2) by simp
    fix i assume "i < length (take (?n - 1) ?es2)"
    then show "take (?n - 1) ?es2 ! i = (take k ?es @ drop (Suc k) ?es) ! i"
      using assms(2) len
      by (cases "i = k") (auto simp: shifted_def nth_append nth_list_update min_def nth_Cons split: nat.splits)
  qed
  ultimately show ?thesis by (simp add: erase_at_def erase_tail_def deleter_def)
qed

text \<open>
  C31: Erasing a connection that is not the last of the vector, and whose element points to its
  own object, destroys that connection and leaves the list of descriptors, stored connections
  and texts right, but adjusts no pointer: each later element comes one place down with the
  pointer it had, so that one which pointed to its own object, as all do while the vector has
  neither outgrown an allocation that held elements nor erased one, then talks to the connection
  of its right neighbour, and the last one to none.
\<close>

theorem erase_cross_wires_connections:
  assumes "bs_ptr (elem v k) = Some (cn_buffer v, k)" and "bs_storage (elem v k) = Some c"
    and "Suc k < length (cn_elems v)" and "erase_at K k (v, w) = (v', w')"
  shows "w' = destroy_conn K c w
    \<and> map (\<lambda>(e, text). (bs_fd e, bs_storage e, text)) (cn_elems v') =
        (let es = map (\<lambda>(e, text). (bs_fd e, bs_storage e, text)) (cn_elems v) in take k es @ drop (Suc k) es)
    \<and> (\<forall>i < length (cn_elems v'). bs_ptr (elem v' i) = bs_ptr (elem v (if i < k then i else Suc i)))
    \<and> (\<forall>i < length (cn_elems v'). k \<le> i \<and> bs_ptr (elem v (Suc i)) = Some (cn_buffer v, Suc i) \<longrightarrow>
          serves v' i = (if Suc (Suc i) < length (cn_elems v) then bs_storage (elem v (Suc (Suc i))) else None))"
proof -
  let ?es = "take k (cn_elems v) @ drop (Suc k) (cn_elems v)"
  have v': "v' = v\<lparr>cn_elems := ?es\<rparr>" and w': "w' = destroy_conn K c w"
    using erase_at_moves [of v k c K w] assms by (simp_all add: serves_def object_at_def)
  have elems: "elem v' i = elem v (if i < k then i else Suc i)" if "i < length (cn_elems v')" for i
    using that assms(3) v' by (auto simp: nth_append)
  have "serves v' i = (if Suc (Suc i) < length (cn_elems v) then bs_storage (elem v (Suc (Suc i))) else None)"
    if i: "i < length (cn_elems v')" "k \<le> i" and p: "bs_ptr (elem v (Suc i)) = Some (cn_buffer v, Suc i)" for i
  proof -
    have "serves v' i = object_at v' (cn_buffer v, Suc i)" using elems [OF i(1)] i(2) p by (simp add: serves_def)
    then show ?thesis using i assms(3) v' by (auto simp: object_at_def nth_append)
  qed
  with v' w' elems show ?thesis by (simp add: take_map drop_map Let_def)
qed

text \<open>Three connections, of which the first one leaves.\<close>

definition three_connections :: connections where
  "three_connections =
     \<lparr>cn_buffer = 3, cn_capacity = 4,
      cn_elems = map (\<lambda>i. (\<lparr>bs_ptr = Some (3, i), bs_fd = int i + 9,
        bs_storage = Some (Tcp (sample_connection\<lparr>as_sock :=
          (as_sock sample_connection)\<lparr>a_impl := socket_impl_ctor (int i + 9) ipv4\<rparr>\<rparr>))\<rparr>, [])) [0, 1, 2]\<rparr>"

theorem erase_cross_wires_connections_witness:
  "\<exists>v' w'. erase_at counting_os 0 (three_connections, init_world [9, 10, 11]) = (v', w')
     \<and> length (cn_elems v') = 2 \<and> serves v' 0 = serves three_connections 2 \<and> serves v' 1 = None"
proof -
  obtain v' w' where e: "erase_at counting_os 0 (three_connections, init_world [9, 10, 11]) = (v', w')"
    by (rule prod.exhaust)
  have sp: "self_pointing three_connections"
    by (auto simp: self_pointing_def three_connections_def nth_Cons split: nat.splits)
  have n: "length (cn_elems three_connections) = 3" by (simp add: three_connections_def)
  from sp n have p: "bs_ptr (elem three_connections 0) = Some (cn_buffer three_connections, 0)"
    and "bs_storage (elem three_connections 0) \<noteq> None" by (simp_all add: self_pointing_def)
  then obtain c where c: "bs_storage (elem three_connections 0) = Some c" by blast
  note r = erase_cross_wires_connections [OF p c _ e]
  then have "length (map (\<lambda>(e, text). (bs_fd e, bs_storage e, text)) (cn_elems v')) = 2"
    using n by (simp add: Let_def)
  then have "length (cn_elems v') = 2" by simp
  moreover have "\<forall>i < 3. bs_ptr (elem three_connections i) = Some (cn_buffer three_connections, i)"
    using sp n by (simp add: self_pointing_def)
  moreover have "serves three_connections 2 = bs_storage (elem three_connections 2)"
    using self_pointing_serves [OF sp, of 2] n by simp
  ultimately show ?thesis using e r n by (simp add: numeral_2_eq_2 numeral_3_eq_3)
qed

subsection \<open>The close callback\<close>

lemma move_assign_at_fd:
  "Suc r < length (cn_elems (fst s)) \<Longrightarrow> length (cn_elems (fst (move_assign_at K r (Suc r) s))) = length (cn_elems (fst s))
   \<and> (\<forall>i > r. bs_fd (elem (fst (move_assign_at K r (Suc r) s)) i) = bs_fd (elem (fst s) i))"
  by (cases s) (auto simp: move_assign_at_def Let_def nth_list_update)

lemma remove_loop_no_match:
  assumes "r < length (cn_elems (fst s))" and "\<forall>i. r < i \<and> i < length (cn_elems (fst s)) \<longrightarrow> bs_fd (elem (fst s) i) \<noteq> fd"
  shows "remove_loop K fd [Suc r..<length (cn_elems (fst s))] r s
    = (length (cn_elems (fst s)) - 1, shift_down K (length (cn_elems (fst s)) - 1 - r) r s)"
  using assms
proof (induction "length (cn_elems (fst s)) - 1 - r" arbitrary: r s)
  case 0
  then have "length (cn_elems (fst s)) = Suc r" by simp
  then show ?case by simp
next
  case (Suc m)
  let ?s = "move_assign_at K r (Suc r) s"
  have r: "Suc r < length (cn_elems (fst s))" using Suc.hyps(2) by simp
  note fds = move_assign_at_fd [OF r, of K]
  have n: "length (cn_elems (fst ?s)) = length (cn_elems (fst s))" using fds by simp
  have "remove_loop K fd [Suc (Suc r)..<length (cn_elems (fst ?s))] (Suc r) ?s
    = (length (cn_elems (fst ?s)) - 1, shift_down K (length (cn_elems (fst ?s)) - 1 - Suc r) (Suc r) ?s)"
    using Suc.hyps(2) Suc.prems r fds by (intro Suc.hyps(1)) simp_all
  moreover have "[Suc r..<length (cn_elems (fst s))] = Suc r # [Suc (Suc r)..<length (cn_elems (fst s))]"
    using r by (simp add: upt_conv_Cons)
  moreover have "length (cn_elems (fst s)) - 1 - r = Suc (length (cn_elems (fst s)) - 1 - Suc r)" using r by simp
  ultimately show ?case using Suc.prems(2) r n by simp
qed

lemma takeWhile_first:
  "k < length xs \<Longrightarrow> \<not> P (xs ! k) \<Longrightarrow> (\<forall>i < k. P (xs ! i)) \<Longrightarrow> length (takeWhile P xs) = k"
  using takeWhile_eq_take_P_nth [of k xs P] by simp

theorem on_close_tcp_erases_the_one:
  assumes "k < length (cn_elems v)" and "bs_fd (elem v k) = fd"
    and "\<forall>i < length (cn_elems v). i \<noteq> k \<longrightarrow> bs_fd (elem v i) \<noteq> fd"
  shows "on_close_tcp K fd (v, w) = erase_at K k (v, w)"
proof -
  have "length (takeWhile (\<lambda>e. bs_fd (fst e) \<noteq> fd) (cn_elems v)) = k"
    using assms by (intro takeWhile_first) auto
  moreover have "remove_loop K fd [Suc k..<length (cn_elems v)] k (v, w)
    = (length (cn_elems v) - 1, shift_down K (length (cn_elems v) - 1 - k) k (v, w))"
    using remove_loop_no_match [of k "(v, w)" fd K] assms by simp
  ultimately show ?thesis by (simp add: on_close_tcp_def erase_at_def Let_def)
qed

theorem on_close_tcp_erases_the_one_witness:
  "on_close_tcp counting_os 10 (three_connections, init_world [9, 10, 11])
   = erase_at counting_os 1 (three_connections, init_world [9, 10, 11])"
  by (rule on_close_tcp_erases_the_one)
     (auto simp: three_connections_def nth_Cons split: nat.splits)

end
