(* ===== verification/Server_Props.thy ===== *)
theory Server_Props
  imports Server
begin

section \<open>Properties of the server endpoint\<close>

text \<open>
  Starting, accepting and the life of a connection, over the epoll of the repository.
\<close>

subsection \<open>The registry\<close>

definition server_handlers :: "uint32 \<rightharpoonup> server_handler" where
  "server_handlers =
     [PEER_CLOSED \<mapsto> SErase, ERROR_EV \<mapsto> SErase, HANGUP \<mapsto> SErase, EXCEPTION \<mapsto> SErase,
      READ_READY \<mapsto> SReadReady]"

lemma server_cbs_simps [simp]:
  "en_state (server_register_cbs s) = en_state s" "en_poll (server_register_cbs s) = en_poll s"
  "en_af (server_register_cbs s) = en_af s"
  "ob_unhandled (en_obs (server_register_cbs s)) = ob_unhandled (en_obs s)"
  by (simp_all add: server_register_cbs_def)

lemma server_handlers_lookup [simp]:
  "server_handlers PEER_CLOSED = Some SErase" "server_handlers ERROR_EV = Some SErase"
  "server_handlers HANGUP = Some SErase" "server_handlers EXCEPTION = Some SErase"
  "server_handlers READ_READY = Some SReadReady" "server_handlers WRITE_READY = None"
  "server_handlers NONE = None"
  by (simp_all add: server_handlers_def)

lemma server_register_empty:
  "ob_handlers (en_obs s) = Map.empty \<Longrightarrow> ob_handlers (en_obs (server_register_cbs s)) = server_handlers"
  by (simp add: server_register_cbs_def server_handlers_def)

lemma server_register_again:
  "ob_handlers (en_obs s) = server_handlers \<Longrightarrow> ob_handlers (en_obs (server_register_cbs s)) = server_handlers"
  by (simp add: server_register_cbs_def)

subsection \<open>Starting\<close>

lemma mbind_listener:
  assumes "bind_conn K k addr w1 = (bd, k', w2)"
    and "\<And>b. bd = Some b \<Longrightarrow> binded_listen K b mc w2 = (l, b', w3)"
  shows "mbind_obj2 (Some k) (\<lambda>k. bind_conn K k addr) (socket_dtor K)
           (\<lambda>b. binded_listen K b mc) (binded_dtor K) w1 =
    (case bd of None \<Rightarrow> (None, socket_dtor K k w2)
      | Some b \<Rightarrow> (case l of None \<Rightarrow> (None, binded_dtor K b w3) | Some x \<Rightarrow> (Some x, w3)))"
proof (cases bd)
  case None
  with assms(1) bind_conn_fds [OF assms(1)] show ?thesis by (simp add: mbind_obj2_def)
next
  case (Some b)
  note bl = assms(2) [OF Some]
  have k': "impl_fds (s_impl k') = {}" using bind_conn_fds [OF assms(1)] Some by simp
  then have dk: "socket_dtor K k' w = w" for w
    by (simp add: socket_dtor_def destroy_impl_def impl_empty_def impl_fds_def)
  show ?thesis
  proof (cases l)
    case None
    with listen_fds [OF bl] have "b' = b" by simp
    with assms(1) Some bl None dk show ?thesis by (simp add: mbind_obj2_def)
  next
    case l: (Some x)
    with listen_fds [OF bl] have "impl_fds (b_impl b') = {}" by simp
    then have "binded_dtor K b' w = w" for w
      by (simp add: binded_dtor_def destroy_impl_def impl_empty_def impl_fds_def)
    with assms(1) Some bl l dk show ?thesis by (simp add: mbind_obj2_def)
  qed
qed

lemma server_start_conn_cases:
  assumes "server_start_conn K N PT pr address prt mc oc er s w = (b, s', w')"
  obtains (rejected) "\<not> b" "s' = s" "w' = w"
  | (failed) "idle s" "socket_create K pr (en_af s) w = (None, w')" "\<not> b" "s' = s"
  | (unbound) k w1 addr w2 where "idle s" "socket_create K pr (en_af s) w = (Some k, w1)"
      "bind_conn K k addr w1 = (None, k, w2)" "w' = socket_dtor K k w2" "\<not> b" "s' = s"
  | (deaf) k w1 addr bd k' w2 w3 where "idle s" "socket_create K pr (en_af s) w = (Some k, w1)"
      "bind_conn K k addr w1 = (Some bd, k', w2)" "binded_listen K bd mc w2 = (None, bd, w3)"
      "w' = binded_dtor K bd w3" "\<not> b" "s' = s"
  | (started) k w1 addr bd k' w2 l bd' w3 ok w4 st where "idle s" "b"
      "socket_create K pr (en_af s) w = (Some k, w1)" "bind_conn K k addr w1 = (Some bd, k', w2)"
      "binded_listen K bd mc w2 = (Some l, bd', w3)"
      "pt_add PT (en_poll s) (impl_fd (l_impl l)) op_READ w3 = (ok, w4)"
      "assign_state K (en_state s) (StListening l) w4 = (st, w')"
      "s' = (server_register_cbs s)\<lparr>en_state := st, sv_on_conn := Some oc, sv_erase := map_option Some er\<rparr>"
      "from_string_and_port N (w_junk w) address prt = Some addr"
proof (cases "if idle s then from_string_and_port N (w_junk w) address prt else None")
  case None
  with assms show ?thesis by (auto simp: server_start_conn_def intro: rejected)
next
  case (Some addr)
  then have idle: "idle s" and parsed: "from_string_and_port N (w_junk w) address prt = Some addr"
    by (simp_all split: if_splits)
  obtain created w1 where created: "socket_create K pr (en_af s) w = (created, w1)" by fastforce
  show ?thesis
  proof (cases created)
    case None
    with assms Some created show ?thesis
      by (auto simp: server_start_conn_def mbind_obj2_def intro: failed [OF idle])
  next
    case k: (Some k)
    obtain res k' w2 where bound: "bind_conn K k addr w1 = (res, k', w2)" using prod_cases3 by blast
    show ?thesis
    proof (cases res)
      case None
      then have "k' = k" using bind_conn_fds [OF bound] by simp
      with None assms Some created k bound mbind_listener [OF bound, of mc] show ?thesis
        by (auto simp: server_start_conn_def intro: unbound [OF idle])
    next
      case bd: (Some bd)
      obtain l bd' w3 where lis: "binded_listen K bd mc w2 = (l, bd', w3)" using prod_cases3 by blast
      note mb = mbind_listener [OF bound, of mc l bd' w3]
      show ?thesis
      proof (cases l)
        case None
        then have "bd' = bd" using listen_fds [OF lis] by simp
        with None assms Some created k bound bd lis mb show ?thesis
          by (auto simp: server_start_conn_def intro: deaf [OF idle])
      next
        case l: (Some x)
        obtain ok w4 where added: "pt_add PT (en_poll s) (impl_fd (l_impl x)) op_READ w3 = (ok, w4)" by fastforce
        obtain st w5 where assigned: "assign_state K (en_state s) (StListening x) w4 = (st, w5)" by fastforce
        from assms Some created k bound bd lis mb l added assigned
        have "b" "w' = w5" "s' = (server_register_cbs s)\<lparr>en_state := st, sv_on_conn := Some oc, sv_erase := map_option Some er\<rparr>"
          by (simp_all add: server_start_conn_def Let_def)
        with created k bound bd lis l added assigned parsed show ?thesis by (auto intro: started [OF idle])
      qed
    qed
  qed
qed

lemma bind_conn_trace:
  assumes "bind_conn K k addr w = (Some bd, k', w1)"
  shows "\<exists>e. w_trace w1 = Sys (SysBind (impl_fd (s_impl k)) (sock_addr_of addr)) 0 e # w_trace w
    \<and> impl_fd (b_impl bd) = impl_fd (s_impl k) \<and> b_local bd = addr"
  using assms
  by (auto simp: bind_conn_def binded_ctor_def move_impl_def impl_fd_def impl_bind_def bind_addr_def sock_addr_of_def
      split: prod.splits if_splits option.splits dest!: do_sys_trace)

lemma listen_trace:
  assumes "binded_listen K bd mc w = (Some l, bd', w1)"
  shows "\<exists>e. w_trace w1 = Sys (SysListen (impl_fd (b_impl bd)) (c_int (uint mc))) 0 e # w_trace w
    \<and> impl_fd (l_impl l) = impl_fd (b_impl bd) \<and> l_local l = b_local bd \<and> l_max_conn l = mc"
  using assms
  by (auto simp: binded_listen_def listening_ctor_def move_impl_def impl_fd_def impl_listen_def
      split: prod.splits if_splits option.splits dest!: do_sys_trace)

lemma server_start_calls:
  assumes "en_state s = StIdle None" and "ob_handlers (en_obs s) = Map.empty"
    and "server_start_conn K N (epoll_traits K) pr address prt mc oc er s w = (b, s', w')"
  shows "(b \<longrightarrow> (\<exists>addr fd ty fl e1 e2 e3 x e4 l.
            from_string_and_port N (w_junk w) address prt = Some addr
            \<and> w_trace w' =
              [Sys (SysEpollCtl (ep_fd (en_poll s)) EPOLL_CTL_ADD fd (Some (flags_from_op op_READ, fd))) x e4,
               Sys (SysListen fd (c_int (uint mc))) 0 e3, Sys (SysBind fd (sock_addr_of addr)) 0 e2,
               Sys (SysSocket (en_af s) ty fl) fd e1] @ w_trace w
            \<and> fd \<noteq> -1 \<and> en_state s' = StListening l \<and> state_fd (en_state s') = fd
            \<and> listening_local l = addr \<and> listening_max_conn l = mc
            \<and> ob_handlers (en_obs s') = server_handlers \<and> sv_on_conn s' = Some oc
            \<and> sv_erase s' = map_option Some er))
       \<and> (\<not> b \<longrightarrow> s' = s)"
  using assms(3)
proof (cases rule: server_start_conn_cases)
  case (started k w1 addr bd k' w2 l bd' w3 ok w4 st)
  obtain r ty fl where sock: "do_sys K (SysSocket (en_af s) ty fl) w = (r, w1)"
    and k: "impl_fd (s_impl k) = rp_ret r" "rp_ret r \<noteq> -1"
    using socket_create_trace [OF started(3)] by (auto simp: impl_fd_def socket_impl_ctor_def split: if_splits)
  obtain e2 where bnd: "w_trace w2 = Sys (SysBind (rp_ret r) (sock_addr_of addr)) 0 e2 # w_trace w1"
    and bd: "impl_fd (b_impl bd) = rp_ret r" "b_local bd = addr"
    using bind_conn_trace [OF started(4)] k(1) by auto
  obtain e3 where lis: "w_trace w3 = Sys (SysListen (rp_ret r) (c_int (uint mc))) 0 e3 # w_trace w2"
    and l: "impl_fd (l_impl l) = rp_ret r" "listening_local l = addr" "listening_max_conn l = mc"
    using listen_trace [OF started(5)] bd by (auto simp: listening_local_def listening_max_conn_def)
  obtain x where add: "do_sys K (SysEpollCtl (ep_fd (en_poll s)) EPOLL_CTL_ADD (rp_ret r)
      (Some (flags_from_op op_READ, rp_ret r))) w3 = (x, w4)"
    using started(6) l by (auto simp: add_socket_def epoll_ctl_def split: prod.splits)
  have st: "st = StListening l" "w' = w4" using started(7) assms(1) by simp_all
  have tr: "w_trace w' = [Sys (SysEpollCtl (ep_fd (en_poll s)) EPOLL_CTL_ADD (rp_ret r)
        (Some (flags_from_op op_READ, rp_ret r))) (rp_ret x) (w_errno w4),
      Sys (SysListen (rp_ret r) (c_int (uint mc))) 0 e3, Sys (SysBind (rp_ret r) (sock_addr_of addr)) 0 e2,
      Sys (SysSocket (en_af s) ty fl) (rp_ret r) (w_errno w1)] @ w_trace w"
    using do_sys_trace [OF sock] do_sys_trace [OF add] bnd lis st by simp
  have "en_state s' = StListening l \<and> state_fd (en_state s') = rp_ret r
      \<and> listening_local l = addr \<and> listening_max_conn l = mc
      \<and> ob_handlers (en_obs s') = server_handlers \<and> sv_on_conn s' = Some oc \<and> sv_erase s' = map_option Some er"
    using started(8) st l server_register_empty [OF assms(2)] by simp
  with tr k(2) started(2,9) show ?thesis by blast
qed simp_all

text \<open>
  C17: Starting an idle connection based server that has no handlers yet either fails and leaves
  it as it was, or has made exactly the calls socket, bind, listen and epoll add for reading, in
  this order and on one descriptor, with the bytes of the parsed address and the given backlog,
  holds the listening socket, which reports both, and has its handlers, the connection callback
  and the callback that erases a connection registered as they were given.
\<close>

theorem server_start_listens:
  assumes "en_state s = StIdle None" and "ob_handlers (en_obs s) = Map.empty"
    and "server_start_conn K N (epoll_traits K) pr address prt mc oc er s w = (b, s', w')"
  shows "(b \<longrightarrow> (\<exists>addr fd ty fl e1 e2 e3 x e4 l.
            from_string_and_port N (w_junk w) address prt = Some addr
            \<and> w_trace w' =
              [Sys (SysEpollCtl (ep_fd (en_poll s)) EPOLL_CTL_ADD fd (Some (flags_from_op op_READ, fd))) x e4,
               Sys (SysListen fd (c_int (uint mc))) 0 e3, Sys (SysBind fd (sock_addr_of addr)) 0 e2,
               Sys (SysSocket (en_af s) ty fl) fd e1] @ w_trace w
            \<and> fd \<noteq> -1 \<and> en_state s' = StListening l \<and> state_fd (en_state s') = fd
            \<and> listening_local l = addr \<and> listening_max_conn l = mc
            \<and> ob_handlers (en_obs s') = server_handlers \<and> sv_on_conn s' = Some oc
            \<and> sv_erase s' = map_option Some er))
       \<and> (\<not> b \<longrightarrow> s' = s)"
  using assms by (rule server_start_calls)

definition sample_server :: "epoll_t server" where
  "sample_server = server_ctor \<lparr>ep_fd = 3, ep_max_events = 10\<rparr> ipv4 None"

lemma sample_server_simps [simp]:
  "en_state sample_server = StIdle None" "ob_handlers (en_obs sample_server) = Map.empty"
  "en_af sample_server = ipv4" "idle sample_server" "en_poll sample_server = \<lparr>ep_fd = 3, ep_max_events = 10\<rparr>"
  "ob_unhandled (en_obs sample_server) = None"
  by (simp_all add: sample_server_def server_ctor_def endpoint_ctor_def endpoint.defs observer_ctor_def idle_def)

lemma sample_address: "\<exists>a. from_string_and_port sample_inet junk ''aaaaaaaa'' prt = Some a \<and> is_ipv4 (ap_addr a)"
  by (simp add: from_string_and_port_def create_def init_def parser_def sample_inet_def inet_consts Let_def
      c_str_def addr_bytes_def is_ipv4_def)

lemma sample_server_starts:
  "\<exists>s' w'. server_start_conn counting_os sample_inet (epoll_traits counting_os) tcp ''aaaaaaaa'' 7777 5 (Some 0)
     (Some 1) sample_server (init_world []) = (True, s', w')"
proof -
  obtain a where "from_string_and_port sample_inet (\<lambda>_. 0) ''aaaaaaaa'' 7777 = Some a" "is_ipv4 (ap_addr a)"
    using sample_address by blast
  then show ?thesis
    by (simp add: server_start_conn_def mbind_obj2_def mbind_obj_def socket_create_def impl_open_def do_sys_def
        counting_os_def tcp_def answer_def Let_def impl_default_def move_impl_def bind_conn_def impl_bind_def
        bind_addr_def binded_ctor_def binded_listen_def impl_listen_def listening_ctor_def is_ipv4_def
        add_socket_def epoll_ctl_def)
qed

theorem server_start_listens_witness:
  "\<exists>s' w' l. server_start_conn counting_os sample_inet (epoll_traits counting_os) tcp ''aaaaaaaa'' 7777 5 (Some 0)
     (Some 1) sample_server (init_world []) = (True, s', w') \<and> en_state s' = StListening l \<and> length (w_trace w') = 4"
proof -
  obtain s' w' where st: "server_start_conn counting_os sample_inet (epoll_traits counting_os) tcp ''aaaaaaaa'' 7777 5
    (Some 0) (Some 1) sample_server (init_world []) = (True, s', w')" using sample_server_starts by blast
  from server_start_listens [OF _ _ st] st show ?thesis by auto
qed

lemma accounts_binded_dtor:
  "posix_fds K live \<Longrightarrow> accounts live w (impl_fds (b_impl b)) (binded_dtor K b w) {}"
  using accounts_destroy [of K live w "b_impl b" "{}"] by (simp add: binded_dtor_def)

lemma accounts_socket_dtor:
  "posix_fds K live \<Longrightarrow> accounts live w (impl_fds (s_impl s)) (socket_dtor K s w) {}"
  using accounts_destroy [of K live w "s_impl s" "{}"] by (simp add: socket_dtor_def)

theorem failed_server_start_leaves_nothing:
  assumes "posix_fds K live" and "ledger_ok live w"
    and "server_start_conn K N (epoll_traits K) pr address prt mc oc er s w = (False, s', w')"
  shows "s' = s \<and> open_fds (w_trace w') = open_fds (w_trace w)"
proof -
  note quiet = accounts_quiet [OF assms(1)]
  have "accounts live w {} w' {} \<and> s' = s"
    using assms(3)
  proof (cases rule: server_start_conn_cases)
    case failed
    with accounts_create [OF assms(1) failed(2), of "{}"] show ?thesis by simp
  next
    case (unbound k w1 addr w2)
    have "accounts live w {} w1 (impl_fds (s_impl k))"
      using accounts_create [OF assms(1) unbound(2), of "{}"] by simp
    moreover have "accounts live w1 (impl_fds (s_impl k)) w2 (impl_fds (s_impl k))"
      using bind_conn_fds [OF unbound(3)] by (simp add: quiet)
    ultimately show ?thesis
      using accounts_socket_dtor [OF assms(1)] unbound(4,6) by (blast intro: accounts_trans)
  next
    case (deaf k w1 addr bd k' w2 w3)
    have bd: "impl_fds (b_impl bd) = impl_fds (s_impl k)" using bind_conn_fds [OF deaf(3)] by simp
    have "accounts live w {} w1 (impl_fds (b_impl bd))"
      using accounts_create [OF assms(1) deaf(2), of "{}"] bd by simp
    moreover have "accounts live w1 (impl_fds (b_impl bd)) w2 (impl_fds (b_impl bd))"
      "accounts live w2 (impl_fds (b_impl bd)) w3 (impl_fds (b_impl bd))"
      using bind_conn_fds [OF deaf(3)] listen_fds [OF deaf(4)] by (simp_all add: quiet)
    ultimately show ?thesis
      using accounts_binded_dtor [OF assms(1)] deaf(5,7) by (blast intro: accounts_trans)
  qed (simp_all add: accounts_refl)
  with assms(2) show ?thesis by (simp add: accounts_def)
qed

definition no_listen_os :: "int list os" where
  "no_listen_os k c = (case c of SysListen fd n \<Rightarrow> (failure 98, k) | _ \<Rightarrow> counting_os k c)"

lemma no_listen_os_posix: "posix_fds no_listen_os set"
  using counting_os_posix unfolding posix_fds_def no_listen_os_def
  by (auto split: sys_call.splits)

theorem failed_server_start_leaves_nothing_witness:
  "open_fds (w_trace (snd (snd (server_start_conn no_listen_os sample_inet (epoll_traits no_listen_os) tcp
     ''aaaaaaaa'' 7777 5 (Some 0) (Some 1) sample_server (init_world []))))) = {}"
proof -
  obtain b s' w' where st: "server_start_conn no_listen_os sample_inet (epoll_traits no_listen_os) tcp
     ''aaaaaaaa'' 7777 5 (Some 0) (Some 1) sample_server (init_world []) = (b, s', w')" using prod_cases3 by blast
  have "b = False"
    using st
  proof (cases rule: server_start_conn_cases)
    case (started k w1 addr bd k' w2 l bd' w3 ok w4 st)
    from started(5) show ?thesis
      by (simp add: binded_listen_def impl_listen_def do_sys_def no_listen_os_def failure_def
          split: option.splits prod.splits if_splits)
  qed simp_all
  moreover have "ledger_ok set (init_world [])" by (simp add: ledger_ok_def)
  ultimately show ?thesis
    using failed_server_start_leaves_nothing [OF no_listen_os_posix _ st [unfolded \<open>b = False\<close>]] st by simp
qed

subsection \<open>Events\<close>

definition sapp_ok :: "('p, 'k) server_app \<Rightarrow> bool" where
  "sapp_ok A \<longleftrightarrow>
     (\<forall>cb acc s w ex rest s' w'. sapp_conn A cb acc (s, w) = (ex, rest, (s', w')) \<longrightarrow>
        s' = s \<and> ex \<noteq> Some BadVariantAccess)
   \<and> (\<forall>cb r s w ex s' w'. sapp_msg A cb r (s, w) = (ex, (s', w')) \<longrightarrow> s' = s \<and> ex \<noteq> Some BadVariantAccess)
   \<and> (\<forall>cb fd s w ex s' w'. sapp_close A cb fd (s, w) = (ex, (s', w')) \<longrightarrow> s' = s \<and> ex \<noteq> Some BadVariantAccess)
   \<and> (\<forall>cb evs s w ex s' w'. sapp_unhandled A cb evs (s, w) = (ex, (s', w')) \<longrightarrow>
        s' = s \<and> ex \<noteq> Some BadVariantAccess)"

lemma sapp_okD:
  assumes "sapp_ok A"
  shows "sapp_conn A cb acc (s, w) = (ex, rest, (s', w')) \<Longrightarrow> s' = s \<and> ex \<noteq> Some BadVariantAccess"
    and "sapp_msg A cb r (s, w) = (ex, (s', w')) \<Longrightarrow> s' = s \<and> ex \<noteq> Some BadVariantAccess"
    and "sapp_close A cb fd (s, w) = (ex, (s', w')) \<Longrightarrow> s' = s \<and> ex \<noteq> Some BadVariantAccess"
    and "sapp_unhandled A cb evs (s, w) = (ex, (s', w')) \<Longrightarrow> s' = s \<and> ex \<noteq> Some BadVariantAccess"
  using assms unfolding sapp_ok_def by metis+

definition server_ok :: "proto \<Rightarrow> 'p server \<Rightarrow> bool" where
  "server_ok pr s \<longleftrightarrow>
     (en_state s = StIdle None \<and> ob_handlers (en_obs s) = Map.empty)
   \<or> (state_fds (en_state s) \<noteq> {} \<and> ob_handlers (en_obs s) = server_handlers
      \<and> (if is_connectionless pr then \<exists>a. en_state s = StActive a else \<exists>l. en_state s = StListening l))"

text \<open>
  A handler leaves the server as it is, and finds the alternative it asks for.
\<close>

lemma call_erase_keeps:
  "call_erase A fd (s, w) = (ex, (s', w')) \<Longrightarrow> sapp_ok A \<Longrightarrow> s' = s \<and> ex \<noteq> Some BadVariantAccess"
  by (auto simp: call_erase_def split: option.splits dest: sapp_okD(3))

lemma call_on_msg_keeps:
  "call_on_msg A r (s, w) = (ex, (s', w')) \<Longrightarrow> sapp_ok A \<Longrightarrow> s' = s \<and> ex \<noteq> Some BadVariantAccess"
  by (auto simp: call_on_msg_def split: option.splits dest: sapp_okD(2))

lemma call_on_conn_keeps:
  "call_on_conn A acc (s, w) = (ex, rest, (s', w')) \<Longrightarrow> sapp_ok A \<Longrightarrow> s' = s \<and> ex \<noteq> Some BadVariantAccess"
  by (auto simp: call_on_conn_def split: option.splits dest: sapp_okD(1))

lemma accept_one_keeps:
  assumes "accept_one K PT A l (s, w) = (ex, (s', w'))" and "sapp_ok A"
  shows "s' = s \<and> ex \<noteq> Some BadVariantAccess"
  using assms
  by (auto simp: accept_one_def split: prod.splits option.splits dest: call_on_conn_keeps)

lemma server_call_keeps:
  assumes "server_call K PT A pr h fd (s, w) = (ex, (s', w'))" and "sapp_ok A"
  shows "s' = s \<and> (server_ok pr s \<and> h \<in> ran (ob_handlers (en_obs s)) \<longrightarrow> ex \<noteq> Some BadVariantAccess)"
proof (cases h)
  case SErase
  with assms show ?thesis by (auto split: prod.splits dest: call_erase_keeps)
next
  case SReadReady
  show ?thesis
  proof (cases "fd = get_fd s \<and> \<not> is_connectionless pr")
    case True
    show ?thesis
    proof (cases "\<exists>l. en_state s = StListening l")
      case lis: True
      with True SReadReady assms accept_one_keeps show ?thesis by (auto dest: accept_one_keeps)
    next
      case False
      then have "\<not> (server_ok pr s \<and> h \<in> ran (ob_handlers (en_obs s)))"
        using True by (auto simp: server_ok_def)
      moreover have "s' = s"
        using assms(1) True False SReadReady by (auto split: sock_state.splits)
      ultimately show ?thesis by blast
    qed
  next
    case False
    with SReadReady assms show ?thesis by (auto split: if_splits dest: call_on_msg_keeps)
  qed
qed

interpretation sv: exception_contract "\<lambda>(s, w). sapp_ok A \<longrightarrow> s = s0"
  "\<lambda>t (s, w). case pt_proceed PT (en_poll s) t w of (evs, w1) \<Rightarrow> (evs, (s, w1))"
  "server_call K PT A pr" "server_unhandled A" "en_obs s0"
  "\<lambda>e. sapp_ok A \<and> server_ok pr s0 \<longrightarrow> e \<noteq> BadVariantAccess" for K PT A pr s0
proof unfold_locales
  fix t s evs s1
  assume "(case s of (s, w) \<Rightarrow> case pt_proceed PT (en_poll s) t w of (evs, w1) \<Rightarrow> (evs, (s, w1))) = (evs, s1)"
    and "case s of (s, w) \<Rightarrow> sapp_ok A \<longrightarrow> s = s0"
  then show "case s1 of (s, w) \<Rightarrow> sapp_ok A \<longrightarrow> s = s0" by (auto split: prod.splits)
next
  fix h fd s ex s1
  assume "server_call K PT A pr h fd s = (ex, s1)" and "case s of (s, w) \<Rightarrow> sapp_ok A \<longrightarrow> s = s0"
  then show "case s1 of (s, w) \<Rightarrow> sapp_ok A \<longrightarrow> s = s0"
    by (cases s; cases s1) (auto dest: server_call_keeps)
next
  fix cb evs s ex s1
  assume "server_unhandled A cb evs s = (ex, s1)" and "case s of (s, w) \<Rightarrow> sapp_ok A \<longrightarrow> s = s0"
  then show "case s1 of (s, w) \<Rightarrow> sapp_ok A \<longrightarrow> s = s0"
    by (cases s; cases s1) (auto simp: server_unhandled_def dest: sapp_okD(4))
next
  fix h fd s e s1
  assume "server_call K PT A pr h fd s = (Some e, s1)" "h \<in> ran (ob_handlers (en_obs s0))"
    "case s of (s, w) \<Rightarrow> sapp_ok A \<longrightarrow> s = s0"
  then show "sapp_ok A \<and> server_ok pr s0 \<longrightarrow> e \<noteq> BadVariantAccess"
    by (cases s; cases s1) (auto dest: server_call_keeps)
next
  fix cb evs s e s1
  assume "server_unhandled A cb evs s = (Some e, s1)" "case s of (s, w) \<Rightarrow> sapp_ok A \<longrightarrow> s = s0"
  then show "sapp_ok A \<and> server_ok pr s0 \<longrightarrow> e \<noteq> BadVariantAccess"
    by (cases s; cases s1) (auto simp: server_unhandled_def dest: sapp_okD(4))
qed

lemma server_proceed_keeps:
  assumes "server_proceed K PT A pr t (s, w) = (res, (s', w'))" and "sapp_ok A"
  shows "s' = s" and "server_ok pr s \<Longrightarrow> res = Inl exs \<Longrightarrow> BadVariantAccess \<notin> set exs"
proof -
  have "case (s', w') of (s1, w) \<Rightarrow> sapp_ok A \<longrightarrow> s1 = s"
    using assms(1) unfolding server_proceed_def fst_conv by (rule sv.proceed_keeps) simp
  with assms(2) show "s' = s" by simp
  show "BadVariantAccess \<notin> set exs" if "server_ok pr s" "res = Inl exs"
    using sv.proceed_throws [OF assms(1) [unfolded server_proceed_def fst_conv that(2)]] assms(2) that(1) by auto
qed

text \<open>Both versions of \<^verbatim>\<open>start\<close> keep the invariant.\<close>

lemma created_fds: "socket_create K pr af w = (Some s, w1) \<Longrightarrow> impl_fds (s_impl s) \<noteq> {}"
  by (drule socket_create_trace) (auto simp: impl_fds_def socket_impl_ctor_def split: if_splits)

lemma server_ok_started:
  assumes "server_ok pr s" and "assign_state K (en_state s) new w = (st, w')" and "state_fds new \<noteq> {}"
    and "if is_connectionless pr then \<exists>a. new = StActive a else \<exists>l. new = StListening l"
    and "idle s"
  shows "server_ok pr ((server_register_cbs s)\<lparr>en_state := st, sv_on_conn := oc, sv_erase := er\<rparr>)"
proof -
  have empty: "en_state s = StIdle None" "ob_handlers (en_obs s) = Map.empty"
    using assms(1,5) by (auto simp: server_ok_def idle_def split: if_splits)
  have "st = new" using assms(2) empty by (cases new) (auto split: option.splits)
  with assms(3,4) server_register_empty [OF empty(2)] show ?thesis by (simp add: server_ok_def)
qed

lemma server_ok_start_conn:
  assumes "server_start_conn K N PT pr address prt mc oc er s w = (b, s', w')" and "server_ok pr s"
    and "\<not> is_connectionless pr"
  shows "server_ok pr s'"
  using assms(1)
proof (cases rule: server_start_conn_cases)
  case (started k w1 addr bd k' w2 l bd' w3 ok w4 st)
  have "state_fds (StListening l) \<noteq> {}"
    using bind_conn_fds [OF started(4)] listen_fds [OF started(5)] created_fds [OF started(3)] by simp
  from server_ok_started [OF assms(2) started(7) this _ started(1)] started(8) assms(3)
  show ?thesis by simp
qed (use assms(2) in simp_all)

lemma server_ok_start_less:
  assumes "server_start_less K N PT pr address prt oc er s w = (b, s', w')" and "server_ok pr s"
    and "is_connectionless pr"
  shows "server_ok pr s'"
proof (cases "if idle s then from_string_and_port N (w_junk w) address prt else None")
  case None
  with assms(1,2) show ?thesis by (simp add: server_start_less_def)
next
  case (Some addr)
  then have idle: "idle s" by (simp split: if_splits)
  obtain created w1 where created: "socket_create K pr (en_af s) w = (created, w1)" by fastforce
  obtain res w2 where bound: "mbind_obj created (\<lambda>k. bind_less K k addr) (socket_dtor K) w1 = (res, w2)"
    by fastforce
  show ?thesis
  proof (cases res)
    case None
    with assms(1,2) Some created bound show ?thesis by (simp add: server_start_less_def)
  next
    case a: (Some a)
    then obtain k k' w3 where k: "created = Some k" "bind_less K k addr w1 = (Some a, k', w3)"
      using bound by (cases created) (auto split: prod.splits)
    obtain ok w4 where added: "pt_add PT (en_poll s) (impl_fd (a_impl a)) op_READ w2 = (ok, w4)" by fastforce
    obtain st w5 where assigned: "assign_state K (en_state s) (StActive a) w4 = (st, w5)" by fastforce
    have "state_fds (StActive a) \<noteq> {}"
      using bind_less_fds [OF k(2)] created_fds created k(1) by simp
    note ok = server_ok_started [OF assms(2) assigned this _ idle, where oc = "Some oc" and er = "Some er"]
    have "s' = (server_register_cbs s)\<lparr>en_state := st, sv_on_conn := Some oc, sv_erase := Some er\<rparr>"
      using assms(1) Some created bound a added assigned by (simp add: server_start_less_def Let_def)
    with ok assms(3) show ?thesis by simp
  qed
qed

datatype server_op =
  SStartConn string size_t uint32 "nat option" "nat option"
| SStartLess string size_t "nat option" "nat option"
| SProceed int

text \<open>A protocol has one of the two versions of \<^verbatim>\<open>start\<close>; the other is not a program.\<close>

fun server_step ::
  "'k os \<Rightarrow> inet \<Rightarrow> ('p, 'k world) poll_traits \<Rightarrow> ('p, 'k) server_app \<Rightarrow> proto \<Rightarrow> server_op
   \<Rightarrow> 'p server \<times> 'k world \<Rightarrow> 'p server \<times> 'k world" where
  "server_step K N PT A pr (SStartConn a p m oc er) (s, w) =
     (if is_connectionless pr then (s, w) else snd (server_start_conn K N PT pr a p m oc er s w))"
| "server_step K N PT A pr (SStartLess a p oc er) (s, w) =
     (if is_connectionless pr then snd (server_start_less K N PT pr a p oc er s w) else (s, w))"
| "server_step K N PT A pr (SProceed t) (s, w) = snd (server_proceed K PT A pr t (s, w))"

definition server_run ::
  "'k os \<Rightarrow> inet \<Rightarrow> ('p, 'k world) poll_traits \<Rightarrow> ('p, 'k) server_app \<Rightarrow> proto \<Rightarrow> server_op list
   \<Rightarrow> 'p server \<times> 'k world \<Rightarrow> 'p server \<times> 'k world" where
  "server_run K N PT A pr ops x = fold (server_step K N PT A pr) ops x"

lemma server_step_ok:
  assumes "server_step K N PT A pr op (s, w) = (s', w')" and "server_ok pr s" and "sapp_ok A"
  shows "server_ok pr s'"
proof (cases op)
  case (SStartConn a p m oc er)
  obtain b s1 w1 where "server_start_conn K N PT pr a p m oc er s w = (b, s1, w1)" using prod_cases3 by blast
  with SStartConn assms server_ok_start_conn [OF this] show ?thesis by (auto split: if_splits)
next
  case (SStartLess a p oc er)
  obtain b s1 w1 where "server_start_less K N PT pr a p oc er s w = (b, s1, w1)" using prod_cases3 by blast
  with SStartLess assms server_ok_start_less [OF this] show ?thesis by (auto split: if_splits)
next
  case (SProceed t)
  obtain r s1 w1 where p: "server_proceed K PT A pr t (s, w) = (r, (s1, w1))" using prod_cases3 by blast
  from SProceed assms server_proceed_keeps(1) [OF p] p show ?thesis by simp
qed

lemma server_run_ok:
  "server_run K N PT A pr ops (s, w) = (s', w') \<Longrightarrow> server_ok pr s \<Longrightarrow> sapp_ok A \<Longrightarrow> server_ok pr s'"
proof (induction ops arbitrary: s w)
  case (Cons op ops)
  obtain s1 w1 where st: "server_step K N PT A pr op (s, w) = (s1, w1)" by fastforce
  show ?case
    using Cons.IH [of s1 w1] Cons.prems server_step_ok [OF st] st by (simp add: server_run_def)
qed (simp add: server_run_def)

text \<open>
  C15: After any sequence of starts and proceeds the server's state is one its protocol allows,
  and the read handler never asks the variant for a listening socket it does not hold: proceed
  leaves the server as it was and reports no bad variant access.
\<close>

theorem server_never_accesses_a_wrong_alternative:
  assumes "sapp_ok A"
    and "server_run K N PT A pr ops (server_ctor p af unhandled, w) = (s, w1)"
    and "server_proceed K PT A pr t (s, w1) = (res, (s', w2))"
  shows "server_ok pr s \<and> s' = s \<and> (\<forall>exs. res = Inl exs \<longrightarrow> BadVariantAccess \<notin> set exs)"
proof -
  have "server_ok pr (server_ctor p af unhandled)"
    by (simp add: server_ok_def server_ctor_def endpoint_ctor_def endpoint.defs observer_ctor_def)
  with server_run_ok [OF assms(2)] assms(1) have "server_ok pr s" by blast
  with server_proceed_keeps [OF assms(3,1)] show ?thesis by blast
qed

text \<open>The application of the witness keeps every connection it is given and does nothing else.\<close>

definition keep_app :: "('p, 'k) server_app" where
  "keep_app = \<lparr>sapp_conn = (\<lambda>cb acc s. (None, snd (accepted_move acc), s)), sapp_msg = (\<lambda>cb r s. (None, s)),
     sapp_close = (\<lambda>cb fd s. (None, s)), sapp_unhandled = (\<lambda>cb evs s. (None, s))\<rparr>"

lemma keep_app_ok: "sapp_ok keep_app"
  by (simp add: sapp_ok_def keep_app_def)

theorem server_never_accesses_a_wrong_alternative_witness:
  "server_ok tcp (fst (server_run counting_os sample_inet (epoll_traits counting_os) keep_app tcp
     [SStartConn ''aaaaaaaa'' 7777 5 (Some 0) (Some 1), SProceed 50] (sample_server, init_world [])))"
proof -
  obtain s w1 where run: "server_run counting_os sample_inet (epoll_traits counting_os) keep_app tcp
     [SStartConn ''aaaaaaaa'' 7777 5 (Some 0) (Some 1), SProceed 50] (sample_server, init_world []) = (s, w1)"
    by fastforce
  obtain res s' w2 where p: "server_proceed counting_os (epoll_traits counting_os) keep_app tcp 50 (s, w1)
      = (res, (s', w2))" using prod_cases3 by blast
  from server_never_accesses_a_wrong_alternative [OF keep_app_ok run [unfolded sample_server_def] p] run
  show ?thesis by simp
qed

subsection \<open>Accepting\<close>

fun is_accept :: "event \<Rightarrow> bool" where
  "is_accept (Sys (SysAccept4 fd al fl) r e) = True"
| "is_accept _ = False"

definition accepts :: "'k world \<Rightarrow> nat" where
  "accepts w = length (filter is_accept (w_trace w))"

lemma accepts_adds: "adds (\<lambda>e. \<not> is_accept e) w w' \<Longrightarrow> accepts w' = accepts w"
  by (auto simp: adds_def accepts_def filter_empty_conv)

lemma accepts_destroy: "accepts (destroy_impl K s w) = accepts w"
proof (rule accepts_adds)
  show "adds (\<lambda>e. \<not> is_accept e) w (destroy_impl K s w)"
    by (auto simp: destroy_impl_def impl_close_def split: option.splits prod.splits intro: adds_do_sys)
qed

lemma accepts_mark_ubs [simp]: "accepts (mark_ubs us w) = accepts w"
  by (simp add: accepts_def filter_empty_conv)

lemma accepts_accept_addr:
  assumes "accept_addr K al parse s w = (acc, w1)" and "si_fd s = Some fd"
    and "\<And>obj w. \<exists>a us. parse obj w = (Some a, mark_ubs us w)"
  shows "accepts w1 = Suc (accepts w)"
proof -
  obtain r w0 where d: "do_sys K (SysAccept4 fd al SOCK_NONBLOCK) w = (r, w0)" by fastforce
  have "accepts w0 = Suc (accepts w)" using do_sys_trace [OF d] by (simp add: accepts_def)
  moreover obtain a us where "parse (overlay (replicate al 0) (rp_addr r)) w0 = (Some a, mark_ubs us w0)"
    using assms(3) by blast
  ultimately show ?thesis using assms(1,2) d by (auto simp: accept_addr_def split: if_splits)
qed

lemma accepts_accept:
  assumes "listening_accept K l w = (acc, w1)" and "si_fd (l_impl l) = Some fd"
    and "si_family (l_impl l) = ipv4 \<or> si_family (l_impl l) = ipv6"
  shows "accepts w1 = Suc (accepts w)"
proof -
  obtain a where ia: "impl_accept K (l_impl l) w = (a, w1)"
    using assms(1) by (auto simp: listening_accept_def split: prod.splits)
  have "\<exists>a us. parse_addr4 obj w = (Some a, mark_ubs us w)"
    "\<exists>a us. parse_addr6 obj w = (Some a, mark_ubs us w)" for obj and w :: "'a world"
    by (auto simp: parse_addr4_def parse_addr6_def split: prod.splits)
  with ia assms(2,3) show ?thesis
    by (auto simp: impl_accept_def split: if_splits intro: accepts_accept_addr)
qed

text \<open>A run of \<^verbatim>\<open>proceed\<close> with one event.\<close>

lemma server_proceed_one:
  assumes "pt_proceed PT (en_poll s) t w = ([e], w1)" and "ob_handlers (en_obs s) = server_handlers"
    and "ob_unhandled (en_obs s) = None"
    and "run_calls (server_call K PT A pr) (ev_fd e) (calls_of (en_obs s) e) (s, w1) = (n, ex, s2)"
  shows "server_proceed K PT A pr t (s, w) = (case ex of Some x \<Rightarrow> Inl [x] | None \<Rightarrow> Inr True, s2)"
  using assms
  by (simp add: server_proceed_def observer_proceed_def handle_event_spec handle_unhandled_def
      add_exception_def Let_def split: option.splits)

lemma epoll_not_accept: "is_epoll e \<Longrightarrow> \<not> is_accept e"
  by (cases e rule: is_epoll.cases) auto

lemma epoll_accepts:
  "epoll_proceed K ep t w = (evs, w1) \<Longrightarrow> accepts w1 = accepts w"
  "add_socket K ep fd op w = (ok, w1) \<Longrightarrow> accepts w1 = accepts w"
proof -
  have "accepts (snd (epoll_proceed K ep t w)) = accepts w"
    by (rule accepts_adds) (rule adds_mono [OF epoll_proceed_adds], erule epoll_not_accept)
  then show "epoll_proceed K ep t w = (evs, w1) \<Longrightarrow> accepts w1 = accepts w" by simp
  have "accepts (snd (add_socket K ep fd op w)) = accepts w"
    by (rule accepts_adds) (rule adds_mono [OF epoll_adds(2)], erule epoll_not_accept)
  then show "add_socket K ep fd op w = (ok, w1) \<Longrightarrow> accepts w1 = accepts w" by simp
qed

lemma accept_one_accepts:
  assumes "accept_one K (epoll_traits K) A l (s, w) = (ex, (s', w'))" and "si_fd (l_impl l) = Some fd"
    and "si_family (l_impl l) = ipv4 \<or> si_family (l_impl l) = ipv6"
    and "\<forall>cb acc s w. adds (\<lambda>e. \<not> is_accept e) w (snd (snd (snd (sapp_conn A cb acc (s, w)))))"
  shows "accepts w' = Suc (accepts w)"
proof -
  obtain acc w1 where la: "listening_accept K l w = (acc, w1)" by fastforce
  note n1 = accepts_accept [OF la assms(2,3)]
  show ?thesis
  proof (cases acc)
    case None
    with assms(1) la n1 show ?thesis by (simp add: accept_one_def)
  next
    case (Some a)
    obtain ok w2 where add: "add_socket K (en_poll s) (impl_fd (a_impl a)) op_READ w1 = (ok, w2)" by fastforce
    note n2 = epoll_accepts(2) [OF add]
    obtain remote where remote: "a_remote a = Some remote"
      using la Some by (auto simp: listening_accept_def active_ctor_def split: prod.splits option.splits
          simp: mbind_eq_Some move_impl_def)
    obtain ex' rest s3 w3 where cb: "call_on_conn A (fst (accepted_ctor remote a)) (s, w2) = (ex', rest, (s3, w3))"
      using prod_cases4 by blast
    have n3: "accepts w3 = accepts w2"
    proof (rule accepts_adds)
      have "adds (\<lambda>e. \<not> is_accept e) w2 (upcall cb w2)" for cb by (simp add: adds_upcall)
      then show "adds (\<lambda>e. \<not> is_accept e) w2 w3"
        using cb assms(4) [rule_format] by (auto simp: call_on_conn_def split: option.splits intro: adds_trans)
          (metis adds_trans snd_conv)
    qed
    have "w' = accepted_dtor K rest w3"
      using assms(1) la Some add remote cb by (simp add: accept_one_def)
    with n1 n2 n3 show ?thesis by (simp add: accepted_dtor_def active_dtor_def accepts_destroy)
  qed
qed

theorem one_accept_per_readable_event:
  assumes "ob_handlers (en_obs s) = server_handlers" and "ob_unhandled (en_obs s) = None"
    and "\<not> is_connectionless pr" and "en_state s = StListening l" and "si_fd (l_impl l) = Some fd"
    and "si_family (l_impl l) = ipv4 \<or> si_family (l_impl l) = ipv6"
    and "\<forall>cb acc s w. adds (\<lambda>e. \<not> is_accept e) w (snd (snd (snd (sapp_conn A cb acc (s, w)))))"
    and "epoll_proceed K (en_poll s) t w = ([\<lparr>ev_fd = fd, ev_type = READ_READY\<rparr>], w1)"
    and "server_proceed K (epoll_traits K) A pr t (s, w) = (res, (s', w'))"
  shows "accepts w' = Suc (accepts w)"
proof -
  let ?e = "\<lparr>ev_fd = fd, ev_type = READ_READY\<rparr>"
  have calls: "calls_of (en_obs s) ?e = [SReadReady]"
    using assms(1) by (simp add: calls_of_def event_order_def) (simp add: event_type_defs)
  have fd: "fd = get_fd s" using assms(4,5) by (simp add: get_fd_def impl_fd_def)
  obtain ex s2 w2 where one: "accept_one K (epoll_traits K) A l (s, w1) = (ex, (s2, w2))"
    using prod_cases3 by blast
  have "w' = w2"
    using server_proceed_one [of "epoll_traits K" s t w ?e w1 K A pr, OF _ assms(1,2)] assms(3,4,8,9) calls one fd
    by (cases ex) auto
  with epoll_accepts(1) [OF assms(8)] accept_one_accepts [OF one assms(5-7)] show ?thesis by simp
qed

text \<open>The witness: the listener is readable; the system would hand out any number of connections.\<close>

definition pending_os :: "nat os" where
  "pending_os k c =
     (case c of
        SysEpollWait ep m t \<Rightarrow> ((answer 1)\<lparr>rp_events := [(1, 7)]\<rparr>, k)
      | SysAccept4 fd al fl \<Rightarrow> ((answer (int k))\<lparr>rp_addr := replicate 16 0\<rparr>, k + 1)
      | _ \<Rightarrow> (answer 0, k))"

definition listening_server :: "epoll_t server" where
  "listening_server =
     (server_register_cbs sample_server)
       \<lparr>en_state := StListening \<lparr>l_impl = socket_impl_ctor 7 ipv4, l_local = sample_addr 7777, l_max_conn = 5\<rparr>,
        sv_on_conn := Some (Some 0), sv_erase := Some (Some 1)\<rparr>"

lemma listening_server_simps [simp]:
  "ob_handlers (en_obs listening_server) = server_handlers" "ob_unhandled (en_obs listening_server) = None"
  "en_state listening_server =
     StListening \<lparr>l_impl = socket_impl_ctor 7 ipv4, l_local = sample_addr 7777, l_max_conn = 5\<rparr>"
  "en_poll listening_server = \<lparr>ep_fd = 3, ep_max_events = 10\<rparr>"
  "sv_on_conn listening_server = Some (Some 0)" "sv_erase listening_server = Some (Some 1)"
  by (simp_all add: listening_server_def server_register_empty)

lemma pending_events:
  "\<exists>w1. epoll_proceed pending_os \<lparr>ep_fd = 3, ep_max_events = 10\<rparr> 50 (init_world 20)
      = ([\<lparr>ev_fd = 7, ev_type = READ_READY\<rparr>], w1)"
  by (simp add: epoll_proceed_def pending_os_def do_sys_def c_int_def Let_def answer_def
      event_type_from_flags_def add_flag_def enum_or_def event_type_defs)

theorem one_accept_per_readable_event_witness:
  "accepts (snd (snd (server_proceed pending_os (epoll_traits pending_os) keep_app tcp 50
     (listening_server, init_world 20)))) = 1"
proof -
  obtain w1 where e: "epoll_proceed pending_os \<lparr>ep_fd = 3, ep_max_events = 10\<rparr> 50 (init_world 20)
      = ([\<lparr>ev_fd = 7, ev_type = READ_READY\<rparr>], w1)" using pending_events by blast
  obtain res s' w' where p: "server_proceed pending_os (epoll_traits pending_os) keep_app tcp 50
     (listening_server, init_world 20) = (res, (s', w'))" using prod_cases3 by blast
  have "accepts w' = Suc (accepts (init_world (20 :: nat)))"
    by (rule one_accept_per_readable_event [OF _ _ _ _ _ _ _ _ p, where fd = 7 and l =
        "\<lparr>l_impl = socket_impl_ctor 7 ipv4, l_local = sample_addr 7777, l_max_conn = 5\<rparr>"])
      (simp_all add: e socket_impl_ctor_def keep_app_def)
  then show ?thesis by (simp add: p accepts_def)
qed

lemma listening_accept_trace:
  assumes "listening_accept K l w = (Some a, w1)"
  obtains fd al fl r w0 us where "do_sys K (SysAccept4 fd al fl) w = (r, w0)" "rp_ret r \<noteq> -1"
    "w1 = mark_ubs us w0" "si_fd (a_impl a) = Some (rp_ret r)"
proof -
  obtain x where ia: "impl_accept K (l_impl l) w = (Some x, w1)" "si_fd (a_impl a) = si_fd (fst x)"
    using assms by (auto simp: listening_accept_def mbind_eq_Some active_ctor_def move_impl_def split: prod.splits)
  from impl_accept_trace [OF ia(1)] ia(2) show ?thesis
    by (auto simp: socket_impl_ctor_def intro: that)
qed

text \<open>
  After the accept handler the new descriptor is open exactly if the application moved the connection
  out of the object it was handed.
\<close>

theorem accepted_connection_has_one_owner:
  assumes "posix_fds K live" and "ledger_ok live w"
    and "listening_accept K l w = (Some a, w1)" and "a_remote a = Some remote"
    and "add_socket K (en_poll s) (impl_fd (a_impl a)) op_READ w1 = (ok, w2)"
    and "call_on_conn A (fst (accepted_ctor remote a)) (s, w2) = (ex, rest, (s3, w3))"
    and "via K quiet w2 w3" and "impl_fds (a_impl (as_sock rest)) \<subseteq> {impl_fd (a_impl a)}"
    and "accept_one K (epoll_traits K) A l (s, w) = (ex', (s', w'))"
  shows "impl_fd (a_impl a) \<notin> open_fds (w_trace w) \<and> ex' = ex
    \<and> open_fds (w_trace w') =
        open_fds (w_trace w) \<union> ({impl_fd (a_impl a)} - impl_fds (a_impl (as_sock rest)))"
proof -
  obtain fd al fl r w0 us where d: "do_sys K (SysAccept4 fd al fl) w = (r, w0)" and r: "rp_ret r \<noteq> -1"
    and w1: "w1 = mark_ubs us w0" and a: "si_fd (a_impl a) = Some (rp_ret r)"
    using listening_accept_trace [OF assms(3)] by blast
  have fresh: "rp_ret r \<notin> open_fds (w_trace w)" using do_sys_fresh [OF assms(1,2) d] r by simp
  have "open_fds (w_trace w1) = insert (rp_ret r) (open_fds (w_trace w))"
    using open_fds_do_sys [OF d] r by (simp add: w1 del: w_trace_mark_ubs)
  then have w3: "open_fds (w_trace w3) = insert (rp_ret r) (open_fds (w_trace w))"
    using via_quiet [OF assms(7)] via_quiet [OF via_sockets(1) [OF assms(5)]] by simp
  have fd: "impl_fd (a_impl a) = rp_ret r" using a by (simp add: impl_fd_def)
  have "w' = accepted_dtor K rest w3 \<and> ex' = ex"
    using assms(3-6,9) by (simp add: accept_one_def)
  then show ?thesis
    using fresh w3 assms(8) by (auto simp: fd accepted_dtor_def active_dtor_def open_fds_destroy)
qed

lemma pending_accept:
  "\<exists>a w1 remote. listening_accept counting_os \<lparr>l_impl = socket_impl_ctor 3 ipv4, l_local = sample_addr 7777,
       l_max_conn = 5\<rparr> (init_world []) = (Some a, w1) \<and> a_remote a = Some remote"
  by (auto simp: listening_accept_def impl_accept_def accept_addr_def do_sys_def counting_os_def answer_def
      socket_impl_ctor_def parse_addr4_def active_ctor_def move_impl_def Let_def split: prod.splits)

theorem accepted_connection_has_one_owner_witness:
  "\<exists>a w1. listening_accept counting_os \<lparr>l_impl = socket_impl_ctor 3 ipv4, l_local = sample_addr 7777,
       l_max_conn = 5\<rparr> (init_world []) = (Some a, w1)
     \<and> open_fds (w_trace (snd (snd (accept_one counting_os (epoll_traits counting_os) keep_app
          \<lparr>l_impl = socket_impl_ctor 3 ipv4, l_local = sample_addr 7777, l_max_conn = 5\<rparr>
          (listening_server, init_world []))))) = {impl_fd (a_impl a)}"
proof -
  let ?l = "\<lparr>l_impl = socket_impl_ctor 3 ipv4, l_local = sample_addr 7777, l_max_conn = 5\<rparr>"
  obtain a w1 remote where la: "listening_accept counting_os ?l (init_world []) = (Some a, w1)"
    and remote: "a_remote a = Some remote" using pending_accept by blast
  obtain ok w2 where add: "add_socket counting_os (en_poll listening_server) (impl_fd (a_impl a)) op_READ w1 = (ok, w2)"
    by fastforce
  obtain ex rest s3 w3 where cb: "call_on_conn keep_app (fst (accepted_ctor remote a)) (listening_server, w2)
      = (ex, rest, (s3, w3))" using prod_cases4 by blast
  have "via counting_os quiet w2 w3" "impl_fds (a_impl (as_sock rest)) = {}"
    using cb by (auto simp: call_on_conn_def keep_app_def accepted_move_def move_active_def move_impl_def
        impl_fds_def via_refl via_upcall split: prod.splits)
  moreover obtain ex' s' w' where "accept_one counting_os (epoll_traits counting_os) keep_app ?l
      (listening_server, init_world []) = (ex', (s', w'))" using prod_cases3 by blast
  moreover have "ledger_ok set (init_world [])" by (simp add: ledger_ok_def)
  ultimately show ?thesis
    using accepted_connection_has_one_owner [OF counting_os_posix _ la remote add cb] la by auto
qed

text \<open>
  A connection that ends is often reported with more than one terminal kind (\<^verbatim>\<open>EPOLLRDHUP\<close>
  with \<^verbatim>\<open>EPOLLHUP\<close>): the close callback runs for each of them.
\<close>

lemma run_erases:
  assumes "\<forall>fd s. fst (sapp_close A cb fd s) = None \<and> fst (snd (sapp_close A cb fd s)) = fst s
      \<and> adds (\<lambda>e. e \<noteq> Upcall cb) (snd s) (snd (snd (sapp_close A cb fd s)))"
    and "sv_erase s = Some (Some cb)"
    and "run_calls (server_call K (epoll_traits K) A pr) fd (replicate n SErase) (s, w) = (k, ex, (s', w'))"
  shows "k = n \<and> ex = None \<and> s' = s \<and> count_list (w_trace w') (Upcall cb) = count_list (w_trace w) (Upcall cb) + n"
  using assms(3)
proof (induction n arbitrary: w k)
  case (Suc n)
  obtain ok w1 where del: "del_socket K (en_poll s) fd w = (ok, w1)" by fastforce
  have "adds is_epoll w w1" using epoll_adds(4) [of w K "en_poll s" fd] del by simp
  then have c1: "count_list (w_trace w1) (Upcall cb) = count_list (w_trace w) (Upcall cb)"
    by (rule adds_count) simp
  obtain ex1 s2 w2 where cl: "sapp_close A cb fd (s, upcall cb w1) = (ex1, (s2, w2))" using prod_cases3 by blast
  have r: "ex1 = None" "s2 = s" and "adds (\<lambda>e. e \<noteq> Upcall cb) (upcall cb w1) w2"
    using assms(1) [rule_format, of fd "(s, upcall cb w1)"] cl by simp_all
  from adds_count [OF this(3)] c1
  have c2: "count_list (w_trace w2) (Upcall cb) = Suc (count_list (w_trace w) (Upcall cb))" by simp
  obtain m where "run_calls (server_call K (epoll_traits K) A pr) fd (replicate n SErase) (s, w2) = (m, ex, (s', w'))"
      "k = Suc m"
    using Suc.prems del cl r assms(2) by (auto simp: call_erase_def split: prod.splits)
  with Suc.IH c2 show ?case by auto
qed simp

theorem close_callback_runs_for_each_terminal_kind:
  assumes "ob_handlers (en_obs s) = server_handlers" and "ob_unhandled (en_obs s) = None"
    and "sv_erase s = Some (Some cb)"
    and "\<forall>fd s. fst (sapp_close A cb fd s) = None \<and> fst (snd (sapp_close A cb fd s)) = fst s
      \<and> adds (\<lambda>e. e \<noteq> Upcall cb) (snd s) (snd (snd (sapp_close A cb fd s)))"
    and "epoll_proceed K (en_poll s) t w = ([\<lparr>ev_fd = fd, ev_type = ty\<rparr>], w1)" and "ty AND READ_READY = 0"
    and "server_proceed K (epoll_traits K) A pr t (s, w) = (res, (s', w'))"
  shows "res = Inr True \<and> s' = s
    \<and> count_list (w_trace w') (Upcall cb) = count_list (w_trace w) (Upcall cb)
        + length (filter (\<lambda>tp. ty AND tp \<noteq> 0) [EXCEPTION, HANGUP, ERROR_EV, PEER_CLOSED])"
proof -
  let ?e = "\<lparr>ev_fd = fd, ev_type = ty\<rparr>"
  let ?n = "length (filter (\<lambda>tp. ty AND tp \<noteq> 0) [EXCEPTION, HANGUP, ERROR_EV, PEER_CLOSED])"
  have calls: "calls_of (en_obs s) ?e = replicate ?n SErase"
    using assms(1,6) by (simp add: calls_of_def event_order_def)
  obtain k ex s2 w2 where run: "run_calls (server_call K (epoll_traits K) A pr) fd (replicate ?n SErase) (s, w1)
      = (k, ex, (s2, w2))" using prod_cases4 by blast
  note r = run_erases [OF assms(4,3) run]
  have "(res, (s', w')) = (Inr True, (s2, w2))"
    using server_proceed_one [of "epoll_traits K" s t w ?e w1 K A pr, OF _ assms(1,2)] assms(5,7) calls run r by simp
  moreover have "adds is_epoll w w1" using epoll_proceed_adds [of w K "en_poll s" t] assms(5) by simp
  then have "count_list (w_trace w1) (Upcall cb) = count_list (w_trace w) (Upcall cb)"
    by (rule adds_count) simp
  ultimately show ?thesis using r by simp
qed

definition closed_os :: "nat os" where
  "closed_os k c =
     (case c of SysEpollWait ep m t \<Rightarrow> ((answer 1)\<lparr>rp_events := [(8208, 9)]\<rparr>, k) | _ \<Rightarrow> (answer 0, k))"

theorem close_callback_runs_for_each_terminal_kind_witness:
  "count_list (w_trace (snd (snd (server_proceed closed_os (epoll_traits closed_os) keep_app tcp 50
     (listening_server, init_world 0))))) (Upcall 1) = 2"
proof -
  obtain evs w1 where e: "epoll_proceed closed_os (en_poll listening_server) 50 (init_world 0) = (evs, w1)"
    by fastforce
  have evs: "evs = [\<lparr>ev_fd = 9, ev_type = enum_or HANGUP PEER_CLOSED\<rparr>]"
    using e by (auto simp: epoll_proceed_def closed_os_def do_sys_def c_int_def Let_def answer_def
        event_type_from_flags_def add_flag_def enum_or_def event_type_defs split: if_splits)
  obtain res s' w' where p: "server_proceed closed_os (epoll_traits closed_os) keep_app tcp 50
     (listening_server, init_world 0) = (res, (s', w'))" using prod_cases3 by blast
  have app: "\<forall>fd s. fst (sapp_close keep_app 1 fd s) = None \<and> fst (snd (sapp_close keep_app 1 fd s)) = fst s
      \<and> adds (\<lambda>e. e \<noteq> Upcall 1) (snd s) (snd (snd (sapp_close keep_app 1 fd s)))"
    by (simp add: keep_app_def)
  have none: "enum_or HANGUP PEER_CLOSED AND READ_READY = 0" by (simp add: event_type_defs enum_or_def)
  have kinds: "length (filter (\<lambda>tp. enum_or HANGUP PEER_CLOSED AND tp \<noteq> 0) [EXCEPTION, HANGUP, ERROR_EV, PEER_CLOSED]) = 2"
    by (simp add: event_type_defs enum_or_def)
  from close_callback_runs_for_each_terminal_kind [OF _ _ _ app e [unfolded evs] none p] kinds
  show ?thesis by (simp add: p)
qed

end
