(* ===== verification/Server_Main_Props.thy ===== *)
theory Server_Main_Props
  imports Server_Main Connections_Props Server_Props
begin

section \<open>What the example server does\<close>

subsection \<open>The system beside the vector\<close>

lemma do_sys_beside:
  "do_sys (beside K) c w = (r, w1) \<Longrightarrow>
     active_sockets w1 = active_sockets w \<and> K (fst (w_kern w)) c = (r, fst (w_kern w1))"
  by (drule do_sys_trace, cases "K (fst (w_kern w)) c") (simp add: beside_def active_sockets_def prod_eq_iff)

lemma put_sockets_simps [simp]:
  "active_sockets (put_sockets v w) = v" "w_trace (put_sockets v w) = w_trace w"
  "w_errno (put_sockets v w) = w_errno w" "fst (w_kern (put_sockets v w)) = fst (w_kern w)"
  by (simp_all add: active_sockets_def put_sockets_def)

lemma active_sockets_frame [simp]:
  "active_sockets (upcall cb w) = active_sockets w" "active_sockets (mark_ubs us w) = active_sockets w"
  by (simp_all add: active_sockets_def)

lemma beside_posix: "posix_fds K live \<Longrightarrow> posix_fds (beside K) (live \<circ> fst)"
  unfolding posix_fds_def beside_def by (fastforce split: prod.splits)

subsection \<open>A new connection\<close>

lemma emplace_back_rest [simp]: "snd (emplace_back grow c fd v) = snd (move_conn c)"
  by (auto simp: emplace_back_def base_socket_ctor_def Let_def split: prod.splits)

text \<open>
  C22: The accept handler with the example server's callback moves the accepted connection into
  the vector, under its descriptor: the vector is the old one with that element emplaced, the
  server is unchanged, and the only descriptor that was opened or closed is the new
  connection's, which is open.
\<close>

theorem accepted_connection_enters_the_vector:
  assumes "listening_accept (beside K) l w = (Some a, w1)" and "a_remote a = Some remote"
    and "sv_on_conn s = Some (Some cb)"
    and "accept_one (beside K) (epoll_traits (beside K)) (server_callbacks (beside K) grow pr) l (s, w) = (ex, (s', w'))"
  shows "ex = None \<and> s' = s
    \<and> active_sockets w' =
        fst (emplace_back grow (Tcp (fst (accepted_ctor remote a))) (impl_fd (a_impl a)) (active_sockets w))
    \<and> open_fds (w_trace w') = insert (impl_fd (a_impl a)) (open_fds (w_trace w))"
proof -
  obtain fd al fl r w0 us where d: "do_sys (beside K) (SysAccept4 fd al fl) w = (r, w0)" "rp_ret r \<noteq> -1"
    "w1 = mark_ubs us w0" "si_fd (a_impl a) = Some (rp_ret r)"
    using assms(1) by (rule listening_accept_trace)
  obtain ok w2 where add: "add_socket (beside K) (en_poll s) (impl_fd (a_impl a)) op_READ w1 = (ok, w2)" by fastforce
  then obtain x where e: "do_sys (beside K) (SysEpollCtl (ep_fd (en_poll s)) EPOLL_CTL_ADD (impl_fd (a_impl a))
      (Some (flags_from_op op_READ, impl_fd (a_impl a)))) w1 = (x, w2)"
    by (auto simp: add_socket_def epoll_ctl_def split: prod.splits)
  have v: "active_sockets w2 = active_sockets w" using do_sys_beside [OF d(1)] do_sys_beside [OF e] d(3) by simp
  have fds: "open_fds (w_trace w2) = insert (rp_ret r) (open_fds (w_trace w))"
    using open_fds_do_sys [OF d(1)] open_fds_do_sys [OF e] d(2,3) by (simp del: w_trace_mark_ubs)
  let ?acc = "fst (accepted_ctor remote a)"
  obtain v' rest where em: "emplace_back grow (Tcp ?acc) (impl_fd (a_impl a)) (active_sockets w) = (v', rest)"
    by (rule prod.exhaust)
  have acc: "accepted_fd ?acc = impl_fd (a_impl a)"
    by (simp add: accepted_ctor_def move_active_def move_impl_def accepted_fd_def impl_fd_def)
  have "rest = Tcp (snd (accepted_move ?acc))"
    using emplace_back_rest [of grow "Tcp ?acc" "impl_fd (a_impl a)" "active_sockets w"] em by (simp add: split_beta)
  moreover have "accepted_dtor (beside K) (snd (accepted_move ?acc)) u = u" for u
    by (simp add: accepted_dtor_def accepted_move_def move_active_def move_impl_def active_dtor_def destroy_impl_def
        impl_empty_def)
  ultimately have "ex = None \<and> s' = s \<and> w' = put_sockets v' (upcall cb w2)"
    using assms add em acc v
    by (auto simp: accept_one_def call_on_conn_def server_callbacks_def on_conn_tcp_def)
  with em fds d(4) show ?thesis by (simp add: impl_fd_def)
qed

lemma pending_accept_beside:
  "\<exists>a w1 remote. listening_accept (beside counting_os) \<lparr>l_impl = socket_impl_ctor 3 ipv4, l_local = sample_addr 7777,
       l_max_conn = 5\<rparr> (init_world ([], connections_ctor)) = (Some a, w1) \<and> a_remote a = Some remote"
  by (auto simp: listening_accept_def impl_accept_def accept_addr_def do_sys_def beside_def counting_os_def answer_def
      socket_impl_ctor_def parse_addr4_def active_ctor_def move_impl_def Let_def split: prod.splits)

theorem accepted_connection_enters_the_vector_witness:
  "length (cn_elems (active_sockets (snd (snd (accept_one (beside counting_os) (epoll_traits (beside counting_os))
     (server_callbacks (beside counting_os) Suc tcp)
     \<lparr>l_impl = socket_impl_ctor 3 ipv4, l_local = sample_addr 7777, l_max_conn = 5\<rparr>
     (sample_server\<lparr>sv_on_conn := Some (Some 0)\<rparr>, init_world ([], connections_ctor))))))) = 1"
proof -
  let ?l = "\<lparr>l_impl = socket_impl_ctor 3 ipv4, l_local = sample_addr 7777, l_max_conn = 5\<rparr>"
  let ?s = "sample_server\<lparr>sv_on_conn := Some (Some 0)\<rparr>"
  obtain a w1 remote where la: "listening_accept (beside counting_os) ?l (init_world ([], connections_ctor)) = (Some a, w1)"
    and remote: "a_remote a = Some remote" using pending_accept_beside by blast
  obtain ex s' w' where ac: "accept_one (beside counting_os) (epoll_traits (beside counting_os))
     (server_callbacks (beside counting_os) Suc tcp) ?l (?s, init_world ([], connections_ctor)) = (ex, (s', w'))"
    using prod_cases3 by blast
  have v0: "active_sockets (init_world ([] :: int list, connections_ctor)) = connections_ctor" by (simp add: active_sockets_def)
  obtain v rest where em: "emplace_back Suc (Tcp (fst (accepted_ctor remote a))) (impl_fd (a_impl a)) connections_ctor
      = (v, rest)" by (rule prod.exhaust)
  have "length (cn_elems v) = 1" using emplace_back_length [OF em] by (simp add: connections_ctor_def)
  with accepted_connection_enters_the_vector [OF la remote _ ac] em v0 ac show ?thesis by simp
qed

subsection \<open>A request\<close>

text \<open>
  The contract of a visit holds of the virtual calls on a TCP connection.
\<close>

definition conn_pending :: "'k os \<Rightarrow> accepted_sock \<Rightarrow> nat \<Rightarrow> conn \<Rightarrow> 'k world \<Rightarrow> byte list list \<Rightarrow> bool" where
  "conn_pending K s0 n c w cs \<longleftrightarrow> c = Tcp s0 \<and> stream_pending K s0 n s0 w cs"

definition conn_rested :: "accepted_sock \<Rightarrow> conn \<Rightarrow> 'k world \<Rightarrow> bool" where
  "conn_rested s0 c w \<longleftrightarrow> c = Tcp s0 \<and> w_errno w = EAGAIN"

interpretation conn: visited K "conn_send K st" "conn_recv K st" "conn_finished st" "conn_pending K s0" "conn_rested s0"
  for K st s0
proof unfold_locales
  show "conn_send K st c buf n w = (r, c1, w1) \<Longrightarrow> via K quiet w w1" for c buf n w r c1 w1
    using acc.send_quiet acc_ref.send_quiet by (cases c) (fastforce split: prod.splits)+
  show "conn_recv K st c buf n w = (got, buf1, c1, w1) \<Longrightarrow> via K quiet w w1" for c buf n w got buf1 c1 w1
    using acc.recv_quiet acc_ref.recv_quiet by (cases c) (fastforce split: prod.splits)+
  show "conn_recv K st c buf n w = (got, buf1, c1, w1) \<Longrightarrow> length buf1 = length buf" for c buf n w got buf1 c1 w1
    using acc.recv_length acc_ref.recv_length by (cases c) (fastforce split: prod.splits)+
  show "conn_recv K st c buf n w = (got, buf1, c1, w1) \<Longrightarrow> adds receives w w1" for c buf n w got buf1 c1 w1
    using acc.recv_receives acc_ref.recv_receives by (cases c) (fastforce split: prod.splits)+
next
  fix n c w b bs buf got buf1 c1 w1
  assume p: "conn_pending K s0 n c w (b # bs)" and buf: "length (buf :: byte list) = n"
    and r: "conn_recv K st c buf (of_nat n) w = (got, buf1, c1, w1)"
  obtain s1 where s1: "accepted_recv K s0 buf (of_nat n) w = (got, buf1, s1, w1)" "c1 = Tcp s1"
    using p r by (auto simp: conn_pending_def split: prod.splits)
  have "stream_pending K s0 n s0 w (b # bs)" using p by (simp add: conn_pending_def)
  note st = stream.piece [OF this buf s1(1)]
  then have "s1 = s0" by (simp add: stream_pending_def)
  with st s1(2) show "(\<exists>a m. got = Some (a, m) \<and> take (unat m) buf1 = b) \<and> conn_pending K s0 n c1 w1 bs"
    by (simp add: conn_pending_def)
next
  fix n c w buf got buf1 c1 w1
  assume p: "conn_pending K s0 n c w []" and buf: "length (buf :: byte list) = n"
    and r: "conn_recv K st c buf (of_nat n) w = (got, buf1, c1, w1)"
  obtain s1 where s1: "accepted_recv K s0 buf (of_nat n) w = (got, buf1, s1, w1)" "c1 = Tcp s1"
    using p r by (auto simp: conn_pending_def split: prod.splits)
  have "stream_pending K s0 n s0 w []" using p by (simp add: conn_pending_def)
  from stream.pause [OF this buf s1(1)] s1(2) show "got = None \<and> conn_rested s0 c1 w1"
    by (simp add: conn_rested_def stream_rested_def)
qed (auto simp: conn_rested_def accepted_finished_def again_def eagain_def)

text \<open>The vector with one element that points to itself is put back as it was.\<close>

lemma one_connection:
  assumes "cn_elems v = [(e, [])]" and "bs_ptr e = Some (cn_buffer v, 0)" and "bs_storage e = Some c"
  shows "put_text 0 [] (put_object (cn_buffer v, 0) c v) = v"
    and "Option.bind (bs_ptr (elem v 0)) (\<lambda>addr. map_option (\<lambda>c. (addr, c)) (object_at v addr)) = Some ((cn_buffer v, 0), c)"
  using assms by (cases e; cases v; simp add: put_text_def put_object_def object_at_def)+

text \<open>
  C12: The example server's loop over a vector with one connection, whose element points to its
  own object: a request that is not empty, arrives in any number of pieces and then pauses, and
  that the service answers without an exception, is read completely and answered by exactly one
  send of the service's answer, provided that sends on the connection succeed and that nothing
  more arrives after one; besides that send the loop makes receives only, the connection is
  visited once more, found empty and kept with its text cleared, and the loop ends.
\<close>

theorem first_client_is_answered:
  assumes "cn_elems v = [(e, [])]" and "bs_ptr e = Some (cn_buffer v, 0)" and "bs_storage e = Some (Tcp s)"
    and "si_fd (a_impl (as_sock s)) = Some fd" and "length tmp < 2 ^ 64"
    and "delivers K fd (of_nat (length tmp)) (w_kern w) chunks" and "concat chunks \<noteq> []"
    and "create_response (to_text (concat chunks)) = Inr resp"
    and "\<forall>k buf n. rp_ret (fst (K k (SysSend fd buf n 0))) \<noteq> -1
           \<and> delivers K fd (of_nat (length tmp)) (snd (K k (SysSend fd buf n 0))) []"
  shows "\<exists>tmp' w' r1 e1 r2 e2 t. serve_from K st True tmp 0 v w = Some (None, v, tmp', w')
    \<and> w_trace w' = Sys (SysRecv fd (of_nat (length tmp)) 0) r1 e1
        # Sys (SysSend fd (of_text resp) (of_nat (length resp)) 0) r2 e2 # t @ w_trace w
    \<and> (\<forall>ev \<in> set t. receives ev) \<and> r1 = -1 \<and> r2 \<noteq> -1"
proof -
  note one = one_connection [OF assms(1-3)]
  have "conn_pending K s (length tmp) (Tcp s) w chunks"
    using assms(4-6) by (auto simp: conn_pending_def stream_pending_def)
  then obtain tmp1 c1 w1 where d1: "length tmp1 = length tmp" "conn_rested s c1 w1"
    "visit_connection (conn_recv K st) (conn_send K st) (conn_finished st) True tmp (Tcp s) [] w =
       (case conn_send K st c1 (of_text resp) (of_nat (length resp)) w1 of
          (sent, s2, w2) \<Rightarrow> Some (if sent = None \<or> \<not> True then Erased s2 else Again s2, tmp1, w2))"
    "adds receives w w1"
    using assms(7,8) by (rule conn.visit_answers)
  obtain t where t: "w_trace w1 = t @ w_trace w" "\<forall>ev \<in> set t. receives ev" using d1(4) by (auto simp: adds_def)
  obtain r2 w2 where sys: "do_sys K (SysSend fd (of_text resp) (of_nat (length resp)) 0) w1 = (r2, w2)" by fastforce
  note tr = do_sys_trace [OF sys]
  have r2: "rp_ret r2 \<noteq> -1" "delivers K fd (of_nat (length tmp)) (w_kern w2) []"
    using tr assms(9) by (metis fst_conv, metis snd_conv)
  have "visit_connection (conn_recv K st) (conn_send K st) (conn_finished st) True tmp (Tcp s) [] w
      = Some (Again (Tcp s), tmp1, w2)"
    using d1(2,3) assms(4) sys r2(1)
    by (simp add: conn_rested_def accepted_send_def send_conn_def impl_send_def)
  then have again: "serve_from K st True tmp 0 v w = serve_from K st True tmp1 0 v w2"
    using one assms(1) by (subst serve_from.simps) simp
  have "conn_pending K s (length tmp1) (Tcp s) w2 []"
    using assms(4,5) r2(2) d1(1) by (simp add: conn_pending_def stream_pending_def)
  then obtain tmp2 c2 w3 where d2: "conn_rested s c2 w3"
    "conn_recv K st (Tcp s) tmp1 (of_nat (length tmp1)) w2 = (None, tmp2, c2, w3)"
    "visit_connection (conn_recv K st) (conn_send K st) (conn_finished st) True tmp1 (Tcp s) [] w2 = Some (Next c2 [], tmp2, w3)"
    by (rule conn.visit_idle)
  obtain r1 where rcv: "do_sys K (SysRecv fd (of_nat (length tmp)) 0) w2 = (r1, w3)"
    using d2(2) d1(1) assms(4)
    by (auto simp: accepted_recv_def receive_conn_def impl_receive_def split: prod.splits if_splits)
  note tr1 = do_sys_trace [OF rcv]
  have r1: "rp_ret r1 = -1" using r2(2) tr1 by simp
  have "serve_from K st True tmp1 0 v w2 = serve_from K st True tmp2 1 v w3"
    using one d2(1,3) assms(1) by (subst serve_from.simps) (simp add: conn_rested_def)
  also have "\<dots> = Some (None, v, tmp2, w3)" using assms(1) by (subst serve_from.simps) simp
  finally have "serve_from K st True tmp 0 v w = Some (None, v, tmp2, w3)" using again by simp
  moreover have "w_trace w3 = Sys (SysRecv fd (of_nat (length tmp)) 0) (rp_ret r1) (w_errno w3)
      # Sys (SysSend fd (of_text resp) (of_nat (length resp)) 0) (rp_ret r2) (w_errno w2) # t @ w_trace w"
    using tr tr1 t(1) by simp
  ultimately show ?thesis using r1 r2(1) t(2) by blast
qed

definition one_request_os :: "byte list list os" where
  "one_request_os k c =
     (case c of
        SysRecv fd n fl \<Rightarrow>
          (case k of [] \<Rightarrow> (failure EAGAIN, []) | p # ps \<Rightarrow> ((answer (int (length p)))\<lparr>rp_data := p\<rparr>, ps))
      | SysSend fd buf n fl \<Rightarrow> (answer (int (length buf)), [])
      | _ \<Rightarrow> (answer 0, k))"

definition one_connection_vector :: connections where
  "one_connection_vector =
     \<lparr>cn_buffer = 1, cn_capacity = 1,
      cn_elems = [(\<lparr>bs_ptr = Some (1, 0), bs_fd = 9, bs_storage = Some (Tcp sample_connection)\<rparr>, [])]\<rparr>"

theorem first_client_is_answered_witness:
  "\<exists>tmp' w'. serve_from one_request_os (StIdle None) True [0, 0, 0, 0] 0 one_connection_vector (init_world [[104], [105]])
     = Some (None, one_connection_vector, tmp', w')"
proof -
  let ?e = "\<lparr>bs_ptr = Some (1, 0), bs_fd = 9, bs_storage = Some (Tcp sample_connection)\<rparr>"
  have "stream_words ''hi'' = [''hi'']" by (simp add: stream_words.simps is_space_def)
  then have "create_response ''hi'' = Inr ''hi''"
    by (simp add: create_response_def parse_ints_def is_number_def is_digit_def)
  moreover have "to_text (concat [[104], [105]]) = ''hi''" by (simp add: to_text_def char_of_def bit_Suc_0_iff)
  ultimately have resp: "create_response (to_text (concat [[104], [105]])) = Inr ''hi''" by simp
  have d: "delivers one_request_os 9 (of_nat (length [0, 0, 0, 0 :: byte])) (w_kern (init_world [[104], [105]])) [[104], [105]]"
    by (simp add: one_request_os_def)
  have send: "\<forall>k buf n. rp_ret (fst (one_request_os k (SysSend 9 buf n 0))) \<noteq> -1
      \<and> delivers one_request_os 9 (of_nat (length [0, 0, 0, 0 :: byte])) (snd (one_request_os k (SysSend 9 buf n 0))) []"
    by (simp add: one_request_os_def)
  have "si_fd (a_impl (as_sock sample_connection)) = Some 9" by (simp add: sample_connection_def socket_impl_ctor_def)
  from first_client_is_answered [OF _ _ _ this _ d _ resp send, of one_connection_vector ?e "StIdle None"]
  show ?thesis by (auto simp: one_connection_vector_def)
qed

end
