(* ===== verification/Exchange.thy ===== *)
theory Exchange
  imports Client_Main_Props Server_Main_Props
begin

section \<open>A request and its response\<close>

text \<open>
  The two programs together. The client and the server are two processes over one system, so each
  has a world of its own and the state of the system goes to and fro between them: \<open>resume me other\<close>
  is the world of \<open>me\<close> with the state in which \<open>other\<close> left the system.
\<close>

definition resume :: "'k world \<Rightarrow> 'k world \<Rightarrow> 'k world" where
  "resume me other = me\<lparr>w_kern := w_kern other\<rparr>"

lemma resume_simps [simp]:
  "w_kern (resume me other) = w_kern other" "w_errno (resume me other) = w_errno me"
  "w_trace (resume me other) = w_trace me"
  by (simp_all add: resume_def)

text \<open>
  What TCP promises of two connected descriptors: bytes that a send took wait, in order, at the
  other end, until a receive takes a piece of them from the front; a receive finds nothing only if
  nothing waits. How many bytes a call moves is the system's choice. \<open>waiting\<close> reads what waits at a
  descriptor off the system's state.
\<close>

definition linked :: "'k os \<Rightarrow> ('k \<Rightarrow> int \<Rightarrow> byte list) \<Rightarrow> int \<Rightarrow> int \<Rightarrow> bool" where
  "linked K waiting a b \<longleftrightarrow>
     (\<forall>k buf n r k'. K k (SysSend a buf n 0) = (r, k') \<and> rp_ret r \<noteq> -1 \<longrightarrow>
        waiting k' b = waiting k b @ take (nat (rp_ret r)) buf \<and> waiting k' a = waiting k a)
   \<and> (\<forall>k n r k'. K k (SysRecv b n 0) = (r, k') \<and> 0 < n \<longrightarrow>
        waiting k' a = waiting k a
        \<and> (if waiting k b = [] then rp_ret r = -1 \<and> rp_errno r = EAGAIN \<and> waiting k' b = []
           else 0 < rp_ret r \<and> length (rp_data r) \<le> unat n \<and> waiting k b = rp_data r @ waiting k' b
                \<and> rp_ret r = int (length (rp_data r))))"

lemma linked_send:
  assumes "linked K waiting a b" and "do_sys K (SysSend a buf n 0) w = (r, w')" and "rp_ret r = int (length buf)"
  shows "waiting (w_kern w') b = waiting (w_kern w) b @ buf" and "waiting (w_kern w') a = waiting (w_kern w) a"
    and "w_errno w' = w_errno w"
proof -
  have "K (w_kern w) (SysSend a buf n 0) = (r, w_kern w')" using do_sys_trace [OF assms(2)] by simp
  moreover have "rp_ret r \<noteq> -1" using assms(3) by simp
  ultimately have "waiting (w_kern w') b = waiting (w_kern w) b @ take (nat (rp_ret r)) buf
      \<and> waiting (w_kern w') a = waiting (w_kern w) a"
    using assms(1) unfolding linked_def by blast
  then show "waiting (w_kern w') b = waiting (w_kern w) b @ buf" "waiting (w_kern w') a = waiting (w_kern w) a"
    using assms(3) by simp_all
  show "w_errno w' = w_errno w" using do_sys_trace [OF assms(2)] assms(3) by simp
qed

lemma linked_recv:
  assumes "linked K waiting a b" and "K k (SysRecv b n 0) = (r, k')" and "0 < n"
  shows "waiting k' a = waiting k a"
    and "waiting k b = [] \<Longrightarrow> rp_ret r = -1 \<and> rp_errno r = EAGAIN \<and> waiting k' b = []"
    and "waiting k b \<noteq> [] \<Longrightarrow> rp_data r \<noteq> [] \<and> rp_ret r = int (length (rp_data r)) \<and> length (rp_data r) \<le> unat n
           \<and> waiting k b = rp_data r @ waiting k' b"
proof -
  have "waiting k' a = waiting k a
      \<and> (if waiting k b = [] then rp_ret r = -1 \<and> rp_errno r = EAGAIN \<and> waiting k' b = []
         else 0 < rp_ret r \<and> length (rp_data r) \<le> unat n \<and> waiting k b = rp_data r @ waiting k' b
              \<and> rp_ret r = int (length (rp_data r)))"
    using assms unfolding linked_def by blast
  then show "waiting k' a = waiting k a"
    "waiting k b = [] \<Longrightarrow> rp_ret r = -1 \<and> rp_errno r = EAGAIN \<and> waiting k' b = []"
    "waiting k b \<noteq> [] \<Longrightarrow> rp_data r \<noteq> [] \<and> rp_ret r = int (length (rp_data r)) \<and> length (rp_data r) \<le> unat n
           \<and> waiting k b = rp_data r @ waiting k' b"
    by auto
qed

text \<open>What waits at a descriptor is delivered, in some pieces.\<close>

lemma linked_delivers:
  assumes "linked K waiting a b" and "0 < n"
  shows "\<exists>cs. delivers K b n k cs \<and> concat cs = waiting k b"
proof (induction "length (waiting k b)" arbitrary: k rule: less_induct)
  case less
  obtain r k' where s: "K k (SysRecv b n 0) = (r, k')" by (rule prod.exhaust)
  note recv = linked_recv [OF assms(1) s assms(2)]
  show ?case
  proof (cases "waiting k b = []")
    case True
    with recv(2) s show ?thesis by (intro exI [of _ "[]"]) simp
  next
    case False
    note piece = recv(3) [OF False]
    then obtain cs where "delivers K b n k' cs" "concat cs = waiting k' b" using less [of k'] by auto
    with piece s show ?thesis by (intro exI [of _ "rp_data r # cs"]) simp
  qed
qed

subsection \<open>The server's side\<close>

text \<open>
  A visit of the connection at \<open>b\<close>: besides what \<open>stream_pending\<close> says, all that waits is in the
  pieces, and what waits at the other end \<open>a\<close> stays \<open>X\<close>.
\<close>

definition link_pending ::
  "'k os \<Rightarrow> ('k \<Rightarrow> int \<Rightarrow> byte list) \<Rightarrow> int \<Rightarrow> int \<Rightarrow> byte list \<Rightarrow> accepted_sock
   \<Rightarrow> nat \<Rightarrow> accepted_sock \<Rightarrow> 'k world \<Rightarrow> byte list list \<Rightarrow> bool" where
  "link_pending K waiting a b X s0 n s w cs \<longleftrightarrow>
     stream_pending K s0 n s w cs \<and> si_fd (a_impl (as_sock s0)) = Some b \<and> linked K waiting a b \<and> 0 < n
     \<and> waiting (w_kern w) a = X \<and> waiting (w_kern w) b = concat cs"

definition link_rested ::
  "('k \<Rightarrow> int \<Rightarrow> byte list) \<Rightarrow> int \<Rightarrow> int \<Rightarrow> byte list \<Rightarrow> accepted_sock \<Rightarrow> accepted_sock \<Rightarrow> 'k world \<Rightarrow> bool" where
  "link_rested waiting a b X s0 s w \<longleftrightarrow>
     stream_rested s0 s w \<and> waiting (w_kern w) a = X \<and> waiting (w_kern w) b = []"

lemma link_receive:
  assumes "link_pending K waiting a b X s0 n s w cs" and "accepted_recv K s buf (of_nat n) w = (got, buf1, s1, w1)"
  obtains r where "do_sys K (SysRecv b (of_nat n) 0) w = (r, w1)" "waiting (w_kern w1) a = X"
    "waiting (w_kern w) b = [] \<Longrightarrow> waiting (w_kern w1) b = []"
    "waiting (w_kern w) b \<noteq> [] \<Longrightarrow> waiting (w_kern w) b = rp_data r @ waiting (w_kern w1) b"
proof -
  have p: "si_fd (a_impl (as_sock s)) = Some b" "linked K waiting a b" "0 < n" "n < 2 ^ 64" "waiting (w_kern w) a = X"
    using assms(1) by (auto simp: link_pending_def stream_pending_def simp del: delivers.simps)
  obtain r where r: "do_sys K (SysRecv b (of_nat n) 0) w = (r, w1)" using p(1) assms(2) by (rule stream_recv)
  have "(0 :: size_t) < of_nat n" using p(3,4) by (simp add: word_less_nat_alt unat_of_nat)
  note recv = linked_recv [OF p(2) _ this, of "w_kern w" r "w_kern w1"]
  have "K (w_kern w) (SysRecv b (of_nat n) 0) = (r, w_kern w1)" using do_sys_trace [OF r] by simp
  from recv [OF this] p(5) show ?thesis by (intro that [OF r]) simp_all
qed

interpretation link: visited K "accepted_send K" "accepted_recv K" accepted_finished "link_pending K waiting a b X s0"
  "link_rested waiting a b X s0" for K waiting a b X s0
proof unfold_locales
  fix n s w c cs buf got buf1 s1 w1
  assume p: "link_pending K waiting a b X s0 n s w (c # cs)" and buf: "length (buf :: byte list) = n"
    and r: "accepted_recv K s buf (of_nat n) w = (got, buf1, s1, w1)"
  have sp: "stream_pending K s0 n s w (c # cs)" using p by (simp add: link_pending_def)
  from stream.piece [OF this buf r] have out: "\<exists>a m. got = Some (a, m) \<and> take (unat m) buf1 = c"
    and next_pending: "stream_pending K s0 n s1 w1 cs" by blast+
  obtain x where x: "do_sys K (SysRecv b (of_nat n) 0) w = (x, w1)" "waiting (w_kern w1) a = X"
    "waiting (w_kern w) b \<noteq> [] \<Longrightarrow> waiting (w_kern w) b = rp_data x @ waiting (w_kern w1) b"
    "waiting (w_kern w) b = [] \<Longrightarrow> waiting (w_kern w1) b = []"
    using p r by (rule link_receive) blast
  have "rp_data x = c"
    using sp p do_sys_trace [OF x(1)] by (auto simp: stream_pending_def link_pending_def)
  moreover have "waiting (w_kern w) b = c @ concat cs" using p by (simp add: link_pending_def)
  ultimately have "waiting (w_kern w1) b = concat cs" using x(3,4) by (cases "waiting (w_kern w) b = []") auto
  with p out next_pending x(2) show "(\<exists>a m. got = Some (a, m) \<and> take (unat m) buf1 = c)
      \<and> link_pending K waiting a b X s0 n s1 w1 cs"
    by (simp add: link_pending_def)
next
  fix n s w buf got buf1 s1 w1
  assume p: "link_pending K waiting a b X s0 n s w []" and buf: "length (buf :: byte list) = n"
    and r: "accepted_recv K s buf (of_nat n) w = (got, buf1, s1, w1)"
  then have sp: "stream_pending K s0 n s w []" "waiting (w_kern w) b = []" by (simp_all add: link_pending_def)
  obtain x where "waiting (w_kern w1) a = X" "waiting (w_kern w) b = [] \<Longrightarrow> waiting (w_kern w1) b = []"
    using p r by (rule link_receive) blast
  with stream.pause [OF sp(1) buf r] sp(2) show "got = None \<and> link_rested waiting a b X s0 s1 w1"
    by (simp add: link_rested_def)
qed (auto simp: link_rested_def dest: stream.rested_fin)

text \<open>The visit that answers, and what it leaves at both ends.\<close>

lemma to_text_of_text [simp]: "to_text (of_text s) = s"
proof -
  have "char_of (unat (of_char c :: byte)) = c" for c
  proof -
    have "unat (of_char c :: byte) = of_char c"
      by (subst of_nat_of_char [symmetric]) (simp add: unat_of_nat)
    then show ?thesis by simp
  qed
  then show ?thesis by (induction s) (simp_all add: to_text_def of_text_def)
qed

lemma length_of_text [simp]: "length (of_text s) = length s"
  by (simp add: of_text_def)

lemma linked_visit_answers:
  assumes "linked K waiting a b" and "si_fd (a_impl (as_sock acc)) = Some b" and "0 < length tmp" and "length tmp < 2 ^ 64"
    and "waiting (w_kern w) b \<noteq> []" and "create_response (to_text (waiting (w_kern w) b)) = Inr resp"
    and "linked K waiting b a" and "\<And>k. rp_ret (fst (K k (SysSend b (of_text resp) (of_nat (length resp)) 0))) = int (length resp)"
  obtains tmp' w' where "length tmp' = length tmp"
    "visit_connection (accepted_recv K) (accepted_send K) accepted_finished True tmp acc [] w = Some (Again acc, tmp', w')"
    "waiting (w_kern w') a = waiting (w_kern w) a @ of_text resp" "waiting (w_kern w') b = []"
proof -
  let ?X = "waiting (w_kern w) a"
  have "(0 :: size_t) < of_nat (length tmp)" using assms(3,4) by (simp add: word_less_nat_alt unat_of_nat)
  from linked_delivers [OF assms(1) this] obtain cs
    where cs: "delivers K b (of_nat (length tmp)) (w_kern w) cs" "concat cs = waiting (w_kern w) b" by blast
  have "link_pending K waiting a b ?X acc (length tmp) acc w cs"
    using assms(1-4) cs by (auto simp: link_pending_def stream_pending_def)
  then obtain tmp' s1 w1 where v: "length tmp' = length tmp" "link_rested waiting a b ?X acc s1 w1"
    "visit_connection (accepted_recv K) (accepted_send K) accepted_finished True tmp acc [] w =
       (case accepted_send K s1 (of_text resp) (of_nat (length resp)) w1 of
          (sent, s2, w2) \<Rightarrow> Some (if sent = None \<or> \<not> True then Erased s2 else Again s2, tmp', w2))"
    using assms(5,6) cs(2) by (rule_tac link.visit_answers [where cs = cs]) (assumption | simp)+
  have rest: "s1 = acc" "waiting (w_kern w1) a = ?X" "waiting (w_kern w1) b = []"
    using v(2) by (simp_all add: link_rested_def stream_rested_def)
  obtain r w2 where sys: "do_sys K (SysSend b (of_text resp) (of_nat (length resp)) 0) w1 = (r, w2)" by fastforce
  have "rp_ret r = int (length (of_text resp))" using do_sys_trace [OF sys] assms(8) by (metis fst_conv length_of_text)
  note sent = linked_send [OF assms(7) sys this] and ret = this
  have "visit_connection (accepted_recv K) (accepted_send K) accepted_finished True tmp acc [] w = Some (Again acc, tmp', w2)"
    using v(3) rest(1) assms(2) sys ret by (simp add: accepted_send_def send_conn_def impl_send_def)
  with v(1) sent rest show ?thesis by (intro that [of tmp' w2]) simp_all
qed

subsection \<open>The client's side\<close>

lemma linked_response:
  assumes "linked K waiting b a" and "talks_on cl a" and "\<not> is_connectionless pr" and "w_errno w \<noteq> EAGAIN"
  shows "\<exists>w'. read_response K pr cl [] w = Some (waiting (w_kern w) a, w') \<and> w_errno w' = EAGAIN
    \<and> waiting (w_kern w') b = waiting (w_kern w) b"
proof -
  obtain cs where cs: "delivers K a 256 (w_kern w) cs" "concat cs = waiting (w_kern w) a"
    using linked_delivers [OF assms(1), of 256] by auto
  then obtain w' where r: "read_response K pr cl [] w = Some (waiting (w_kern w) a, w')" "w_errno w' = EAGAIN"
    using read_response_collects [OF assms(2,3) cs(1) assms(4), of "[]"] by auto
  have "waiting (w_kern w1) b = waiting (w_kern w) b"
    if "client_recv K pr cl (replicate 256 0) 256 w0 = (x, buf, w1)" "waiting (w_kern w0) b = waiting (w_kern w) b"
    for w0 x buf w1
  proof -
    obtain y w2 where d: "do_sys K (SysRecv a 256 0) w0 = (y, w2)" by fastforce
    have "w1 = w2" using client_recv_stream [OF assms(2,3) d] that(1) by (auto split: if_splits)
    with linked_recv(1) [OF assms(1), of "w_kern w0" 256 y "w_kern w2"] do_sys_trace [OF d] that(2) show ?thesis by simp
  qed
  from read_response_keeps [OF r(1), where I = "\<lambda>v. waiting (w_kern v) b = waiting (w_kern w) b", OF refl this]
  have "waiting (w_kern w') b = waiting (w_kern w) b" .
  with r show ?thesis by blast
qed

subsection \<open>Both\<close>


text \<open>The witness: a system with two queues, one for each end.\<close>

definition queue_recv :: "byte list \<Rightarrow> size_t \<Rightarrow> reply" where
  "queue_recv q n =
     (if q = [] then failure EAGAIN else (answer (int (length (take (unat n) q))))\<lparr>rp_data := take (unat n) q\<rparr>)"

definition queues_os :: "(byte list \<times> byte list) os" where
  "queues_os k c =
     (case c of
        SysSend fd buf n fl \<Rightarrow>
          (answer (int (length buf)), if fd = 7 then (fst k, snd k @ buf) else (fst k @ buf, snd k))
      | SysRecv fd n fl \<Rightarrow>
          if fd = 7 then (queue_recv (fst k) n, (drop (unat n) (fst k), snd k))
          else (queue_recv (snd k) n, (fst k, drop (unat n) (snd k)))
      | _ \<Rightarrow> (answer 0, k))"

definition queue_of :: "byte list \<times> byte list \<Rightarrow> int \<Rightarrow> byte list" where
  "queue_of k fd = (if fd = 7 then fst k else snd k)"

lemma queues_linked: "linked queues_os queue_of 7 9" "linked queues_os queue_of 9 7"
  by (auto simp: linked_def queues_os_def queue_of_def queue_recv_def answer_def failure_def word_gt_0 unat_gt_0)


end
