(* ===== verification/Server_Runs.thy ===== *)
theory Server_Runs
  imports Server_Main_Props
begin

section \<open>Invariants of the example server's loop\<close>

text \<open>
  What a run of the example server keeps, whatever becomes of its vector. The loop and the callbacks
  only handle connections through a few operations, so what these keep, the loop and the callbacks
  keep: the locale \<open>guarded\<close> proves it once, for any set of calls and any kind of connection. The
  locale \<open>server_run\<close> carries an invariant of the handlers and of the loop to whole runs.
\<close>

subsection \<open>Histories that go on with certain calls\<close>

text \<open>
  Since the history \<open>X\<close> only calls that satisfy \<open>A\<close> were made, and the system accounts for all
  descriptors.
\<close>

definition since :: "('k \<Rightarrow> int set) \<Rightarrow> (sys_call \<Rightarrow> bool) \<Rightarrow> event list \<Rightarrow> 'k world \<Rightarrow> bool" where
  "since live A X w \<longleftrightarrow>
     ledger_ok live w \<and> (\<exists>t. w_trace w = t @ X \<and> (\<forall>c r e. Sys c r e \<in> set t \<longrightarrow> A c))"

lemma stays_open:
  "L \<in> open_fds X \<Longrightarrow> \<not> A (SysClose L) \<Longrightarrow> \<forall>c r e. Sys c r e \<in> set t \<longrightarrow> A c \<Longrightarrow> L \<in> open_fds (t @ X)"
proof (induction t)
  case (Cons ev t)
  then show ?case
  proof (cases ev)
    case (Sys c r e)
    with Cons show ?thesis by (cases c) auto
  qed auto
qed simp

lemma since_open:
  assumes "since live A X w" and "L \<in> open_fds X" and "\<not> A (SysClose L)"
  shows "L \<in> open_fds (w_trace w)"
  using assms(1) stays_open [where A = A, OF assms(2,3)] by (auto simp: since_def)

text \<open>The same for the part of the history in front of the first undefined behaviour.\<close>

lemma defined_since:
  assumes "\<forall>c r e. Sys c r e \<in> set t \<longrightarrow> A c" and "\<forall>e \<in> set X. \<not> derails e"
  obtains t1 where "defined_part (t @ X) = t1 @ X" "\<forall>c r e. Sys c r e \<in> set t1 \<longrightarrow> A c"
  using that [OF defined_part_append [OF assms(2)]] set_defined_part [of t] assms(1) by blast

lemma since_do_sys:
  assumes "posix_fds K live" and "since live A X w" and "do_sys K c w = (r, w')" and "A c"
  shows "since live A X w'"
proof -
  obtain t where t: "w_trace w = t @ X" "\<forall>c r e. Sys c r e \<in> set t \<longrightarrow> A c" "ledger_ok live w"
    using assms(2) by (auto simp: since_def)
  have "w_trace w' = (Sys c (rp_ret r) (w_errno w') # t) @ X" using do_sys_trace [OF assms(3)] t(1) by simp
  moreover have "\<forall>c' r' e'. Sys c' r' e' \<in> set (Sys c (rp_ret r) (w_errno w') # t) \<longrightarrow> A c'" using t(2) assms(4) by auto
  ultimately show ?thesis using ledger_ok_do_sys [OF assms(1) t(3) assms(3)] unfolding since_def by blast
qed

lemma since_mark: "since live A X w \<Longrightarrow> since live A X (mark_ub u w)"
  and since_upcall: "since live A X w \<Longrightarrow> since live A X (upcall cb w)"
proof -
  show "since live A X w \<Longrightarrow> since live A X (mark_ub u w)"
    unfolding since_def by (elim conjE exE, intro conjI, simp) (rule_tac x = "Ub u # t" in exI, simp)
  show "since live A X w \<Longrightarrow> since live A X (upcall cb w)"
    unfolding since_def by (elim conjE exE, intro conjI, simp) (rule_tac x = "Upcall cb # t" in exI, simp)
qed

lemma since_via:
  assumes "via K A w w'" and "posix_fds K live"
  shows "since live A X w \<Longrightarrow> since live A X w'"
  using assms(1)
proof (induction rule: via.induct)
  case (via_sys w w1 c r w2)
  then show ?case using since_do_sys [OF assms(2)] by blast
qed (auto intro: since_mark since_upcall simp: since_def ledger_ok_def)

lemma active_sockets_via: "via (beside K) A w w' \<Longrightarrow> active_sockets w' = active_sockets w"
  by (induction rule: via.induct) (auto simp: active_sockets_def dest: do_sys_beside)

lemma since_put [simp]: "since (live \<circ> fst) A X (put_sockets v w) = since (live \<circ> fst) A X w"
  by (simp add: since_def ledger_ok_def)

fun epoll_call :: "sys_call \<Rightarrow> bool" where
  "epoll_call (SysEpollCtl e op fd ev) = True"
| "epoll_call (SysEpollWait e n t) = True"
| "epoll_call _ = False"

lemma via_epoll:
  "add_socket K ep fd op w = (ok, w1) \<Longrightarrow> via K epoll_call w w1"
  "del_socket K ep fd w = (ok, w1) \<Longrightarrow> via K epoll_call w w1"
  "epoll_proceed K ep t w = (evs, w1) \<Longrightarrow> via K epoll_call w w1"
proof -
  show "add_socket K ep fd op w = (ok, w1) \<Longrightarrow> via K epoll_call w w1"
    and "del_socket K ep fd w = (ok, w1) \<Longrightarrow> via K epoll_call w w1"
    by (auto simp: add_socket_def del_socket_def epoll_ctl_def split: prod.splits intro: via_call)
  show "epoll_proceed K ep t w = (evs, w1) \<Longrightarrow> via K epoll_call w w1"
    by (auto simp: epoll_proceed_def Let_def split: prod.splits if_splits
        intro: via_intros via_trans [OF via_call via_tl [OF via_refl]] via_trans [OF via_ub [OF via_call] via_tl [OF via_refl]])
qed

subsection \<open>Visits\<close>

text \<open>What each receive and the send keep, a visit keeps.\<close>

lemma drain_keeps_aux:
  assumes "drain recv tmp s acc w = Some y"
  shows "(\<forall>s buf n w r buf1 s1 w1. recv s buf n w = (r, buf1, s1, w1) \<and> J s w \<longrightarrow> J s1 w1) \<Longrightarrow> J s w
     \<Longrightarrow> J (fst (snd (snd y))) (snd (snd (snd y)))"
  using assms
proof (induct recv tmp s acc w y rule: drain.raw_induct [rotated, consumes 1, case_names step])
  case (step dr recv tmp s acc w y)
  obtain got tmp1 s1 w1 where r: "recv s tmp (of_nat (length tmp)) w = (got, tmp1, s1, w1)"
    using prod_cases4 by blast
  have inv: "J s1 w1" using step.prems r by blast
  show ?case
  proof (cases got)
    case None
    with step.hyps(2) r inv show ?thesis by auto
  next
    case (Some g)
    with step.hyps(2) r obtain acc1 where "dr recv tmp1 s1 acc1 w1 = Some y" by (cases g) auto
    from step.hyps(1) [OF this step.prems(1) inv] show ?thesis .
  qed
qed

fun visit_of :: "'s visit \<Rightarrow> 's option" where
  "visit_of (Next s text) = Some s"
| "visit_of (Again s) = Some s"
| "visit_of (Erased s) = Some s"
| "visit_of (Crashed e) = None"

lemma visit_keeps:
  assumes "visit_connection recv send fin is_tcp tmp s acc w = Some (v, tmp', w')"
    and "\<And>s buf n w r buf1 s1 w1. recv s buf n w = (r, buf1, s1, w1) \<Longrightarrow> J s w \<Longrightarrow> J s1 w1"
    and "\<And>s buf n w r s1 w1. send s buf n w = (r, s1, w1) \<Longrightarrow> J s w \<Longrightarrow> J s1 w1" and "J s w"
  shows "(\<exists>s1. J s1 w') \<and> (\<forall>s1. visit_of v = Some s1 \<longrightarrow> J s1 w')"
proof -
  obtain acc1 tmp1 s1 w1 where d: "drain recv tmp s acc w = Some (acc1, tmp1, s1, w1)"
    using assms(1) by (auto simp: visit_connection_def split: option.splits)
  have step: "\<forall>s buf n w r buf1 s1 w1. recv s buf n w = (r, buf1, s1, w1) \<and> J s w \<longrightarrow> J s1 w1" using assms(2) by blast
  have J: "J s1 w1" using drain_keeps_aux [OF d step assms(4)] by simp
  show ?thesis
  proof (cases "fin s1 w1 \<and> acc1 \<noteq> []")
    case False
    with assms(1) d J show ?thesis by (auto simp: visit_connection_def)
  next
    case True
    show ?thesis
    proof (cases "create_response (to_text acc1)")
      case (Inl e)
      with assms(1) d J True show ?thesis by (auto simp: visit_connection_def)
    next
      case (Inr resp)
      obtain sent s2 w2 where sent: "send s1 (of_text resp) (of_nat (length resp)) w1 = (sent, s2, w2)"
        using prod_cases3 by blast
      from assms(3) [OF this J] sent assms(1) d True Inr show ?thesis
        by (auto simp: visit_connection_def split: if_splits)
    qed
  qed
qed

subsection \<open>Elements of the vector\<close>

definition elems_all :: "(conn \<Rightarrow> bool) \<Rightarrow> (base_socket \<times> byte list) list \<Rightarrow> bool" where
  "elems_all C es \<longleftrightarrow> (\<forall>e \<in> set es. \<forall>c. bs_storage (fst e) = Some c \<longrightarrow> C c)"

lemma elems_all_mono: "elems_all C es \<Longrightarrow> set es' \<subseteq> set es \<Longrightarrow> elems_all C es'"
  unfolding elems_all_def by blast

lemma elems_all_update:
  assumes "elems_all C es" and "\<And>c. bs_storage (fst e) = Some c \<Longrightarrow> C c"
  shows "elems_all C (es[i := e])"
  using assms set_update_subset_insert [of es i e] unfolding elems_all_def by blast

lemma elems_all_nth: "elems_all C es \<Longrightarrow> i < length es \<Longrightarrow> bs_storage (fst (es ! i)) = Some c \<Longrightarrow> C c"
  unfolding elems_all_def by (meson nth_mem)

lemma elems_all_object: "elems_all C (cn_elems v) \<Longrightarrow> object_at v addr = Some c \<Longrightarrow> C c"
  by (auto simp: object_at_def dest: elems_all_nth split: if_splits)

lemma put_length [simp]:
  "length (cn_elems (put_object addr c v)) = length (cn_elems v)"
  "length (cn_elems (put_text i text v)) = length (cn_elems v)"
  by (simp_all add: put_object_def put_text_def)

lemma elems_all_put_object: "elems_all C (cn_elems v) \<Longrightarrow> C c \<Longrightarrow> elems_all C (cn_elems (put_object addr c v))"
  by (auto simp: put_object_def intro!: elems_all_update)

lemma elems_all_put_text:
  "elems_all C (cn_elems v) \<Longrightarrow> i < length (cn_elems v) \<Longrightarrow> elems_all C (cn_elems (put_text i text v))"
  by (auto simp: put_text_def intro!: elems_all_update dest: elems_all_nth)

lemma elems_all_emplace_back:
  assumes "elems_all C (cn_elems v)" and "C (fst (move_conn c))"
  shows "elems_all C (cn_elems (fst (emplace_back grow c fd v)))"
  using assms by (auto simp: emplace_back_def base_socket_ctor_def base_socket_move_def elems_all_def Let_def split: prod.splits)

text \<open>
  The contract: with connections in \<open>C\<close>, the virtual calls and the destructor make calls in \<open>A\<close> only
  and leave a connection in \<open>C\<close>.
\<close>

locale guarded =
  fixes K :: "'k os" and st :: sock_state and A :: "sys_call \<Rightarrow> bool" and C :: "conn \<Rightarrow> bool"
  assumes destroy_guarded: "C c \<Longrightarrow> via K A w (destroy_conn K c w)"
    and recv_guarded: "C c \<Longrightarrow> conn_recv K st c buf n w = (r, buf1, c1, w1) \<Longrightarrow> C c1 \<and> via K A w w1"
    and send_guarded: "C c \<Longrightarrow> conn_send K st c buf n w = (sent, c1, w1) \<Longrightarrow> C c1 \<and> via K A w w1"
begin

lemma deleter_guarded: "elems_all C (cn_elems v) \<Longrightarrow> via K A w (deleter K v ptr w)"
  by (auto simp: deleter_def split: option.splits intro: via_intros destroy_guarded dest: elems_all_object)

lemma move_assign_at_guarded:
  assumes "move_assign_at K i j (v, w) = (v', w')" and "elems_all C (cn_elems v)" and "j < length (cn_elems v)"
  shows "elems_all C (cn_elems v') \<and> length (cn_elems v') = length (cn_elems v) \<and> via K A w w'"
proof -
  have "cn_elems v ! j \<in> set (cn_elems v)" using assms(3) by simp
  then have "bs_storage (fst (cn_elems v ! j)) = Some c \<Longrightarrow> C c" for c
    using assms(2) unfolding elems_all_def by blast
  with assms(1,2) deleter_guarded [OF assms(2)] show ?thesis
    by (auto simp: move_assign_at_def Let_def base_socket_move_def intro!: elems_all_update)
qed

lemma shift_down_guarded:
  "shift_down K m i (v, w) = (v', w') \<Longrightarrow> elems_all C (cn_elems v) \<Longrightarrow> i + m < length (cn_elems v) \<or> m = 0
     \<Longrightarrow> elems_all C (cn_elems v') \<and> length (cn_elems v') = length (cn_elems v) \<and> via K A w w'"
proof (induction m arbitrary: i v w)
  case (Suc m)
  obtain v1 w1 where m: "move_assign_at K i (Suc i) (v, w) = (v1, w1)" by (rule prod.exhaust)
  have "Suc i < length (cn_elems v)" using Suc.prems(3) by simp
  note step = move_assign_at_guarded [OF m Suc.prems(2) this]
  have "shift_down K m (Suc i) (v1, w1) = (v', w')" using Suc.prems(1) m by simp
  from Suc.IH [OF this] step Suc.prems(3) show ?case by (auto intro: via_trans)
qed (simp add: via_refl)

lemma destroy_range_guarded: "elems_all C (cn_elems v) \<Longrightarrow> via K A w (destroy_range K v is w)"
  by (induction "is" arbitrary: w) (auto intro: via_refl via_trans deleter_guarded)

lemma erase_tail_guarded:
  "erase_tail K r (v, w) = (v', w') \<Longrightarrow> elems_all C (cn_elems v) \<Longrightarrow> elems_all C (cn_elems v') \<and> via K A w w'"
  by (auto simp: erase_tail_def intro: destroy_range_guarded elems_all_mono [OF _ set_take_subset])

lemma erase_at_guarded:
  assumes "erase_at K k (v, w) = (v', w')" and "elems_all C (cn_elems v)" and "k < length (cn_elems v)"
  shows "elems_all C (cn_elems v') \<and> via K A w w'"
proof -
  let ?n = "length (cn_elems v)"
  obtain v1 w1 where s: "shift_down K (?n - 1 - k) k (v, w) = (v1, w1)" by (rule prod.exhaust)
  have "k + (?n - 1 - k) < ?n \<or> ?n - 1 - k = 0" using assms(3) by linarith
  note shifted = shift_down_guarded [OF s assms(2) this]
  have "erase_tail K (?n - 1) (v1, w1) = (v', w')" using assms(1) s by (simp add: erase_at_def Let_def)
  from erase_tail_guarded [OF this] shifted show ?thesis by (blast intro: via_trans)
qed

lemma remove_loop_guarded:
  "remove_loop K fd is r (v, w) = (r', (v', w')) \<Longrightarrow> elems_all C (cn_elems v) \<Longrightarrow> \<forall>i \<in> set is. i < length (cn_elems v)
     \<Longrightarrow> elems_all C (cn_elems v') \<and> via K A w w'"
proof (induction "is" arbitrary: r v w)
  case (Cons i "is")
  show ?case
  proof (cases "bs_fd (fst (cn_elems v ! i)) = fd")
    case True
    with Cons show ?thesis by simp
  next
    case False
    obtain v1 w1 where m: "move_assign_at K r i (v, w) = (v1, w1)" by (rule prod.exhaust)
    have "i < length (cn_elems v)" using Cons.prems(3) by simp
    note step = move_assign_at_guarded [OF m Cons.prems(2) this]
    have "remove_loop K fd is (Suc r) (v1, w1) = (r', (v', w'))" using Cons.prems(1) False m by simp
    from Cons.IH [OF this] step Cons.prems(3) show ?thesis by (auto intro: via_trans)
  qed
qed (simp add: via_refl)

lemma on_close_tcp_guarded:
  assumes "on_close_tcp K fd (v, w) = (v', w')" and "elems_all C (cn_elems v)"
  shows "elems_all C (cn_elems v') \<and> via K A w w'"
proof -
  let ?first = "length (takeWhile (\<lambda>e. bs_fd (fst e) \<noteq> fd) (cn_elems v))"
  obtain r v1 w1 where l: "remove_loop K fd [Suc ?first..<length (cn_elems v)] ?first (v, w) = (r, (v1, w1))"
    using prod_cases3 by blast
  have removed: "elems_all C (cn_elems v1) \<and> via K A w w1" using remove_loop_guarded [OF l assms(2)] by simp
  have "erase_tail K r (v1, w1) = (v', w')" using assms(1) l by (simp add: on_close_tcp_def Let_def)
  from erase_tail_guarded [OF this] removed show ?thesis by (blast intro: via_trans)
qed

lemma visit_guarded:
  assumes "visit_connection (conn_recv K st) (conn_send K st) (conn_finished st) is_tcp tmp c text w = Some (r, tmp1, w1)"
    and "C c"
  shows "via K A w w1 \<and> (\<forall>c1. visit_of r = Some c1 \<longrightarrow> C c1)"
proof -
  let ?J = "\<lambda>c w1. C c \<and> via K A w w1"
  have "(\<exists>c1. ?J c1 w1) \<and> (\<forall>c1. visit_of r = Some c1 \<longrightarrow> ?J c1 w1)"
    using assms(1)
  proof (rule visit_keeps [where J = ?J])
    show "?J c2 w3" if "conn_recv K st c' buf n w2 = (x, buf1, c2, w3)" "?J c' w2" for c' buf n w2 x buf1 c2 w3
      using recv_guarded [OF _ that(1)] that(2) by (blast intro: via_trans)
    show "?J c2 w3" if "conn_send K st c' buf n w2 = (x, c2, w3)" "?J c' w2" for c' buf n w2 x c2 w3
      using send_guarded [OF _ that(1)] that(2) by (blast intro: via_trans)
  qed (use assms(2) via_refl in blast)
  then show ?thesis by blast
qed

end

lemma serve_from_guarded:
  assumes "serve_from K st is_tcp tmp i v w = Some (ex, v', tmp', w')"
  shows "guarded K st A C \<Longrightarrow> elems_all C (cn_elems v) \<Longrightarrow> elems_all C (cn_elems v') \<and> via K A w w'"
  using assms
proof (induct K st is_tcp tmp i v w "(ex, v', tmp', w')" rule: serve_from.raw_induct [rotated, consumes 1, case_names step])
  case (step sf K st is_tcp tmp i v w)
  note rest = step.hyps(1) [OF _ step.prems(1)]
  show ?case
  proof (cases "length (cn_elems v) \<le> i")
    case True
    with step.hyps(2) step.prems(2) show ?thesis by (auto simp: via_refl)
  next
    case False
    show ?thesis
    proof (cases "Option.bind (bs_ptr (fst (cn_elems v ! i))) (\<lambda>addr. map_option (\<lambda>c. (addr, c)) (object_at v addr))")
      case None
      with step.hyps(2) step.prems(2) False show ?thesis by (auto intro: via_intros)
    next
      case (Some x)
      then obtain addr c where x: "x = (addr, c)" "object_at v addr = Some c" by (auto split: bind_splits)
      have c: "C c" using elems_all_object [OF step.prems(2) x(2)] .
      obtain r tmp1 w1 where visit: "visit_connection (conn_recv K st) (conn_send K st) (conn_finished st) is_tcp tmp c
          (snd (cn_elems v ! i)) w = Some (r, tmp1, w1)"
        using step.hyps(2) False Some x(1) by (auto split: option.splits)
      note spare = guarded.visit_guarded [OF step.prems(1) visit c]
      show ?thesis
      proof (cases r)
        case (Next c1 kept)
        with step.hyps(2) False Some x(1) visit
        have "sf K st is_tcp tmp1 (Suc i) (put_text i kept (put_object addr c1 v)) w1 = Some (ex, v', tmp', w')" by simp
        from rest [OF this] spare Next False step.prems(2) show ?thesis
          by (auto simp: elems_all_put_text elems_all_put_object intro: via_trans)
      next
        case (Again c1)
        with step.hyps(2) False Some x(1) visit
        have "sf K st is_tcp tmp1 i (put_text i [] (put_object addr c1 v)) w1 = Some (ex, v', tmp', w')" by simp
        from rest [OF this] spare Again False step.prems(2) show ?thesis
          by (auto simp: elems_all_put_text elems_all_put_object intro: via_trans)
      next
        case (Erased c1)
        obtain v2 w2 where e: "erase_at K i (put_object addr c1 v, w1) = (v2, w2)" by (rule prod.exhaust)
        have erased: "elems_all C (cn_elems v2) \<and> via K A w1 w2"
          using guarded.erase_at_guarded [OF step.prems(1) e] spare Erased False step.prems(2) by (simp add: elems_all_put_object)
        have "sf K st is_tcp tmp1 i v2 w2 = Some (ex, v', tmp', w')"
          using step.hyps(2) False Some x(1) visit Erased e by simp
        from rest [OF this] erased spare show ?thesis by (blast intro: via_trans)
      next
        case (Crashed e)
        with step.hyps(2) False Some x(1) visit spare step.prems(2) show ?thesis by auto
      qed
    qed
  qed
qed

subsection \<open>Runs\<close>

text \<open>What the handlers, the poll and the loop keep, a run keeps, up to the end of a process that exits.\<close>

locale server_run =
  fixes K :: "'k os" and grow :: "nat \<Rightarrow> nat" and pr :: proto
    and I :: "epoll_t server \<times> ('k \<times> connections) world \<Rightarrow> bool"
  assumes poll_keeps: "epoll_proceed (beside K) (en_poll s) t w = (evs, w1) \<Longrightarrow> I (s, w) \<Longrightarrow> I (s, w1)"
    and call_keeps: "server_call (beside K) (epoll_traits (beside K)) (server_callbacks (beside K) grow pr) pr h fd s0 = (ex, s1)
      \<Longrightarrow> I s0 \<Longrightarrow> I s1"
    and upcall_keeps: "I (s, w) \<Longrightarrow> I (s, upcall cb w)"
    and loop_keeps: "serve_from (beside K) (en_state s) (\<not> is_connectionless pr) tmp 0 (active_sockets w) w = Some (x, v, tmp1, w1)
      \<Longrightarrow> I (s, w) \<Longrightarrow> I (s, put_sockets v w1)"
    and clear_keeps: "I (s, w) \<Longrightarrow> I (s, destroy_sockets (beside K) w)"

sublocale server_run \<subseteq> handlers: handler_contract I
  "\<lambda>t (s, w). case pt_proceed (epoll_traits (beside K)) (en_poll s) t w of (evs, w1) \<Rightarrow> (evs, (s, w1))"
  "server_call (beside K) (epoll_traits (beside K)) (server_callbacks (beside K) grow pr) pr"
  "server_unhandled (server_callbacks (beside K) grow pr)" obs for obs
proof unfold_locales
  fix t s evs s1
  assume "(case s of (s, w) \<Rightarrow> case pt_proceed (epoll_traits (beside K)) (en_poll s) t w of (evs, w1) \<Rightarrow> (evs, (s, w1))) = (evs, s1)"
    and "I s"
  then show "I s1" by (auto split: prod.splits dest: poll_keeps)
next
  fix cb evs s ex s1
  assume "server_unhandled (server_callbacks (beside K) grow pr) cb evs s = (ex, s1)" and "I s"
  then show "I s1" by (cases s) (auto simp: server_unhandled_def server_callbacks_def intro: upcall_keeps)
qed (rule call_keeps)

context server_run
begin

lemma round_keeps:
  assumes "server_round (beside K) (epoll_traits (beside K)) (server_callbacks (beside K) grow pr) pr tmp s = Some (ex, tmp', s')"
    and "I s"
  shows "I s'"
proof -
  obtain r s1 where p: "server_proceed (beside K) (epoll_traits (beside K)) (server_callbacks (beside K) grow pr) pr 10 s = (r, s1)"
    by (rule prod.exhaust)
  have kept: "I s1" using handlers.proceed_keeps [OF p [unfolded server_proceed_def] assms(2)] .
  show ?thesis
  proof (cases r)
    case (Inl exs)
    with assms(1) p kept show ?thesis by (cases s1) (auto simp: server_round_def)
  next
    case (Inr b)
    obtain s2 w1 where s1: "s1 = (s2, w1)" by (rule prod.exhaust)
    then obtain x v tmp1 w2 where
      f: "serve_from (beside K) (en_state s2) (\<not> is_connectionless pr) tmp 0 (active_sockets w1) w1 = Some (x, v, tmp1, w2)"
      "s' = (s2, put_sockets v w2)"
      using assms(1) p Inr by (auto simp: server_round_def split: option.splits prod.splits)
    with loop_keeps [OF f(1)] kept s1 show ?thesis by simp
  qed
qed

lemma rounds_keep:
  "server_rounds (beside K) (epoll_traits (beside K)) (server_callbacks (beside K) grow pr) pr main_loop rounds tmp s
     = Some (st, s') \<Longrightarrow> I s \<Longrightarrow> I s'"
proof (induction rounds arbitrary: main_loop tmp s)
  case (Cons n rounds)
  show ?case
  proof (cases "main_loop = 0")
    case False
    then obtain ex tmp1 s1 where r: "server_round (beside K) (epoll_traits (beside K)) (server_callbacks (beside K) grow pr) pr tmp s
        = Some (ex, tmp1, s1)" using Cons.prems(1) by (cases s) (auto split: option.splits)
    note l1 = round_keeps [OF r Cons.prems(2)]
    with Cons False r show ?thesis by (auto split: option.splits)
  qed (use Cons.prems in simp)
qed (simp split: if_splits)

end

lemma server_main_cases:
  assumes "server_main K N grow pr p rounds w = Some (x, w')" and "x = Running \<or> x = Exited n"
  obtains ep w1 s0 w2 st s3 where "epoll_ctor K 5 10 w = (Inr ep, w1)"
    "server_init K N (epoll_traits K) pr p (server_ctor ep ipv4 None) w1 = (True, s0, w2)"
    "server_rounds K (epoll_traits K) (server_callbacks K grow pr) pr 1 rounds
       (replicate (if is_connectionless pr then 256 else 20) 0) (s0, w2) = Some (st, s3)"
    "w' = snd s3 \<or> w' = destroy_sockets K (snd s3)"
proof -
  obtain ep w1 where ep: "epoll_ctor K 5 10 w = (Inr ep, w1)"
    using assms by (auto simp: server_main_def Let_def split: prod.splits sum.splits)
  obtain s0 w2 where ini: "server_init K N (epoll_traits K) pr p (server_ctor ep ipv4 None) w1 = (True, s0, w2)"
    using assms ep by (auto simp: server_main_def Let_def split: prod.splits sum.splits bool.splits)
  obtain st s3 where run: "server_rounds K (epoll_traits K) (server_callbacks K grow pr) pr 1 rounds
      (replicate (if is_connectionless pr then 256 else 20) 0) (s0, w2) = Some (st, s3)"
    using assms ep ini by (auto simp: server_main_def Let_def split: option.splits)
  have "w' = snd s3 \<or> w' = destroy_sockets K (snd s3)"
    using assms ep ini run
    by (cases s3) (auto simp: server_main_def Let_def server_exit_def split: exit_status.splits prod.splits sum.splits)
  with that ep ini run show ?thesis by blast
qed

subsection \<open>The invariant of a guarded run\<close>

text \<open>The server is \<open>s0\<close>, since \<open>X\<close> only calls in \<open>A\<close> were made, and the vector holds connections in \<open>C\<close>.\<close>

definition guards ::
  "('k \<Rightarrow> int set) \<Rightarrow> (sys_call \<Rightarrow> bool) \<Rightarrow> (conn \<Rightarrow> bool) \<Rightarrow> event list \<Rightarrow> 'p server
   \<Rightarrow> 'p server \<times> ('k \<times> connections) world \<Rightarrow> bool" where
  "guards live A C X s0 s \<longleftrightarrow>
     fst s = s0 \<and> since (live \<circ> fst) A X (snd s) \<and> elems_all C (cn_elems (active_sockets (snd s)))"

text \<open>What remains to be shown for a protocol: its connections keep the contract, and so does its read handler.\<close>

definition guarded_server ::
  "('k \<Rightarrow> int set) \<Rightarrow> 'k os \<Rightarrow> (nat \<Rightarrow> nat) \<Rightarrow> proto \<Rightarrow> (sys_call \<Rightarrow> bool) \<Rightarrow> (conn \<Rightarrow> bool) \<Rightarrow> event list
   \<Rightarrow> epoll_t server \<Rightarrow> bool" where
  "guarded_server live K grow pr A C X s0 \<longleftrightarrow>
     posix_fds K live \<and> guarded (beside K) (en_state s0) A C \<and> (\<forall>c. epoll_call c \<longrightarrow> A c)
     \<and> (\<forall>fd s ex s'.
          server_call (beside K) (epoll_traits (beside K)) (server_callbacks (beside K) grow pr) pr SReadReady fd s = (ex, s')
          \<and> guards live A C X s0 s \<longrightarrow> guards live A C X s0 s')"

lemma guarded_serverD:
  assumes "guarded_server live K grow pr A C X s0"
  shows "posix_fds K live" and "guarded (beside K) (en_state s0) A C" and "epoll_call c \<Longrightarrow> A c"
    and "server_call (beside K) (epoll_traits (beside K)) (server_callbacks (beside K) grow pr) pr SReadReady fd s = (ex, s')
      \<Longrightarrow> guards live A C X s0 s \<Longrightarrow> guards live A C X s0 s'"
  using assms unfolding guarded_server_def by blast+

lemma guards_via:
  assumes "guards live A C X s0 (s, w)" and "via (beside K) A w w1" and "posix_fds K live"
  shows "guards live A C X s0 (s, w1)"
  using assms(1) since_via [OF assms(2) beside_posix [OF assms(3)]] active_sockets_via [OF assms(2)]
  by (simp add: guards_def)

lemma guards_via_put:
  assumes "guards live A C X s0 (s, w)" and "elems_all C (cn_elems v) \<and> via (beside K) A w w1" and "posix_fds K live"
  shows "guards live A C X s0 (s, put_sockets v w1)"
  using guards_via [OF assms(1) assms(2) [THEN conjunct2] assms(3)] assms(2) by (simp add: guards_def)

lemma guards_upcall: "guards live A C X s0 (s, w) \<Longrightarrow> guards live A C X s0 (s, upcall cb w)"
  by (simp add: guards_def since_upcall)

lemma guarded_erase:
  assumes G: "guarded_server live K grow pr A C X s0" and g: "guards live A C X s0 (s, w)"
    and "server_call (beside K) (epoll_traits (beside K)) (server_callbacks (beside K) grow pr) pr SErase fd (s, w) = (ex, s')"
  shows "guards live A C X s0 s'"
proof -
  note P = guarded_serverD(1) [OF G] and c = guarded_serverD(2) [OF G]
  obtain ok w1 where d: "del_socket (beside K) (en_poll s) fd w = (ok, w1)" by fastforce
  note w1 = guards_via [OF g via_mono [OF via_epoll(2) [OF d] guarded_serverD(3) [OF G]] P]
  show ?thesis
  proof (cases "\<exists>cb. sv_erase s = Some (Some cb)")
    case False
    with assms(3) d w1 show ?thesis by (auto simp: call_erase_def split: option.splits)
  next
    case True
    then obtain cb where cb: "sv_erase s = Some (Some cb)" ..
    let ?u = "upcall cb w1"
    obtain v w2 where v: "(if is_connectionless pr then on_close_udp (beside K) (active_sockets w1, ?u)
        else on_close_tcp (beside K) fd (active_sockets w1, ?u)) = (v, w2)" by (rule prod.exhaust)
    have elems: "elems_all C (cn_elems (active_sockets w1))" using w1 by (simp add: guards_def)
    have "elems_all C (cn_elems v) \<and> via (beside K) A ?u w2"
      using guarded.on_close_tcp_guarded [OF c _ elems] guarded.erase_tail_guarded [OF c _ elems] v
      by (auto simp: on_close_udp_def split: if_splits)
    from guards_via_put [OF guards_upcall [OF w1] this P] assms(3) d cb v show ?thesis
      by (cases "is_connectionless pr") (auto simp: call_erase_def server_callbacks_def)
  qed
qed

interpretation runs: server_run K grow pr
  "\<lambda>s. guarded_server live K grow pr A C X s0 \<longrightarrow> guards live A C X s0 s" for K grow pr live A C X s0
proof unfold_locales
  fix h fd s ex s1
  assume call: "server_call (beside K) (epoll_traits (beside K)) (server_callbacks (beside K) grow pr) pr h fd s = (ex, s1)"
    and g: "guarded_server live K grow pr A C X s0 \<longrightarrow> guards live A C X s0 s"
  show "guarded_server live K grow pr A C X s0 \<longrightarrow> guards live A C X s0 s1"
  proof
    assume G: "guarded_server live K grow pr A C X s0"
    with g have g: "guards live A C X s0 s" by blast
    obtain s' w where s: "s = (s', w)" by (rule prod.exhaust)
    show "guards live A C X s0 s1"
    proof (cases h)
      case SErase
      show ?thesis by (rule guarded_erase [OF G g [unfolded s] call [unfolded s SErase]])
    next
      case SReadReady
      show ?thesis by (rule guarded_serverD(4) [OF G call [unfolded SReadReady] g])
    qed
  qed
next
  fix s t w evs w1
  assume p: "epoll_proceed (beside K) (en_poll s) t w = (evs, w1)"
    and g: "guarded_server live K grow pr A C X s0 \<longrightarrow> guards live A C X s0 (s, w)"
  show "guarded_server live K grow pr A C X s0 \<longrightarrow> guards live A C X s0 (s, w1)"
  proof
    assume G: "guarded_server live K grow pr A C X s0"
    with g have g: "guards live A C X s0 (s, w)" by blast
    show "guards live A C X s0 (s, w1)"
      by (rule guards_via [OF g via_mono [OF via_epoll(3) [OF p] guarded_serverD(3) [OF G]] guarded_serverD(1) [OF G]])
  qed
next
  fix s tmp w x v tmp1 w1
  assume f: "serve_from (beside K) (en_state s) (\<not> is_connectionless pr) tmp 0 (active_sockets w) w = Some (x, v, tmp1, w1)"
    and g: "guarded_server live K grow pr A C X s0 \<longrightarrow> guards live A C X s0 (s, w)"
  show "guarded_server live K grow pr A C X s0 \<longrightarrow> guards live A C X s0 (s, put_sockets v w1)"
  proof
    assume G: "guarded_server live K grow pr A C X s0"
    with g have g: "guards live A C X s0 (s, w)" by blast
    then have "s = s0" "elems_all C (cn_elems (active_sockets w))" by (simp_all add: guards_def)
    with serve_from_guarded [OF f] guarded_serverD(2) [OF G] have "elems_all C (cn_elems v) \<and> via (beside K) A w w1" by simp
    from guards_via_put [OF g this guarded_serverD(1) [OF G]] show "guards live A C X s0 (s, put_sockets v w1)" .
  qed
next
  fix s w
  assume g: "guarded_server live K grow pr A C X s0 \<longrightarrow> guards live A C X s0 (s, w)"
  obtain v w1 where e: "erase_tail (beside K) 0 (active_sockets w, w) = (v, w1)" by (rule prod.exhaust)
  show "guarded_server live K grow pr A C X s0 \<longrightarrow> guards live A C X s0 (s, destroy_sockets (beside K) w)"
  proof
    assume G: "guarded_server live K grow pr A C X s0"
    with g have g: "guards live A C X s0 (s, w)" by blast
    then have "elems_all C (cn_elems (active_sockets w))" by (simp add: guards_def)
    from guards_via_put [OF g guarded.erase_tail_guarded [OF guarded_serverD(2) [OF G] e this] guarded_serverD(1) [OF G]] e
    show "guards live A C X s0 (s, destroy_sockets (beside K) w)" by (simp add: destroy_sockets_def)
  qed
qed (blast intro: guards_upcall)

lemma guarded_run:
  assumes "guarded_server live K grow pr A C X s0" and "guards live A C X s0 s"
    and "server_rounds (beside K) (epoll_traits (beside K)) (server_callbacks (beside K) grow pr) pr main_loop rounds tmp s
       = Some (st, s3)"
    and "w' = snd s3 \<or> w' = destroy_sockets (beside K) (snd s3)"
  shows "since (live \<circ> fst) A X w'"
proof -
  have g: "guards live A C X s0 s3" using runs.rounds_keep [OF assms(3)] assms(1,2) by blast
  moreover have "guards live A C X s0 (fst s3, destroy_sockets (beside K) (snd s3))"
    using runs.clear_keeps [of live K grow pr A C X s0 "fst s3" "snd s3"] assms(1) g by simp
  ultimately show ?thesis using assms(4) by (auto simp: guards_def)
qed

end
