(* ===== verification/Server_Program_Props.thy ===== *)
theory Server_Program_Props
  imports Server_Runs Typed_Safety
begin

section \<open>Whole runs of the example TCP server\<close>

text \<open>
  The vector of connections can go wrong in several ways, which \<open>Connections_Props\<close> shows. This
  theory shows what a run keeps all the same, whatever becomes of the vector: the server's own object
  and its listening socket. What the elements of the vector hold are descriptors that were accepted
  while the listening socket was open, so nothing that is done with an element, even through the
  wrong pointer, touches the listening descriptor.
\<close>

subsection \<open>Calls and connections that spare a descriptor\<close>

fun spares :: "int \<Rightarrow> sys_call \<Rightarrow> bool" where
  "spares L (SysBind fd sa) = (fd \<noteq> L)"
| "spares L (SysConnect fd sa) = (fd \<noteq> L)"
| "spares L (SysListen fd b) = (fd \<noteq> L)"
| "spares L (SysSend fd buf n fl) = (fd \<noteq> L)"
| "spares L (SysSendto fd buf n fl sa) = (fd \<noteq> L)"
| "spares L (SysRecv fd n fl) = (fd \<noteq> L)"
| "spares L (SysRecvfrom fd n fl al) = (fd \<noteq> L)"
| "spares L (SysShutdown fd d) = (fd \<noteq> L)"
| "spares L (SysClose fd) = (fd \<noteq> L)"
| "spares L _ = True"

fun conn_spares :: "int \<Rightarrow> conn \<Rightarrow> bool" where
  "conn_spares L (Tcp a) \<longleftrightarrow> si_fd (a_impl (as_sock a)) \<noteq> Some L"
| "conn_spares L (Udp r) \<longleftrightarrow> True"

lemma via_destroy_conn: "conn_spares L c \<Longrightarrow> via K (spares L) w (destroy_conn K c w)"
  by (cases c)
    (auto simp: accepted_dtor_def active_dtor_def destroy_impl_def impl_close_def
      split: option.splits prod.splits intro: via_intros via_call)

lemma conn_calls_spare:
  assumes "conn_spares L c" and "st = StListening l"
  shows "conn_recv K st c buf n w = (r, buf1, c1, w1) \<Longrightarrow> conn_spares L c1 \<and> via K (spares L) w w1"
    and "conn_send K st c buf n w = (sent, c1, w1) \<Longrightarrow> conn_spares L c1 \<and> via K (spares L) w w1"
  using assms
  by (cases c; force simp: accepted_recv_def receive_conn_def impl_receive_def accepted_send_def send_conn_def
      impl_send_def ref_recv_def ref_send_def ref_active_def split: prod.splits option.splits if_splits
      intro: via_refl via_call)+

interpretation tcp_conns: guarded K "StListening l" "spares L" "conn_spares L" for K l L
proof unfold_locales
  show "conn_spares L c \<Longrightarrow> via K (spares L) w (destroy_conn K c w)" for c w by (rule via_destroy_conn)
  show "conn_spares L c \<Longrightarrow> conn_recv K (StListening l) c buf n w = (r, buf1, c1, w1)
      \<Longrightarrow> conn_spares L c1 \<and> via K (spares L) w w1" for c buf n w r buf1 c1 w1
    by (rule conn_calls_spare(1) [OF _ refl])
  show "conn_spares L c \<Longrightarrow> conn_send K (StListening l) c buf n w = (sent, c1, w1)
      \<Longrightarrow> conn_spares L c1 \<and> via K (spares L) w w1" for c buf n w sent c1 w1
    by (rule conn_calls_spare(2) [OF _ refl])
qed

subsection \<open>Accepting\<close>

lemma accept_spares:
  assumes "posix_fds K live" and "since live (spares L) X w" and "L \<in> open_fds X" and "listening_accept K l w = (acc, w1)"
  shows "since live (spares L) X w1 \<and> (\<forall>a. acc = Some a \<longrightarrow> si_fd (a_impl a) \<noteq> Some L)"
proof (cases acc)
  case None
  then have "impl_accept K (l_impl l) w = (None, w1)"
    using assms(4) by (cases "fst (impl_accept K (l_impl l) w)") (auto simp: listening_accept_def mbind_def split: prod.splits)
  from impl_accept_trace [OF this] since_do_sys [OF assms(1,2)] assms(2) show ?thesis using None by auto
next
  case (Some a)
  with assms(4) obtain fd al fl r w0 us where d: "do_sys K (SysAccept4 fd al fl) w = (r, w0)" "rp_ret r \<noteq> -1"
    "w1 = mark_ubs us w0" "si_fd (a_impl a) = Some (rp_ret r)" by (auto elim: listening_accept_trace)
  have "ledger_ok live w" using assms(2) by (simp add: since_def)
  from do_sys_fresh [OF assms(1) this d(1)] d(2) have "rp_ret r \<notin> open_fds (w_trace w)" by simp
  moreover have "since live (spares L) X w0" using since_do_sys [OF assms(1,2) d(1)] by simp
  then have "since live (spares L) X w1" unfolding d(3) by (rule since_via [OF via_mark_ubs [OF via_refl] assms(1)])
  ultimately show ?thesis using since_open [OF assms(2,3)] d(4) Some by auto
qed

lemma move_conn_spares: "conn_spares L c \<Longrightarrow> conn_spares L (fst (move_conn c)) \<and> conn_spares L (snd (move_conn c))"
  by (cases c) (auto simp: accepted_move_def move_active_def move_impl_def split: prod.splits)

lemma call_on_conn_listens:
  assumes "call_on_conn (server_callbacks K grow pr) acc s = (ex, rest, s')"
    and "guards live A (conn_spares L) X s0 s" and "conn_spares L (Tcp acc)"
  shows "guards live A (conn_spares L) X s0 s' \<and> conn_spares L (Tcp rest)"
proof (cases "\<exists>cb. sv_on_conn s0 = Some (Some cb)")
  case False
  with assms show ?thesis by (auto simp: call_on_conn_def guards_def split: option.splits)
next
  case True
  then obtain cb where cb: "sv_on_conn s0 = Some (Some cb)" ..
  obtain w where s: "s = (s0, w)" "elems_all (conn_spares L) (cn_elems (active_sockets w))"
    using assms(2) by (cases s) (auto simp: guards_def)
  obtain v left where em: "emplace_back grow (Tcp acc) (accepted_fd acc) (active_sockets w) = (v, left)" by (rule prod.exhaust)
  have "elems_all (conn_spares L) (cn_elems v)"
    using elems_all_emplace_back [OF s(2)] move_conn_spares [OF assms(3)] em by (metis fst_conv)
  moreover have "left = snd (move_conn (Tcp acc))" using emplace_back_rest [of grow "Tcp acc"] em by (metis snd_conv)
  then have "conn_spares L left" using move_conn_spares [OF assms(3)] by simp
  then have "conn_spares L (Tcp (tcp_rest left acc))" using assms(3) by (cases left) auto
  ultimately show ?thesis
    using assms(1,2) s cb em
    by (auto simp: call_on_conn_def server_callbacks_def on_conn_tcp_def guards_def since_upcall)
qed

lemma dtor_listens:
  assumes "posix_fds K live" and "guards live (spares L) (conn_spares L) X s0 (s1, w)" and "conn_spares L (Tcp rest)"
  shows "guards live (spares L) (conn_spares L) X s0 (s1, accepted_dtor (beside K) rest w)"
  using guards_via [OF assms(2) via_destroy_conn [OF assms(3)] assms(1)] by simp

lemma accept_listens:
  assumes "posix_fds K live" and "L \<in> open_fds X"
    and "accept_one (beside K) (epoll_traits (beside K)) (server_callbacks (beside K) grow pr) l s = (ex, s')"
    and "guards live (spares L) (conn_spares L) X s0 s"
  shows "guards live (spares L) (conn_spares L) X s0 s'"
proof -
  let ?G = "guards live (spares L) (conn_spares L) X s0"
  obtain w where s: "s = (s0, w)" "since (live \<circ> fst) (spares L) X w" using assms(4) by (cases s) (auto simp: guards_def)
  obtain acc w1 where la: "listening_accept (beside K) l w = (acc, w1)" by fastforce
  note a = accept_spares [OF beside_posix [OF assms(1)] s(2) assms(2) la]
  have "via (beside K) (\<lambda>c. (\<exists>fd al fl. c = SysAccept4 fd al fl) \<or> (\<exists>fd. c = SysClose fd)) w w1"
    using la by (auto simp: listening_accept_def split: prod.splits intro: via_accept)
  then have "active_sockets w1 = active_sockets w" by (rule active_sockets_via)
  with a assms(4) s(1) have w1: "?G (s0, w1)" by (simp add: guards_def)
  show ?thesis
  proof (cases acc)
    case None
    with assms(3) s(1) la w1 show ?thesis by (auto simp: accept_one_def)
  next
    case (Some c)
    obtain okb w2 where add: "add_socket (beside K) (en_poll s0) (impl_fd (a_impl c)) op_READ w1 = (okb, w2)" by fastforce
    have "via (beside K) (spares L) w1 w2" using via_epoll(1) [OF add] by (rule via_mono) (erule epoll_call.elims; simp)
    note w2 = guards_via [OF w1 this assms(1)]
    show ?thesis
    proof (cases "a_remote c")
      case None
      have "?G (s0, mark_ub EmptyOptional w2)" using w2 by (simp add: guards_def since_mark active_sockets_def)
      from dtor_listens [OF assms(1) this, of "\<lparr>as_sock = c, as_remote = undefined\<rparr>"] a assms(3) s(1) la Some add None
      show ?thesis by (auto simp: accept_one_def accepted_dtor_def)
    next
      case remote: (Some remote)
      have "conn_spares L (Tcp (fst (accepted_ctor remote c)))"
        using a Some by (simp add: accepted_ctor_def move_active_def move_impl_def)
      moreover obtain ex1 rest s3 w3 where call: "call_on_conn (server_callbacks (beside K) grow pr)
          (fst (accepted_ctor remote c)) (s0, w2) = (ex1, rest, (s3, w3))" using prod_cases4 by blast
      ultimately have "?G (s3, accepted_dtor (beside K) rest w3)"
        using call_on_conn_listens [OF call w2] dtor_listens [OF assms(1)] by blast
      with assms(3) s(1) la Some add remote call show ?thesis by (auto simp: accept_one_def)
    qed
  qed
qed

lemma tcp_server_guarded:
  assumes "posix_fds K live" and "L \<in> open_fds X" and "\<not> is_connectionless pr" and "en_state s0 = StListening l"
  shows "guarded_server live K grow pr (spares L) (conn_spares L) X s0"
  unfolding guarded_server_def
proof (intro conjI allI impI)
  show "guarded (beside K) (en_state s0) (spares L) (conn_spares L)"
    unfolding assms(4) by (rule tcp_conns.guarded_axioms)
  show "epoll_call c \<Longrightarrow> spares L c" for c by (erule epoll_call.elims) simp_all
  fix fd s ex s'
  assume h: "server_call (beside K) (epoll_traits (beside K)) (server_callbacks (beside K) grow pr) pr SReadReady fd s = (ex, s')
      \<and> guards live (spares L) (conn_spares L) X s0 s"
  obtain w where "s = (s0, w)" using h by (cases s) (simp add: guards_def)
  with h assms(3,4) accept_listens [OF assms(1,2), of grow pr l s ex s' s0] show "guards live (spares L) (conn_spares L) X s0 s'"
    by (cases s') (auto split: if_splits)
qed (rule assms(1))

subsection \<open>The whole process\<close>

lemma epoll_ctor_via: "epoll_ctor K n m w = (r, w1) \<Longrightarrow> via K (\<lambda>c. True) w w1"
  by (auto simp: epoll_ctor_def epoll_create_opt_def Let_def split: prod.splits option.splits if_splits intro: via_intros via_call)

lemma server_start_via:
  assumes "en_state s = StIdle None"
    and "server_start_conn K N (epoll_traits K) pr address prt mc oc er s w = (True, s', w')"
  shows "via K (\<lambda>c. True) w w'"
  using assms(2)
proof (cases rule: server_start_conn_cases)
  case (started k w1 addr bd k' w2 l bd' w3 ok w4 st)
  have v1: "via K (\<lambda>c. True) w w1"
    using socket_create_trace [OF started(3)] by (auto intro: via_call)
  have v2: "via K (\<lambda>c. True) w1 w2" using via_policies(2) [OF started(4)] by (rule via_mono) simp
  have v3: "via K (\<lambda>c. True) w2 w3" using via_policies(5) [OF started(5)] by (rule via_mono) simp
  have "add_socket K (en_poll s) (impl_fd (l_impl l)) op_READ w3 = (ok, w4)" using started(6) by simp
  from via_epoll(1) [OF this] have v4: "via K (\<lambda>c. True) w3 w4" by (rule via_mono) simp
  have "w' = w4" using started(7) assms(1) by simp
  with via_trans [OF v4 via_trans [OF v3 via_trans [OF v2 v1]]] show ?thesis by simp
qed simp_all

text \<open>What a run of the TCP server that has not returned looks like.\<close>

definition has_listened ::
  "inet \<Rightarrow> int \<Rightarrow> 'k world \<Rightarrow> 'k world \<Rightarrow> bool" where
  "has_listened N p w w' \<longleftrightarrow>
     (\<exists>since L addr junk e3 e2 e1 ty fl ep e0.
        w_trace w' = since
          @ [Sys (SysListen L 10) 0 e3, Sys (SysBind L (sock_addr_of addr)) 0 e2, Sys (SysSocket AF_INET ty fl) L e1,
             Sys (SysEpollCreate 5) ep e0] @ w_trace w
        \<and> from_string_and_port N junk ''127.0.0.1'' (word_of_int p) = Some addr
        \<and> L \<noteq> -1 \<and> (\<forall>c r e. Sys c r e \<in> set since \<longrightarrow> spares L c))"

text \<open>After \<^verbatim>\<open>init\<close> the server listens, and nothing else has happened.\<close>

lemma server_init_listens:
  assumes "posix_fds K live" and "ledger_ok (live \<circ> fst) w" and "cn_elems (active_sockets w) = []"
    and "epoll_ctor (beside K) 5 10 w = (Inr ep, w1)"
    and "server_init (beside K) N (epoll_traits (beside K)) tcp p (server_ctor ep ipv4 None) w1 = (True, s0, w2)"
  obtains L addr ty fl y e4 e3 e2 e1 e0 l where
    "w_trace w2 = [Sys (SysEpollCtl (ep_fd ep) EPOLL_CTL_ADD L (Some (flags_from_op op_READ, L))) y e4,
       Sys (SysListen L 10) 0 e3, Sys (SysBind L (sock_addr_of addr)) 0 e2, Sys (SysSocket AF_INET ty fl) L e1,
       Sys (SysEpollCreate 5) (ep_fd ep) e0] @ w_trace w"
    "from_string_and_port N (w_junk w1) ''127.0.0.1'' (word_of_int p) = Some addr"
    "en_state s0 = StListening l" "L \<noteq> -1" "guards live (spares L) (conn_spares L) (w_trace w2) s0 (s0, w2)"
proof -
  let ?s = "server_ctor ep ipv4 None"
  have s: "en_state ?s = StIdle None" "ob_handlers (en_obs ?s) = Map.empty" "en_af ?s = AF_INET" "en_poll ?s = ep"
    by (simp_all add: server_ctor_def endpoint_ctor_def endpoint.defs observer_ctor_def ipv4_def)
  have started: "server_start_conn (beside K) N (epoll_traits (beside K)) tcp ''127.0.0.1'' (word_of_int p) 10 (Some 0) (Some 1) ?s w1
      = (True, s0, w2)" using assms(5) by (simp add: server_init_def)
  have via: "via (beside K) (\<lambda>c. True) w w2"
    using epoll_ctor_via [OF assms(4)] server_start_via [OF s(1) started] by (rule via_trans [rotated])
  have "ledger_ok (live \<circ> fst) w2" by (rule via_ledger_ok [OF via beside_posix [OF assms(1)] assms(2)])
  moreover have "active_sockets w2 = active_sockets w" by (rule active_sockets_via [OF via])
  ultimately have listens: "guards live (spares L) (conn_spares L) (w_trace w2) s0 (s0, w2)" for L
    using assms(3) by (simp add: guards_def since_def elems_all_def)
  obtain e0 where e0: "w_trace w1 = Sys (SysEpollCreate 5) (ep_fd ep) e0 # w_trace w"
    using assms(4) by (auto simp: epoll_ctor_def split: prod.splits if_splits dest!: do_sys_trace)
  obtain addr L ty fl e1 e2 e3 y e4 l where calls: "from_string_and_port N (w_junk w1) ''127.0.0.1'' (word_of_int p) = Some addr"
      "w_trace w2 = [Sys (SysEpollCtl (ep_fd ep) EPOLL_CTL_ADD L (Some (flags_from_op op_READ, L))) y e4,
       Sys (SysListen L 10) 0 e3, Sys (SysBind L (sock_addr_of addr)) 0 e2, Sys (SysSocket AF_INET ty fl) L e1] @ w_trace w1"
      "L \<noteq> -1" "en_state s0 = StListening l"
    using server_start_calls [OF s(1,2) started] s(3,4) by (auto simp: c_int_def)
  with that listens e0 calls show ?thesis by simp
qed

lemma server_main_listens:
  assumes "posix_fds K live" and "ledger_ok (live \<circ> fst) w" and "cn_elems (active_sockets w) = []"
    and "server_main (beside K) N grow tcp p rounds w = Some (x, w')" and "x = Running \<or> x = Exited n"
  shows "has_listened N p w w'"
  using assms(4,5)
proof (cases rule: server_main_cases)
  case (1 ep w1 s0 w2 st s3)
  obtain L addr ty fl y e4 e3 e2 e1 e0 l where
    calls: "w_trace w2 = [Sys (SysEpollCtl (ep_fd ep) EPOLL_CTL_ADD L (Some (flags_from_op op_READ, L))) y e4,
       Sys (SysListen L 10) 0 e3, Sys (SysBind L (sock_addr_of addr)) 0 e2, Sys (SysSocket AF_INET ty fl) L e1,
       Sys (SysEpollCreate 5) (ep_fd ep) e0] @ w_trace w"
    and addr: "from_string_and_port N (w_junk w1) ''127.0.0.1'' (word_of_int p) = Some addr"
    and st: "en_state s0 = StListening l" and fd: "L \<noteq> -1" and l2: "guards live (spares L) (conn_spares L) (w_trace w2) s0 (s0, w2)"
    by (rule server_init_listens [OF assms(1-3) 1(1,2)])
  have L: "L \<in> open_fds (w_trace w2)" using calls fd by simp
  have w': "since (live \<circ> fst) (spares L) (w_trace w2) w'"
    by (rule guarded_run [OF tcp_server_guarded [OF assms(1) L _ st] l2 1(3,4)]) simp
  obtain t where t: "w_trace w' = t @ w_trace w2" "\<forall>c r e. Sys c r e \<in> set t \<longrightarrow> spares L c"
    using w' unfolding since_def by blast
  let ?add = "Sys (SysEpollCtl (ep_fd ep) EPOLL_CTL_ADD L (Some (flags_from_op op_READ, L))) y e4"
  have "w_trace w' = (t @ [?add])
      @ [Sys (SysListen L 10) 0 e3, Sys (SysBind L (sock_addr_of addr)) 0 e2, Sys (SysSocket AF_INET ty fl) L e1,
         Sys (SysEpollCreate 5) (ep_fd ep) e0] @ w_trace w"
    using t(1) calls by simp
  moreover have "\<forall>c r e. Sys c r e \<in> set (t @ [?add]) \<longrightarrow> spares L c" using t(2) by auto
  ultimately show ?thesis using addr fd unfolding has_listened_def by blast
qed

lemma server_program_listens:
  assumes "posix_fds K live" and "ledger_ok (live \<circ> fst) w" and "cn_elems (active_sockets w) = []"
    and "argv ! 1 = ''tcp''" and "server_program (beside K) N grow argv rounds w = Some (x, w')"
    and "x = Running \<or> x = Exited n"
  obtains p where "stoi (argv ! 2) = Inr p" "has_listened N p w w'"
proof -
  obtain pr p where args: "server_args argv = Inr (pr, p)" "server_main (beside K) N grow pr p rounds w = Some (x, w')"
    using assms(5,6) by (auto simp: server_program_def split: sum.splits bad_args.splits)
  then have "pr = tcp" "stoi (argv ! 2) = Inr p"
    using assms(4) by (auto simp: server_args_def split: if_splits sum.splits)
  with server_main_listens [OF assms(1-3) _ assms(6)] args(2) that show ?thesis by blast
qed

subsection \<open>The witnesses' run\<close>

text \<open>Nothing happens in the one round of this run, at the end of which two signals arrive.\<close>

lemma quiet_server_round:
  assumes "active_sockets w = connections_ctor"
  shows "\<exists>s1. server_round (beside counting_os) (epoll_traits (beside counting_os))
    (server_callbacks (beside counting_os) grow pr) pr tmp (s, w) = Some (None, tmp, s1)"
  using assms
  by (auto simp: server_round_def server_proceed_def observer_proceed_def epoll_proceed_def do_sys_def beside_def
      counting_os_def answer_def handle_unhandled_def add_exception_def server_callbacks_def server_unhandled_def
      active_sockets_def serve_from.simps Let_def connections_ctor_def split: option.splits)

lemma sample_server_program:
  obtains w' where "server_program (beside counting_os) loopback_inet Suc [''server'', ''tcp'', ''7777''] [2]
    (init_world ([] :: int list, connections_ctor)) = Some (Exited 1, w')"
proof -
  let ?w = "init_world ([] :: int list, connections_ctor)"
  obtain w1 where ep: "epoll_ctor (beside counting_os) 5 10 ?w = (Inr \<lparr>ep_fd = 3, ep_max_events = 10\<rparr>, w1)"
    "w_kern w1 = ([3], connections_ctor)"
    by (simp add: epoll_ctor_def do_sys_def beside_def counting_os_def answer_def Let_def)
  let ?s = "server_ctor \<lparr>ep_fd = 3, ep_max_events = 10\<rparr> ipv4 None"
  obtain a where a: "from_string_and_port loopback_inet (w_junk w1) ''127.0.0.1'' 7777 = Some a" "is_ipv4 (ap_addr a)"
    using loopback_parse by blast
  obtain s0 w2 where ini: "server_init (beside counting_os) loopback_inet (epoll_traits (beside counting_os)) tcp 7777 ?s w1
      = (True, s0, w2)" "active_sockets w2 = connections_ctor"
    using a ep(2)
    by (simp add: server_init_def server_start_conn_def idle_def server_ctor_def endpoint_ctor_def endpoint.defs
        mbind_obj2_def mbind_obj_def socket_create_def impl_open_def do_sys_def beside_def counting_os_def tcp_def
        answer_def Let_def impl_default_def move_impl_def bind_conn_def impl_bind_def bind_addr_def binded_ctor_def
        binded_listen_def impl_listen_def listening_ctor_def is_ipv4_def add_socket_def epoll_ctl_def active_sockets_def
        socket_impl_ctor_def socket_dtor_def binded_dtor_def destroy_impl_def impl_empty_def)
  obtain s1 where "server_round (beside counting_os) (epoll_traits (beside counting_os))
    (server_callbacks (beside counting_os) Suc tcp) tcp (replicate 20 0) (s0, w2) = Some (None, replicate 20 0, s1)"
    using quiet_server_round [OF ini(2)] by blast
  with ep(1) ini(1) that show ?thesis
    by (cases s1) (simp add: server_program_def server_args_def stoi_port server_main_def server_sig_def numeral_eq_Suc)
qed

lemma sample_start:
  "ledger_ok (set \<circ> fst) (init_world ([], connections_ctor))" "cn_elems (active_sockets (init_world ([], connections_ctor))) = []"
  by (simp_all add: ledger_ok_def active_sockets_def connections_ctor_def)

text \<open>
  C7: Whatever clients do to the example TCP server, as long as it runs, and also when a second
  signal makes it exit, the process has started with epoll_create, socket, bind and listen on
  one descriptor; and up to its first undefined behaviour, such as the use of a dangling element
  after the vector has grown, that descriptor is open, and nothing has been done with it since
  but accepting and polling. The vector is empty and the history free of undefined behaviour
  when the program starts.
\<close>

theorem example_server_keeps_listening:
  assumes "posix_fds K live" and "ledger_ok (live \<circ> fst) w" and "cn_elems (active_sockets w) = []"
    and "\<forall>e \<in> set (w_trace w). \<not> derails e"
    and "argv ! 1 = ''tcp''" and "server_program (beside K) N grow argv rounds w = Some (x, w')"
    and "x = Running \<or> x = Exited n"
  shows "\<exists>since L sa e3 e2 e1 ty fl ep e0.
      defined_part (w_trace w') = since @ [Sys (SysListen L 10) 0 e3, Sys (SysBind L sa) 0 e2, Sys (SysSocket AF_INET ty fl) L e1,
                            Sys (SysEpollCreate 5) ep e0] @ w_trace w
    \<and> L \<in> open_fds (defined_part (w_trace w')) \<and> (\<forall>c r e. Sys c r e \<in> set since \<longrightarrow> spares L c)"
proof -
  obtain p where "has_listened N p w w'" using server_program_listens [OF assms(1-3,5-7)] by blast
  then obtain since L addr e3 e2 e1 ty fl ep e0 where
    run: "w_trace w' = since @ [Sys (SysListen L 10) 0 e3, Sys (SysBind L (sock_addr_of addr)) 0 e2,
        Sys (SysSocket AF_INET ty fl) L e1, Sys (SysEpollCreate 5) ep e0] @ w_trace w"
    and L: "L \<noteq> -1" and spared: "\<forall>c r e. Sys c r e \<in> set since \<longrightarrow> spares L c" unfolding has_listened_def by blast
  let ?X = "[Sys (SysListen L 10) 0 e3, Sys (SysBind L (sock_addr_of addr)) 0 e2, Sys (SysSocket AF_INET ty fl) L e1,
      Sys (SysEpollCreate 5) ep e0] @ w_trace w"
  have "\<forall>e \<in> set ?X. \<not> derails e" using assms(4) by auto
  then obtain since1 where d: "defined_part (since @ ?X) = since1 @ ?X" "\<forall>c r e. Sys c r e \<in> set since1 \<longrightarrow> spares L c"
    using spared by (rule_tac defined_since)
  have "L \<in> open_fds ?X" using L by simp
  then have "L \<in> open_fds (since1 @ ?X)" by (rule stays_open [where A = "spares L"]) (use d(2) in simp_all)
  with d run show ?thesis by metis
qed

theorem example_server_keeps_listening_witness:
  "\<exists>w' L. server_program (beside counting_os) loopback_inet Suc [''server'', ''tcp'', ''7777''] [2]
      (init_world ([] :: int list, connections_ctor)) = Some (Exited 1, w') \<and> L \<in> open_fds (defined_part (w_trace w'))"
proof -
  obtain w' where w': "server_program (beside counting_os) loopback_inet Suc [''server'', ''tcp'', ''7777''] [2]
      (init_world ([] :: int list, connections_ctor)) = Some (Exited 1, w')" by (rule sample_server_program)
  from example_server_keeps_listening [OF counting_os_posix _ _ _ _ w'] show ?thesis
    using w' by (auto simp: sample_start)
qed

text \<open>
  C19: A running example TCP server listens, with a backlog of 10, on a socket bound to the
  loopback address and the port its second argument names, of which the bytes on the wire keep
  the lower 16 bits in network order: an argument of 65536 plus n silently means port n.
\<close>

theorem server_listens_on_its_argument:
  assumes "posix_fds K live" and "ledger_ok (live \<circ> fst) w" and "cn_elems (active_sockets w) = []"
    and "argv ! 1 = ''tcp''" and "stoi (argv ! 2) = Inr p"
    and "server_program (beside K) N grow argv rounds w = Some (x, w')" and "x = Running \<or> x = Exited n"
    and "inet_pton N AF_INET ''127.0.0.1'' = (1, host)" and "length host = 4"
  shows "\<exists>since L e3 e2 before.
      w_trace w' = since
        @ [Sys (SysListen L 10) 0 e3,
           Sys (SysBind L (sa_family AF_INET @ [word_of_int (p div 256), word_of_int p] @ host @ replicate 8 0)) 0 e2]
        @ before
    \<and> length before = length (w_trace w) + 2"
proof -
  obtain q where "stoi (argv ! 2) = Inr q" "has_listened N q w w'"
    using server_program_listens [OF assms(1-4,6,7)] by blast
  with assms(5) have "has_listened N p w w'" by simp
  then obtain since L addr junk e3 e2 e1 ty fl ep e0 where run:
    "w_trace w' = since
        @ [Sys (SysListen L 10) 0 e3, Sys (SysBind L (sock_addr_of addr)) 0 e2, Sys (SysSocket AF_INET ty fl) L e1,
           Sys (SysEpollCreate 5) ep e0] @ w_trace w"
    "from_string_and_port N junk ''127.0.0.1'' (word_of_int p) = Some addr" unfolding has_listened_def by blast
  from run(2) assms(8,9) have "sock_addr_of addr = sa_family AF_INET @ htons (word_of_int p) @ host @ replicate 8 0"
    by (auto simp: from_string_and_port_def create_def init_def parser_def inet_consts Let_def c_str_def
        sock_addr_of_def sock_addr4_def is_ipv4_def mbind_def overlay_def)
  with run(1) htons_of_int [of p] show ?thesis
    by (intro exI [of _ since] exI [of _ L] exI [of _ e3] exI [of _ e2]
        exI [of _ "Sys (SysSocket AF_INET ty fl) L e1 # Sys (SysEpollCreate 5) ep e0 # w_trace w"]) simp
qed

theorem server_listens_on_its_argument_witness:
  "\<exists>w' L e. server_program (beside counting_os) loopback_inet Suc [''server'', ''tcp'', ''7777''] [2]
      (init_world ([] :: int list, connections_ctor)) = Some (Exited 1, w')
    \<and> Sys (SysBind L [2, 0, 30, 97, 127, 0, 0, 1, 0, 0, 0, 0, 0, 0, 0, 0]) 0 e \<in> set (w_trace w')"
proof -
  obtain w' where w': "server_program (beside counting_os) loopback_inet Suc [''server'', ''tcp'', ''7777''] [2]
      (init_world ([] :: int list, connections_ctor)) = Some (Exited 1, w')" by (rule sample_server_program)
  have pton: "inet_pton loopback_inet AF_INET ''127.0.0.1'' = (1, [127, 0, 0, 1])" by (simp add: loopback_inet_def)
  from server_listens_on_its_argument [OF counting_os_posix _ _ _ _ w' _ pton, of 7777 1] obtain since L e3 e2 before where
    "w_trace w' = since @ [Sys (SysListen L 10) 0 e3, Sys (SysBind L (sa_family AF_INET
        @ [word_of_int (7777 div 256), word_of_int 7777] @ [127, 0, 0, 1] @ replicate 8 0)) 0 e2] @ before"
    by (auto simp: sample_start stoi_port)
  moreover have "sa_family AF_INET @ [word_of_int (7777 div 256), word_of_int 7777] @ [127, 0, 0, 1] @ replicate 8 0
      = ([2, 0, 30, 97, 127, 0, 0, 1, 0, 0, 0, 0, 0, 0, 0, 0] :: byte list)"
  proof -
    have "(word_of_int 7777 :: byte) = 97" "sa_family AF_INET = [2, 0]" by (simp_all add: sa_family_def)
    moreover have "replicate 8 (0 :: byte) = [0, 0, 0, 0, 0, 0, 0, 0]" by (simp add: numeral_eq_Suc)
    ultimately show ?thesis by simp
  qed
  ultimately show ?thesis using w' by auto
qed

end
