(* ===== verification/Server_Protocol.thy ===== *)
theory Server_Protocol
  imports Endpoint_Protocol Server_Props
begin

section \<open>Server programs follow the socket protocol\<close>

text \<open>
  The counterpart of \<open>Client_Protocol\<close>. A server's events accept connections and hand them
  to the application, so the contract of the application speaks about two objects: the server's
  own socket and the connection it was given, of which it returns what it did not take.
\<close>

definition server_inv :: "('k \<Rightarrow> int set) \<Rightarrow> proto \<Rightarrow> 'p server \<times> 'k world \<Rightarrow> bool" where
  "server_inv live pr s \<longleftrightarrow> server_ok pr (fst s) \<and> sys_inv live pr (state_pool (en_state (fst s))) (snd s)"

definition offer_inv ::
  "('k \<Rightarrow> int set) \<Rightarrow> proto \<Rightarrow> accepted_sock \<Rightarrow> 'p server \<times> 'k world \<Rightarrow> bool" where
  "offer_inv live pr acc s \<longleftrightarrow> server_ok pr (fst s)
     \<and> sys_inv live pr ((state_pool (en_state (fst s)))(1 \<mapsto> TActive (as_sock acc))) (snd s)"

definition sapp_follows :: "('k \<Rightarrow> int set) \<Rightarrow> proto \<Rightarrow> ('p, 'k) server_app \<Rightarrow> bool" where
  "sapp_follows live pr A \<longleftrightarrow>
     (\<forall>cb acc s ex rest s'. offer_inv live pr acc s \<and> sapp_conn A cb acc s = (ex, rest, s') \<longrightarrow>
        offer_inv live pr rest s')
   \<and> (\<forall>cb r s ex s'. server_inv live pr s \<and> sapp_msg A cb r s = (ex, s') \<longrightarrow> server_inv live pr s')
   \<and> (\<forall>cb fd s ex s'. server_inv live pr s \<and> sapp_close A cb fd s = (ex, s') \<longrightarrow> server_inv live pr s')
   \<and> (\<forall>cb evs s ex s'. server_inv live pr s \<and> sapp_unhandled A cb evs s = (ex, s') \<longrightarrow> server_inv live pr s')"

lemma server_inv_upcall: "server_inv live pr (s, upcall cb w) = server_inv live pr (s, w)"
  by (simp add: server_inv_def)

lemma offer_inv_upcall: "offer_inv live pr acc (s, upcall cb w) = offer_inv live pr acc (s, w)"
  by (simp add: offer_inv_def)

subsection \<open>Starting\<close>

lemma server_start_less_cases:
  assumes "server_start_less K N PT pr address prt oc er s w = (b, s', w')"
  obtains (rejected) "\<not> b" "s' = s" "w' = w"
  | (failed) "idle s" "socket_create K pr (en_af s) w = (None, w')" "\<not> b" "s' = s"
  | (unbound) k w1 addr w2 where "idle s" "socket_create K pr (en_af s) w = (Some k, w1)"
      "bind_less K k addr w1 = (None, k, w2)" "w' = socket_dtor K k w2" "\<not> b" "s' = s"
  | (started) k w1 addr a k' w2 ok w3 st where "idle s" "b"
      "socket_create K pr (en_af s) w = (Some k, w1)" "bind_less K k addr w1 = (Some a, k', w2)"
      "pt_add PT (en_poll s) (impl_fd (a_impl a)) op_READ w2 = (ok, w3)"
      "assign_state K (en_state s) (StActive a) w3 = (st, w')"
      "s' = (server_register_cbs s)\<lparr>en_state := st, sv_on_conn := Some oc, sv_erase := Some er\<rparr>"
      "from_string_and_port N (w_junk w) address prt = Some addr"
proof (cases "if idle s then from_string_and_port N (w_junk w) address prt else None")
  case None
  with assms show ?thesis by (auto simp: server_start_less_def intro: rejected)
next
  case (Some addr)
  then have idle: "idle s" and parsed: "from_string_and_port N (w_junk w) address prt = Some addr"
    by (simp_all split: if_splits)
  obtain created w1 where created: "socket_create K pr (en_af s) w = (created, w1)" by fastforce
  show ?thesis
  proof (cases created)
    case None
    with assms Some created show ?thesis
      by (auto simp: server_start_less_def intro: failed [OF idle])
  next
    case k: (Some k)
    obtain res k' w2 where bound: "bind_less K k addr w1 = (res, k', w2)" using prod_cases3 by blast
    show ?thesis
    proof (cases res)
      case None
      then have "k' = k" using bind_less_fds [OF bound] by simp
      with None assms Some created k bound show ?thesis
        by (auto simp: server_start_less_def intro: unbound [OF idle])
    next
      case a: (Some a)
      have "socket_dtor K k' w2 = w2"
        using bind_less_fds [OF bound] a by (simp add: socket_dtor_def destroy_impl_def impl_empty_def impl_fds_def)
      moreover obtain ok w4 where added: "pt_add PT (en_poll s) (impl_fd (a_impl a)) op_READ w2 = (ok, w4)"
        by fastforce
      moreover obtain st w5 where assigned: "assign_state K (en_state s) (StActive a) w4 = (st, w5)" by fastforce
      ultimately have "b" "w' = w5"
        "s' = (server_register_cbs s)\<lparr>en_state := st, sv_on_conn := Some oc, sv_erase := Some er\<rparr>"
        using assms Some created k bound a by (simp_all add: server_start_less_def Let_def)
      with created k bound a added assigned parsed show ?thesis by (auto intro: started [OF idle])
    qed
  qed
qed

lemma server_start_conn_inv:
  assumes "server_start_conn K N PT pr address prt mc oc er s w = (b, s', w')" and K: "posix_fds K live"
    and PT: "poll_neutral K PT" and pr: "\<not> is_connectionless pr" and inv: "server_inv live pr (s, w)"
  shows "server_inv live pr (s', w')"
proof -
  let ?p = "state_pool (en_state s)"
  have ok: "server_ok pr s'" using inv server_ok_start_conn [OF assms(1) _ pr] by (simp add: server_inv_def)
  have inv': "sys_inv live pr ?p w" using inv by (simp add: server_inv_def)
  note create = sys_inv_create [OF inv' K, of 1]
  from assms(1) have "sys_inv live pr (state_pool (en_state s')) w'"
  proof (cases rule: server_start_conn_cases)
    case failed
    from create [OF _ failed(2)] failed(4) show ?thesis by (simp add: fun_upd_idem)
  next
    case (unbound k w1 addr w2)
    have i1: "sys_inv live pr (?p(1 \<mapsto> TSocket k)) w1" using create [OF _ unbound(2)] by simp
    have "sys_inv live pr (?p(1 \<mapsto> TSocket k)) w2"
      using sys_inv_transit [where s = 1 and d = 2, OF i1 K via_policies(2) [OF unbound(3)] _ _
          transit_bind(2) [OF unbound(3)]] by simp
    from sys_inv_dtor [OF this K, of 1 "StIdle (Some k)"] unbound(4,6) show ?thesis
      by (simp add: fun_upd_idem)
  next
    case (deaf k w1 addr bd k' w2 w3)
    let ?q = "?p(1 \<mapsto> TSocket k', 2 \<mapsto> TBinded bd)"
    have i1: "sys_inv live pr (?p(1 \<mapsto> TSocket k)) w1" using create [OF _ deaf(2)] by simp
    have i2: "sys_inv live pr ?q w2"
      using sys_inv_transit [where s = 1 and d = 2, OF i1 K via_policies(2) [OF deaf(3)] _ _
          transit_bind(2) [OF deaf(3)]] by simp
    have i3: "sys_inv live pr ?q w3"
      using sys_inv_transit [where s = 2 and d = 3, OF i2 K via_policies(5) [OF deaf(4)] _ _
          transit_listen [OF deaf(4)]] by simp
    have "sys_inv live pr (?q(2 := None)) w'"
      using sys_inv_dtor [OF i3 K, of 2 "StBinded bd"] deaf(5) by simp
    then show ?thesis unfolding deaf(7) by (rule sys_inv_single [where d = 0]) simp
  next
    case (started k w1 addr bd k' w2 l bd' w3 ok w4 st)
    let ?q = "?p(1 \<mapsto> TSocket k', 2 \<mapsto> TBinded bd)"
    have i1: "sys_inv live pr (?p(1 \<mapsto> TSocket k)) w1" using create [OF _ started(3)] by simp
    have i2: "sys_inv live pr ?q w2"
      using sys_inv_transit [where s = 1 and d = 2, OF i1 K via_policies(2) [OF started(4)] _ _
          transit_bind(2) [OF started(4)]] by simp
    have "sys_inv live pr (?q(2 \<mapsto> TBinded bd', 3 \<mapsto> TListening l)) w3"
      using sys_inv_transit [where s = 2 and d = 3, OF i2 K via_policies(5) [OF started(5)] _ _
          transit_listen [OF started(5)]] by simp
    then have "sys_inv live pr (?q(2 \<mapsto> TBinded bd', 3 \<mapsto> TListening l)) w4"
      by (rule poll_neutralD(2) [OF PT K started(6)])
    then have "sys_inv live pr (state_pool st) w'"
      by (rule sys_inv_assign [where i = 0 and d = 3, OF _ K _ _ _ started(7)]) simp_all
    with started(8) show ?thesis by simp
  qed (use inv' in simp)
  with ok show ?thesis by (simp add: server_inv_def)
qed

lemma server_start_less_inv:
  assumes "server_start_less K N PT pr address prt oc er s w = (b, s', w')" and K: "posix_fds K live"
    and PT: "poll_neutral K PT" and pr: "is_connectionless pr" and inv: "server_inv live pr (s, w)"
  shows "server_inv live pr (s', w')"
proof -
  let ?p = "state_pool (en_state s)"
  have ok: "server_ok pr s'" using inv server_ok_start_less [OF assms(1) _ pr] by (simp add: server_inv_def)
  have inv': "sys_inv live pr ?p w" using inv by (simp add: server_inv_def)
  note create = sys_inv_create [OF inv' K, of 1]
  from assms(1) have "sys_inv live pr (state_pool (en_state s')) w'"
  proof (cases rule: server_start_less_cases)
    case failed
    from create [OF _ failed(2)] failed(4) show ?thesis by (simp add: fun_upd_idem)
  next
    case (unbound k w1 addr w2)
    have i1: "sys_inv live pr (?p(1 \<mapsto> TSocket k)) w1" using create [OF _ unbound(2)] by simp
    have "sys_inv live pr (?p(1 \<mapsto> TSocket k)) w2"
      using sys_inv_transit [where s = 1 and d = 2, OF i1 K via_policies(1) [OF unbound(3)] _ _
          transit_bind(1) [OF unbound(3) pr]] by simp
    from sys_inv_dtor [OF this K, of 1 "StIdle (Some k)"] unbound(4,6) show ?thesis
      by (simp add: fun_upd_idem)
  next
    case (started k w1 addr a k' w2 ok w3 st)
    let ?q = "?p(1 \<mapsto> TSocket k', 2 \<mapsto> TActive a)"
    have i1: "sys_inv live pr (?p(1 \<mapsto> TSocket k)) w1" using create [OF _ started(3)] by simp
    have "sys_inv live pr ?q w2"
      using sys_inv_transit [where s = 1 and d = 2, OF i1 K via_policies(1) [OF started(4)] _ _
          transit_bind(1) [OF started(4) pr]] by simp
    then have "sys_inv live pr ?q w3" by (rule poll_neutralD(2) [OF PT K started(5)])
    then have "sys_inv live pr (state_pool st) w'"
      by (rule sys_inv_assign [where i = 0 and d = 2, OF _ K _ _ _ started(6)]) simp_all
    with started(7) show ?thesis by simp
  qed (use inv' in simp)
  with ok show ?thesis by (simp add: server_inv_def)
qed

subsection \<open>Events\<close>

lemma sapp_followsD:
  assumes "sapp_follows live pr A"
  shows "offer_inv live pr acc (s, w) \<Longrightarrow> call_on_conn A acc (s, w) = (ex, rest, s') \<Longrightarrow> offer_inv live pr rest s'"
    and "server_inv live pr (s, w) \<Longrightarrow> call_on_msg A r (s, w) = (ex, s') \<Longrightarrow> server_inv live pr s'"
    and "server_inv live pr (s, w) \<Longrightarrow> call_erase A fd (s, w) = (ex, s') \<Longrightarrow> server_inv live pr s'"
    and "server_inv live pr (s, w) \<Longrightarrow> server_unhandled A cb evs (s, w) = (ex, s') \<Longrightarrow> server_inv live pr s'"
proof -
  note A = assms [unfolded sapp_follows_def]
  show "offer_inv live pr rest s'"
    if h: "offer_inv live pr acc (s, w)" "call_on_conn A acc (s, w) = (ex, rest, s')"
  proof (cases "\<exists>cb. sv_on_conn s = Some (Some cb)")
    case True
    then obtain cb where "sapp_conn A cb acc (s, upcall cb w) = (ex, rest, s')"
      using h(2) by (auto simp: call_on_conn_def)
    moreover have "offer_inv live pr acc (s, upcall cb w)" using h(1) by (simp add: offer_inv_upcall)
    ultimately show ?thesis using A [THEN conjunct1] by metis
  next
    case False
    with h show ?thesis by (auto simp: call_on_conn_def split: option.splits)
  qed
  show "server_inv live pr s'" if h: "server_inv live pr (s, w)" "call_on_msg A r (s, w) = (ex, s')"
  proof (cases "\<exists>cb. sv_on_conn s = Some (Some cb)")
    case True
    then obtain cb where "sapp_msg A cb r (s, upcall cb w) = (ex, s')"
      using h(2) by (auto simp: call_on_msg_def)
    moreover have "server_inv live pr (s, upcall cb w)" using h(1) by (simp add: server_inv_upcall)
    ultimately show ?thesis using A by blast
  next
    case False
    with h show ?thesis by (auto simp: call_on_msg_def split: option.splits)
  qed
  show "server_inv live pr s'" if h: "server_inv live pr (s, w)" "call_erase A fd (s, w) = (ex, s')"
  proof (cases "\<exists>cb. sv_erase s = Some (Some cb)")
    case True
    then obtain cb where "sapp_close A cb fd (s, upcall cb w) = (ex, s')"
      using h(2) by (auto simp: call_erase_def)
    moreover have "server_inv live pr (s, upcall cb w)" using h(1) by (simp add: server_inv_upcall)
    ultimately show ?thesis using A by blast
  next
    case False
    with h show ?thesis by (auto simp: call_erase_def split: option.splits)
  qed
  show "server_inv live pr s'" if h: "server_inv live pr (s, w)" "server_unhandled A cb evs (s, w) = (ex, s')"
  proof -
    have "sapp_unhandled A cb evs (s, upcall cb w) = (ex, s')" "server_inv live pr (s, upcall cb w)"
      using h by (simp_all add: server_unhandled_def server_inv_upcall)
    then show ?thesis using A by blast
  qed
qed

lemma offer_inv_release:
  assumes "offer_inv live pr rest (s, w)" and "posix_fds K live"
  shows "server_inv live pr (s, accepted_dtor K rest w)"
proof -
  have "sys_inv live pr ((state_pool (en_state s))(1 \<mapsto> TActive (as_sock rest))) w"
    using assms(1) by (simp add: offer_inv_def)
  from sys_inv_dtor [OF this assms(2), of 1 "StActive (as_sock rest)"] assms(1) show ?thesis
    by (simp add: server_inv_def offer_inv_def accepted_dtor_def fun_upd_idem)
qed

lemma accept_one_inv:
  assumes "accept_one K PT A l (s, w) = (ex, s')" and K: "posix_fds K live" and PT: "poll_neutral K PT"
    and A: "sapp_follows live pr A" and pr: "\<not> is_connectionless pr" and l: "en_state s = StListening l"
    and inv: "server_inv live pr (s, w)"
  shows "server_inv live pr s'"
proof -
  let ?p = "state_pool (en_state s)"
  have ok: "server_ok pr s" and inv': "sys_inv live pr ?p w" using inv by (simp_all add: server_inv_def)
  obtain acc w1 where a: "listening_accept K l w = (acc, w1)" by fastforce
  have i1: "sys_inv live pr (?p(1 := map_option TActive acc)) w1"
    using keeps_accept [OF inv' K _ _ pr, of 0 l 1] a l by (cases acc) (simp_all add: keeps_def fun_upd_idem)
  show ?thesis
  proof (cases acc)
    case None
    with i1 assms(1) a ok show ?thesis by (auto simp: accept_one_def server_inv_def fun_upd_idem)
  next
    case (Some c)
    obtain okb w2 where add: "pt_add PT (en_poll s) (impl_fd (a_impl c)) op_READ w1 = (okb, w2)" by fastforce
    from i1 Some have "sys_inv live pr (?p(1 \<mapsto> TActive c)) w1" by simp
    then have i2: "sys_inv live pr (?p(1 \<mapsto> TActive c)) w2" by (rule poll_neutralD(2) [OF PT K add])
    show ?thesis
    proof (cases "a_remote c")
      case None
      have "sys_inv live pr ((?p(1 \<mapsto> TActive c))(1 := None)) (state_dtor K (StActive c) (mark_ub EmptyOptional w2))"
        by (rule sys_inv_dtor [OF i2 [THEN sys_inv_frame(1) [THEN iffD2]] K]) (simp only: fun_upd_same tsock_of.simps)
      with assms(1) a Some add None ok show ?thesis
        by (auto simp: accept_one_def server_inv_def fun_upd_idem)
    next
      case (Some remote)
      let ?acc = "fst (accepted_ctor remote c)"
      have "view pr (?p(1 \<mapsto> TActive (as_sock ?acc))) = view pr (?p(1 \<mapsto> TActive c))"
        by (simp add: view_upd accepted_ctor_def move_active_def move_impl_def)
      with i2 ok have offer: "offer_inv live pr ?acc (s, w2)" by (simp add: offer_inv_def sys_inv_def)
      obtain ex1 rest s3 w3 where call: "call_on_conn A ?acc (s, w2) = (ex1, rest, (s3, w3))"
        using prod_cases4 by blast
      have "s' = (s3, accepted_dtor K rest w3)"
        using assms(1) a \<open>acc = Some c\<close> add Some call by (simp add: accept_one_def)
      with offer_inv_release [OF sapp_followsD(1) [OF A offer call] K] show ?thesis by simp
    qed
  qed
qed

lemma server_call_inv:
  assumes "server_call K PT A pr h fd (s, w) = (ex, s')" and K: "posix_fds K live" and PT: "poll_neutral K PT"
    and A: "sapp_follows live pr A" and inv: "server_inv live pr (s, w)"
  shows "server_inv live pr s'"
proof (cases h)
  case SErase
  obtain ok w1 where d: "pt_del PT (en_poll s) fd w = (ok, w1)" by fastforce
  have "server_inv live pr (s, w1)"
    using inv poll_neutralD(3) [OF PT K d] by (simp add: server_inv_def)
  from sapp_followsD(3) [OF A this] assms(1) SErase d show ?thesis by simp
next
  case SReadReady
  show ?thesis
  proof (cases "fd = get_fd s \<and> \<not> is_connectionless pr")
    case True
    then show ?thesis
      using assms(1) SReadReady inv accept_one_inv [OF _ K PT A _ _ inv]
      by (cases "en_state s") auto
  next
    case False
    with assms(1) SReadReady inv sapp_followsD(2) [OF A inv] show ?thesis by (auto split: if_splits)
  qed
qed

definition server_kept ::
  "('k \<Rightarrow> int set) \<Rightarrow> 'k os \<Rightarrow> proto \<Rightarrow> ('p, 'k world) poll_traits \<Rightarrow> ('p, 'k) server_app \<Rightarrow> 'p server \<times> 'k world \<Rightarrow> bool" where
  "server_kept live K pr PT A s \<longleftrightarrow>
     (posix_fds K live \<and> poll_neutral K PT \<and> sapp_follows live pr A \<longrightarrow> server_inv live pr s)"

interpretation svp: handler_contract "server_kept live K pr PT A"
  "\<lambda>t (s, w). case pt_proceed PT (en_poll s) t w of (evs, w1) \<Rightarrow> (evs, (s, w1))"
  "server_call K PT A pr" "server_unhandled A" obs for live K pr PT A obs
proof unfold_locales
  fix t s evs s1
  assume "(case s of (s, w) \<Rightarrow> case pt_proceed PT (en_poll s) t w of (evs, w1) \<Rightarrow> (evs, (s, w1))) = (evs, s1)"
    and "server_kept live K pr PT A s"
  then show "server_kept live K pr PT A s1"
    by (auto simp: server_kept_def server_inv_def split: prod.splits dest: poll_neutralD(1))
next
  fix h fd s ex s1
  assume "server_call K PT A pr h fd s = (ex, s1)" and "server_kept live K pr PT A s"
  then show "server_kept live K pr PT A s1"
    by (cases s) (auto simp: server_kept_def dest: server_call_inv)
next
  fix cb evs s ex s1
  assume "server_unhandled A cb evs s = (ex, s1)" and "server_kept live K pr PT A s"
  then show "server_kept live K pr PT A s1"
    by (cases s) (auto simp: server_kept_def dest: sapp_followsD(4))
qed

lemma server_step_inv:
  assumes "posix_fds K live" and "poll_neutral K PT" and "sapp_follows live pr A" and "server_inv live pr (s, w)"
  shows "server_inv live pr (server_step K N PT A pr op (s, w))"
proof (cases op)
  case (SStartConn a p m oc er)
  obtain b s1 w1 where st: "server_start_conn K N PT pr a p m oc er s w = (b, s1, w1)" using prod_cases3 by blast
  with SStartConn assms(4) server_start_conn_inv [OF st assms(1,2) _ assms(4)] show ?thesis by simp
next
  case (SStartLess a p oc er)
  obtain b s1 w1 where st: "server_start_less K N PT pr a p oc er s w = (b, s1, w1)" using prod_cases3 by blast
  with SStartLess assms(4) server_start_less_inv [OF st assms(1,2) _ assms(4)] show ?thesis by simp
next
  case (SProceed t)
  obtain r s1 where p: "server_proceed K PT A pr t (s, w) = (r, s1)" by (rule prod.exhaust)
  have "server_kept live K pr PT A s1"
    using p unfolding server_proceed_def
    by (rule svp.proceed_keeps) (simp add: server_kept_def assms(4))
  with assms(1-3) SProceed p show ?thesis by (simp add: server_kept_def)
qed

lemma server_run_inv:
  "posix_fds K live \<Longrightarrow> poll_neutral K PT \<Longrightarrow> sapp_follows live pr A \<Longrightarrow> server_inv live pr (s, w) \<Longrightarrow>
     server_inv live pr (server_run K N PT A pr ops (s, w))"
proof (induction ops arbitrary: s w)
  case (Cons op ops)
  obtain s1 w1 where st: "server_step K N PT A pr op (s, w) = (s1, w1)" by fastforce
  from server_step_inv [OF Cons.prems, of N op] st Cons.IH Cons.prems(1-3) show ?case
    by (simp add: server_run_def)
qed (simp add: server_run_def)

text \<open>
  C3: Whatever a program does with a server, accepted connections included, the system calls
  refine the abstract socket protocol, and the alternative the server's state holds is the phase
  in which the system sees its descriptor.
\<close>

theorem server_programs_follow_protocol:
  assumes "posix_fds K live" and "ledger_ok live w" and "well_ordered (w_trace w)"
    and "sapp_follows live pr A"
    and "server_run K N (epoll_traits K) A pr ops (server_ctor ep af unhandled, w) = (s', w')"
  shows "well_ordered (w_trace w')
    \<and> (\<forall>t fd. tsock_of (en_state s') = Some t \<and> si_fd (impl_of t) = Some fd \<longrightarrow>
         phases (w_trace w') fd = Some (expected pr t))"
proof -
  have e: "en_state (server_ctor ep af unhandled) = StIdle None"
    by (simp add: server_ctor_def endpoint_ctor_def endpoint.defs)
  have "view pr (state_pool (StIdle None)) = Map.empty" by (simp add: fun_eq_iff view_def state_pool_def)
  then have "sys_inv live pr (state_pool (StIdle None)) w"
    using assms(2,3) by (simp add: sys_inv_def consistent_def)
  then have "server_inv live pr (server_ctor ep af unhandled, w)"
    by (simp add: server_inv_def server_ok_def server_ctor_def endpoint_ctor_def endpoint.defs observer_ctor_def)
  then have "server_inv live pr (s', w')"
    using server_run_inv [OF assms(1) epoll_neutral assms(4), of _ _ N ops] assms(5) by metis
  then have inv: "sys_inv live pr (state_pool (en_state s')) w'" by (simp add: server_inv_def)
  then show ?thesis using sys_inv_phase [OF inv] by (auto simp: sys_inv_def)
qed

text \<open>The application of the witness answers every connection with one send and lets it go.\<close>

definition greet_app :: "'k os \<Rightarrow> ('p, 'k) server_app" where
  "greet_app K =
     \<lparr>sapp_conn = (\<lambda>cb acc (s, w). case accepted_send K acc [104, 105] 2 w of
        (r, acc', w1) \<Rightarrow> (None, acc', (s, w1))),
      sapp_msg = (\<lambda>cb r s. (None, s)), sapp_close = (\<lambda>cb fd s. (None, s)),
      sapp_unhandled = (\<lambda>cb evs s. (None, s))\<rparr>"

lemma greet_app_follows:
  assumes "posix_fds K live" and "\<not> is_connectionless pr" shows "sapp_follows live pr (greet_app K)"
proof -
  have "offer_inv live pr acc' (s, w1)"
    if h: "offer_inv live pr acc (s, w)" "accepted_send K acc [104, 105] 2 w = (r, acc', w1)" for acc acc' s w r w1
  proof -
    from h(2) obtain x where "send_conn K (as_sock acc) [104, 105] 2 0 w = (x, w1)" "acc' = acc"
      by (auto simp: accepted_send_def split: prod.splits)
    with h(1) show ?thesis
      using sys_inv_one_call(1) [OF _ assms(1) _ assms(2), where i = 1] by (auto simp: offer_inv_def)
  qed
  then show ?thesis by (auto simp: sapp_follows_def greet_app_def split: prod.splits)
qed

theorem server_programs_follow_protocol_witness:
  "well_ordered (w_trace (snd (server_run counting_os sample_inet (epoll_traits counting_os)
     (greet_app counting_os) tcp [SStartConn ''aaaaaaaa'' 7777 5 (Some 0) (Some 1), SProceed 50, SProceed 50]
     (server_ctor \<lparr>ep_fd = 3, ep_max_events = 10\<rparr> AF_INET None, init_world [3]
        \<lparr>w_trace := [Sys (SysEpollCreate 5) 3 0]\<rparr>))))"
proof -
  let ?w = "init_world [3] \<lparr>w_trace := [Sys (SysEpollCreate 5) 3 0]\<rparr>"
  have "ledger_ok set ?w" "well_ordered (w_trace ?w)" by (simp_all add: ledger_ok_def)
  from server_programs_follow_protocol [OF counting_os_posix this greet_app_follows [OF counting_os_posix]]
  show ?thesis by (metis prod.collapse proto_simps(1))
qed

end
