(* ===== verification/Udp_Server_Props.thy ===== *)
theory Udp_Server_Props
  imports Server_Program_Props Server_Protocol
begin

section \<open>Whole runs of the example UDP server\<close>

text \<open>
  The counterpart of \<open>Server_Program_Props\<close>. The connections of a UDP server own nothing: they receive
  and send through the server's socket. So whatever becomes of the vector, a run makes no calls but
  polls and the exchange of datagrams. In a round that finds the vector empty, the usual case, nothing
  goes wrong with the vector either: the datagrams that wait are answered and the vector is empty again.
\<close>

subsection \<open>Calls and connections\<close>

fun datagram_call :: "int option \<Rightarrow> sys_call \<Rightarrow> bool" where
  "datagram_call fd (SysEpollCtl e op s ev) = True"
| "datagram_call fd (SysEpollWait e n t) = True"
| "datagram_call fd (SysRecvfrom s n fl al) = (fd = Some s)"
| "datagram_call fd (SysSendto s buf n fl sa) = (fd = Some s)"
| "datagram_call fd _ = False"

fun is_ref :: "conn \<Rightarrow> bool" where
  "is_ref (Tcp a) = False"
| "is_ref (Udp r) = True"

lemma via_datagram:
  "impl_send_to K s a buf n fl w = (sent, w1) \<Longrightarrow> via K (datagram_call (si_fd s)) w w1"
  "impl_receive_from K s buf n fl w = (rcvd, buf1, w1) \<Longrightarrow> via K (datagram_call (si_fd s)) w w1"
  by (auto simp: impl_send_to_def send_to_impl_def impl_receive_from_def recv_from_impl_def
      split: if_splits option.splits prod.splits dest!: parse_addr_trace
      intro!: via_mark_ubs intro: via_call via_intros)

lemma ref_calls:
  assumes "is_ref c"
  shows "conn_recv K (StActive sock) c buf n w = (r, buf1, c1, w1) \<Longrightarrow>
           is_ref c1 \<and> via K (datagram_call (si_fd (a_impl sock))) w w1"
    and "conn_send K (StActive sock) c buf n w = (sent, c1, w1) \<Longrightarrow>
           is_ref c1 \<and> via K (datagram_call (si_fd (a_impl sock))) w w1"
  using assms
  by (cases c; auto simp: ref_recv_def ref_send_def ref_active_def send_less_def receive_less_def
      split: prod.splits option.splits if_splits intro: via_refl dest: via_datagram)+

interpretation udp_conns: guarded K "StActive sock" "datagram_call (si_fd (a_impl sock))" is_ref for K sock
proof unfold_locales
  show "is_ref c \<Longrightarrow> via K (datagram_call (si_fd (a_impl sock))) w (destroy_conn K c w)" for c w
    by (cases c) (simp_all add: via_refl)
qed (blast dest: ref_calls)+

lemma udp_server_guarded:
  assumes "posix_fds K live" and "is_connectionless pr" and "en_state s0 = StActive sock"
  shows "guarded_server live K grow pr (datagram_call (si_fd (a_impl sock))) is_ref X s0"
  unfolding guarded_server_def
proof (intro conjI allI impI)
  show "guarded (beside K) (en_state s0) (datagram_call (si_fd (a_impl sock))) is_ref"
    unfolding assms(3) by (rule udp_conns.guarded_axioms)
  show "epoll_call c \<Longrightarrow> datagram_call (si_fd (a_impl sock)) c" for c by (erule epoll_call.elims) simp_all
  fix fd s ex s'
  assume h: "server_call (beside K) (epoll_traits (beside K)) (server_callbacks (beside K) grow pr) pr SReadReady fd s = (ex, s')
      \<and> guards live (datagram_call (si_fd (a_impl sock))) is_ref X s0 s"
  obtain w where s: "s = (s0, w)" "elems_all is_ref (cn_elems (active_sockets w))"
    using h by (cases s) (simp add: guards_def)
  have "elems_all is_ref (cn_elems (fst (emplace_back grow (Udp ref_ctor) (-1) (active_sockets w))))"
    using s(2) by (rule elems_all_emplace_back) (simp add: ref_move_def)
  with h s(1) assms(2) show "guards live (datagram_call (si_fd (a_impl sock))) is_ref X s0 s'"
    by (auto simp: call_on_msg_def server_callbacks_def on_msg_udp_def guards_def since_upcall
        split: if_splits option.splits prod.splits)
qed (rule assms(1))

subsection \<open>Starting\<close>

lemma bind_less_trace:
  assumes "bind_less K k addr w = (Some a, k', w1)"
  shows "\<exists>e. w_trace w1 = Sys (SysBind (impl_fd (s_impl k)) (sock_addr_of addr)) 0 e # w_trace w
    \<and> a_impl a = s_impl k"
  using assms
  by (auto simp: bind_less_def active_ctor_def move_impl_def impl_fd_def impl_bind_def bind_addr_def sock_addr_of_def
      split: prod.splits if_splits option.splits dest!: do_sys_trace)

lemma server_start_less_calls:
  assumes "en_state s = StIdle None"
    and "server_start_less K N (epoll_traits K) pr address prt oc er s w = (True, s', w')"
  obtains addr L ty fl e1 e2 y e4 a where
    "from_string_and_port N (w_junk w) address prt = Some addr"
    "w_trace w' = [Sys (SysEpollCtl (ep_fd (en_poll s)) EPOLL_CTL_ADD L (Some (flags_from_op op_READ, L))) y e4,
       Sys (SysBind L (sock_addr_of addr)) 0 e2, Sys (SysSocket (en_af s) ty fl) L e1] @ w_trace w"
    "L \<noteq> -1" "en_state s' = StActive a" "a_impl a = socket_impl_ctor L (en_af s)" "via K (\<lambda>c. True) w w'"
  using assms(2)
proof (cases rule: server_start_less_cases)
  case (started k w1 addr a k' w2 ok w3 st)
  obtain r ty fl where sock: "do_sys K (SysSocket (en_af s) ty fl) w = (r, w1)"
    and k: "s_impl k = socket_impl_ctor (rp_ret r) (en_af s)" "rp_ret r \<noteq> -1"
    using socket_create_trace [OF started(3)] by (auto split: if_splits)
  obtain e2 where bnd: "w_trace w2 = Sys (SysBind (rp_ret r) (sock_addr_of addr)) 0 e2 # w_trace w1"
    and a: "a_impl a = socket_impl_ctor (rp_ret r) (en_af s)"
    using bind_less_trace [OF started(4)] k(1) by (auto simp: impl_fd_def socket_impl_ctor_def)
  have fd: "impl_fd (a_impl a) = rp_ret r" using a by (simp add: impl_fd_def socket_impl_ctor_def)
  have added: "add_socket K (en_poll s) (rp_ret r) op_READ w2 = (ok, w3)" using started(5) fd by simp
  then obtain x where add: "do_sys K (SysEpollCtl (ep_fd (en_poll s)) EPOLL_CTL_ADD (rp_ret r)
      (Some (flags_from_op op_READ, rp_ret r))) w2 = (x, w3)"
    by (auto simp: add_socket_def epoll_ctl_def split: prod.splits)
  have st: "st = StActive a" "w' = w3" using started(6) assms(1) by simp_all
  have v1: "via K (\<lambda>c. True) w w1" using sock by (rule via_call) simp
  have v2: "via K (\<lambda>c. True) w1 w2" using via_policies(1) [OF started(4)] by (rule via_mono) simp
  have v3: "via K (\<lambda>c. True) w2 w3" using via_epoll(1) [OF added] by (rule via_mono) simp
  from that started(7,8) do_sys_trace [OF sock] do_sys_trace [OF add] bnd st k(2) a via_trans [OF v3 via_trans [OF v2 v1]]
  show ?thesis by simp
qed simp_all

lemma udp_init_starts:
  assumes "posix_fds K live" and "ledger_ok (live \<circ> fst) w" and "cn_elems (active_sockets w) = []"
    and "epoll_ctor (beside K) 5 10 w = (Inr ep, w1)"
    and "server_init (beside K) N (epoll_traits (beside K)) udp p (server_ctor ep ipv4 None) w1 = (True, s0, w2)"
  obtains L addr ty fl y e4 e2 e1 e0 a where
    "w_trace w2 = [Sys (SysEpollCtl (ep_fd ep) EPOLL_CTL_ADD L (Some (flags_from_op op_READ, L))) y e4,
       Sys (SysBind L (sock_addr_of addr)) 0 e2, Sys (SysSocket AF_INET ty fl) L e1, Sys (SysEpollCreate 5) (ep_fd ep) e0] @ w_trace w"
    "from_string_and_port N (w_junk w1) ''127.0.0.1'' (word_of_int p) = Some addr"
    "en_state s0 = StActive a" "si_fd (a_impl a) = Some L" "L \<noteq> -1" "ep_fd ep \<noteq> -1"
    "guards live (datagram_call (Some L)) is_ref (w_trace w2) s0 (s0, w2)"
proof -
  let ?s = "server_ctor ep ipv4 None"
  have s: "en_state ?s = StIdle None" "en_af ?s = AF_INET" "en_poll ?s = ep"
    by (simp_all add: server_ctor_def endpoint_ctor_def endpoint.defs ipv4_def)
  have started: "server_start_less (beside K) N (epoll_traits (beside K)) udp ''127.0.0.1'' (word_of_int p) (Some 0) (Some 1) ?s w1
      = (True, s0, w2)" using assms(5) by (simp add: server_init_def)
  obtain addr L ty fl e1 e2 y e4 a where calls: "from_string_and_port N (w_junk w1) ''127.0.0.1'' (word_of_int p) = Some addr"
    "w_trace w2 = [Sys (SysEpollCtl (ep_fd ep) EPOLL_CTL_ADD L (Some (flags_from_op op_READ, L))) y e4,
       Sys (SysBind L (sock_addr_of addr)) 0 e2, Sys (SysSocket AF_INET ty fl) L e1] @ w_trace w1"
    "L \<noteq> -1" "en_state s0 = StActive a" "a_impl a = socket_impl_ctor L AF_INET" "via (beside K) (\<lambda>c. True) w1 w2"
    using server_start_less_calls [OF s(1) started] unfolding s(2,3) by metis
  note via = via_trans [OF calls(6) epoll_ctor_via [OF assms(4)]]
  have "ledger_ok (live \<circ> fst) w2" by (rule via_ledger_ok [OF via beside_posix [OF assms(1)] assms(2)])
  moreover have "active_sockets w2 = active_sockets w" by (rule active_sockets_via [OF via])
  ultimately have "guards live (datagram_call (Some L)) is_ref (w_trace w2) s0 (s0, w2)"
    using assms(3) by (simp add: guards_def since_def elems_all_def)
  moreover obtain e0 where "w_trace w1 = Sys (SysEpollCreate 5) (ep_fd ep) e0 # w_trace w" "ep_fd ep \<noteq> -1"
    using assms(4) by (auto simp: epoll_ctor_def split: prod.splits if_splits dest!: do_sys_trace)
  ultimately show ?thesis using that calls(1-5) by (simp add: socket_impl_ctor_def)
qed

lemma datagram_calls_open_nothing:
  "\<forall>c r e. Sys c r e \<in> set t \<longrightarrow> datagram_call fd c \<Longrightarrow> open_fds (t @ X) = open_fds X"
proof (induction t)
  case (Cons ev t)
  then show ?case
  proof (cases ev)
    case (Sys c r e)
    have "open_fds (t @ X) = open_fds X" by (rule Cons.IH) (use Cons.prems in auto)
    moreover have "datagram_call fd c" using Cons.prems Sys by auto
    ultimately show ?thesis using Sys by (cases c) auto
  qed auto
qed simp

text \<open>
  C8: Whatever datagrams the example UDP server gets, as long as it runs, and also when a second
  signal makes it exit, the process has started with epoll_create, socket and bind to the
  loopback address and the port of its second argument; and up to its first undefined behaviour,
  such as the use of a dangling element after two unanswered datagrams have made the vector
  grow, it has made no other calls since but polls, receives and sends on that one descriptor,
  and has exactly that descriptor and the epoll open besides what was open before. The vector is
  empty and the history free of undefined behaviour when the program starts.
\<close>

theorem udp_server_only_exchanges_datagrams:
  assumes "posix_fds K live" and "ledger_ok (live \<circ> fst) w" and "cn_elems (active_sockets w) = []"
    and "\<forall>e \<in> set (w_trace w). \<not> derails e"
    and "argv ! 1 = ''udp''" and "server_program (beside K) N grow argv rounds w = Some (x, w')"
    and "x = Running \<or> x = Exited n"
  shows "\<exists>p addr junk since L e2 e1 ty fl ep e0.
      stoi (argv ! 2) = Inr p \<and> from_string_and_port N junk ''127.0.0.1'' (word_of_int p) = Some addr
    \<and> defined_part (w_trace w') = since @ [Sys (SysBind L (sock_addr_of addr)) 0 e2, Sys (SysSocket AF_INET ty fl) L e1,
                            Sys (SysEpollCreate 5) ep e0] @ w_trace w
    \<and> (\<forall>c r e. Sys c r e \<in> set since \<longrightarrow> datagram_call (Some L) c)
    \<and> open_fds (defined_part (w_trace w')) = {L, ep} \<union> open_fds (w_trace w)"
proof -
  obtain pr p where args: "server_args argv = Inr (pr, p)" "server_main (beside K) N grow pr p rounds w = Some (x, w')"
    using assms(6,7) by (auto simp: server_program_def split: sum.splits bad_args.splits)
  then have p: "pr = udp" "stoi (argv ! 2) = Inr p"
    using assms(5) by (auto simp: server_args_def split: if_splits sum.splits)
  show ?thesis
    using args(2) [unfolded p(1)] assms(7)
  proof (cases rule: server_main_cases)
    case (1 ep w1 s0 w2 st s3)
    obtain L addr ty fl y e4 e2 e1 e0 a where
      calls: "w_trace w2 = [Sys (SysEpollCtl (ep_fd ep) EPOLL_CTL_ADD L (Some (flags_from_op op_READ, L))) y e4,
        Sys (SysBind L (sock_addr_of addr)) 0 e2, Sys (SysSocket AF_INET ty fl) L e1, Sys (SysEpollCreate 5) (ep_fd ep) e0] @ w_trace w"
      and addr: "from_string_and_port N (w_junk w1) ''127.0.0.1'' (word_of_int p) = Some addr"
      and st: "en_state s0 = StActive a" "si_fd (a_impl a) = Some L" and fds: "L \<noteq> -1" "ep_fd ep \<noteq> -1"
      and g: "guards live (datagram_call (Some L)) is_ref (w_trace w2) s0 (s0, w2)"
      by (rule udp_init_starts [OF assms(1-3) 1(1,2)])
    have "guarded_server live K grow udp (datagram_call (Some L)) is_ref (w_trace w2) s0"
      using udp_server_guarded [OF assms(1) _ st(1), of udp] st(2) by simp
    from guarded_run [OF this g 1(3,4)] obtain t where
      t: "w_trace w' = t @ w_trace w2" "\<forall>c r e. Sys c r e \<in> set t \<longrightarrow> datagram_call (Some L) c"
      unfolding since_def by blast
    let ?X = "[Sys (SysBind L (sock_addr_of addr)) 0 e2, Sys (SysSocket AF_INET ty fl) L e1, Sys (SysEpollCreate 5) (ep_fd ep) e0]
        @ w_trace w"
    let ?since = "t @ [Sys (SysEpollCtl (ep_fd ep) EPOLL_CTL_ADD L (Some (flags_from_op op_READ, L))) y e4]"
    have "\<forall>c r e. Sys c r e \<in> set ?since \<longrightarrow> datagram_call (Some L) c" using t(2) by auto
    moreover have "\<forall>e \<in> set ?X. \<not> derails e" using assms(4) by auto
    ultimately obtain since1 where
      d: "defined_part (?since @ ?X) = since1 @ ?X" "\<forall>c r e. Sys c r e \<in> set since1 \<longrightarrow> datagram_call (Some L) c"
      by (rule defined_since)
    have "w_trace w' = ?since @ ?X" using t(1) calls by simp
    with d(1) have "defined_part (w_trace w') = since1 @ ?X" by simp
    moreover from this have "open_fds (defined_part (w_trace w')) = {L, ep_fd ep} \<union> open_fds (w_trace w)"
      using datagram_calls_open_nothing [OF d(2), of ?X] fds by auto
    moreover note d(2)
    ultimately show ?thesis using p(2) addr by blast
  qed
qed

lemma sample_udp_program:
  obtains w' where "server_program (beside counting_os) loopback_inet Suc [''server'', ''udp'', ''7777''] [2]
    (init_world ([] :: int list, connections_ctor)) = Some (Exited 1, w')"
proof -
  let ?w = "init_world ([] :: int list, connections_ctor)"
  obtain w1 where ep: "epoll_ctor (beside counting_os) 5 10 ?w = (Inr \<lparr>ep_fd = 3, ep_max_events = 10\<rparr>, w1)"
    "w_kern w1 = ([3], connections_ctor)"
    by (simp add: epoll_ctor_def do_sys_def beside_def counting_os_def answer_def Let_def)
  let ?s = "server_ctor \<lparr>ep_fd = 3, ep_max_events = 10\<rparr> ipv4 None"
  obtain a where a: "from_string_and_port loopback_inet (w_junk w1) ''127.0.0.1'' 7777 = Some a" "is_ipv4 (ap_addr a)"
    using loopback_parse by blast
  obtain s0 w2 where ini: "server_init (beside counting_os) loopback_inet (epoll_traits (beside counting_os)) udp 7777 ?s w1
      = (True, s0, w2)" "active_sockets w2 = connections_ctor"
    using a ep(2)
    by (simp add: server_init_def server_start_less_def idle_def server_ctor_def endpoint_ctor_def endpoint.defs
        mbind_obj_def socket_create_def impl_open_def do_sys_def beside_def counting_os_def udp_def
        answer_def Let_def impl_default_def move_impl_def bind_less_def impl_bind_def bind_addr_def active_ctor_def
        is_ipv4_def add_socket_def epoll_ctl_def active_sockets_def socket_impl_ctor_def socket_dtor_def
        destroy_impl_def impl_empty_def)
  obtain s1 where "server_round (beside counting_os) (epoll_traits (beside counting_os))
    (server_callbacks (beside counting_os) Suc udp) udp (replicate 256 0) (s0, w2) = Some (None, replicate 256 0, s1)"
    using quiet_server_round [OF ini(2)] by blast
  moreover have "is_connectionless udp" by (simp add: udp_def)
  moreover have "signals server_sig 2 1 = None" by (simp add: server_sig_def numeral_eq_Suc)
  ultimately show thesis using ep(1) ini(1) that
    by (cases s1) (simp add: server_program_def server_args_def stoi_port server_main_def)
qed

theorem udp_server_only_exchanges_datagrams_witness:
  "\<exists>w' L ep since rest. server_program (beside counting_os) loopback_inet Suc [''server'', ''udp'', ''7777''] [2]
      (init_world ([] :: int list, connections_ctor)) = Some (Exited 1, w')
    \<and> defined_part (w_trace w') = since @ rest \<and> length rest = 3 \<and> open_fds (defined_part (w_trace w')) = {L, ep}
    \<and> (\<forall>c r e. Sys c r e \<in> set since \<longrightarrow> datagram_call (Some L) c)"
proof -
  obtain w' where w': "server_program (beside counting_os) loopback_inet Suc [''server'', ''udp'', ''7777''] [2]
      (init_world ([] :: int list, connections_ctor)) = Some (Exited 1, w')" by (rule sample_udp_program)
  from udp_server_only_exchanges_datagrams [OF counting_os_posix sample_start _ _ w', of 1] obtain p addr junk since L e2 e1 ty fl ep e0
    where r: "defined_part (w_trace w') = since @ [Sys (SysBind L (sock_addr_of addr)) 0 e2, Sys (SysSocket AF_INET ty fl) L e1,
        Sys (SysEpollCreate 5) ep e0] @ []" "\<forall>c r e. Sys c r e \<in> set since \<longrightarrow> datagram_call (Some L) c"
      "open_fds (defined_part (w_trace w')) = {L, ep}" by auto
  have "length [Sys (SysBind L (sock_addr_of addr)) 0 e2, Sys (SysSocket AF_INET ty fl) L e1, Sys (SysEpollCreate 5) ep e0] = 3"
    by simp
  with r w' show ?thesis unfolding append_Nil2 by blast
qed

subsection \<open>A round that finds the vector empty\<close>

text \<open>
  The contract of a visit, of the virtual calls on a connection of a UDP server. \<open>J\<close> is anything
  about the system that receiving on the server's descriptor keeps.
\<close>

definition receive_keeps :: "'k os \<Rightarrow> int \<Rightarrow> nat \<Rightarrow> ('k \<Rightarrow> bool) \<Rightarrow> bool" where
  "receive_keeps K fd n J \<longleftrightarrow> (\<forall>k. J k \<longrightarrow> J (snd (K k (SysRecvfrom fd (of_nat n) 0 sizeof_sockaddr_in))))"

definition conn_pending ::
  "'k os \<Rightarrow> active_socket_t \<Rightarrow> int \<Rightarrow> byte list \<Rightarrow> ('k \<Rightarrow> bool) \<Rightarrow> nat \<Rightarrow> conn \<Rightarrow> 'k world \<Rightarrow> byte list list \<Rightarrow> bool" where
  "conn_pending K sock fd sa J n c w cs \<longleftrightarrow>
     (\<exists>s. c = Udp s \<and> ref_pending K sock fd sa n s w cs) \<and> J (w_kern w) \<and> receive_keeps K fd n J"

definition conn_rested :: "byte list \<Rightarrow> ('k \<Rightarrow> bool) \<Rightarrow> conn \<Rightarrow> 'k world \<Rightarrow> bool" where
  "conn_rested sa J c w \<longleftrightarrow> (\<exists>s. c = Udp s \<and> ref_rested sa s w) \<and> J (w_kern w)"

lemma ref_recv_kern:
  assumes "ref_recv K (StActive sock) s buf n w = (got, buf1, s1, w1)"
    and "ar_set s" and "si_fd (a_impl sock) = Some fd" and "si_family (a_impl sock) = ipv4"
  shows "w_kern w1 = snd (K (w_kern w) (SysRecvfrom fd n 0 sizeof_sockaddr_in))"
  using assms
  by (auto simp: ref_recv_def ref_active_def receive_less_def impl_receive_from_def recv_from_impl_def
      split: prod.splits option.splits if_splits dest!: parse_addr_trace do_sys_trace)

lemma conn_recv_pending:
  assumes "conn_pending K sock fd sa J n c w cs" and "conn_recv K (StActive sock) c buf (of_nat n) w = (got, buf1, c1, w1)"
  obtains s s1 where "c1 = Udp s1" "ref_pending K sock fd sa n s w cs" "J (w_kern w1)" "receive_keeps K fd n J"
    "ref_recv K (StActive sock) s buf (of_nat n) w = (got, buf1, s1, w1)"
proof -
  obtain s s1 where s: "c1 = Udp s1" "ref_pending K sock fd sa n s w cs" "J (w_kern w)" "receive_keeps K fd n J"
    "ref_recv K (StActive sock) s buf (of_nat n) w = (got, buf1, s1, w1)"
    using assms by (auto simp: conn_pending_def split: prod.splits)
  have "ar_set s" "si_fd (a_impl sock) = Some fd" "si_family (a_impl sock) = ipv4" using s(2) by (simp_all only: ref_pending_def)
  from ref_recv_kern [OF s(5) this] s(3,4) have "J (w_kern w1)" by (simp add: receive_keeps_def)
  with that s show ?thesis by blast
qed

interpretation udp_visit: visited K "conn_send K (StActive sock)" "conn_recv K (StActive sock)" "conn_finished (StActive sock)"
  "conn_pending K sock fd sa J" "conn_rested sa J"
  for K sock fd sa J
proof unfold_locales
  fix n c w b bs buf got buf1 c1 w1
  assume p: "conn_pending K sock fd sa J n c w (b # bs)" and buf: "length (buf :: byte list) = n"
    and r: "conn_recv K (StActive sock) c buf (of_nat n) w = (got, buf1, c1, w1)"
  obtain s s1 where s: "c1 = Udp s1" "ref_pending K sock fd sa n s w (b # bs)" "J (w_kern w1)" "receive_keeps K fd n J"
    "ref_recv K (StActive sock) s buf (of_nat n) w = (got, buf1, s1, w1)" by (rule conn_recv_pending [OF p r])
  from dgram.piece [OF s(2) buf s(5)] s(1,3,4)
  show "(\<exists>a m. got = Some (a, m) \<and> take (unat m) buf1 = b) \<and> conn_pending K sock fd sa J n c1 w1 bs"
    by (simp add: conn_pending_def)
next
  fix n c w buf got buf1 c1 w1
  assume p: "conn_pending K sock fd sa J n c w []" and buf: "length (buf :: byte list) = n"
    and r: "conn_recv K (StActive sock) c buf (of_nat n) w = (got, buf1, c1, w1)"
  obtain s s1 where s: "c1 = Udp s1" "ref_pending K sock fd sa n s w []" "J (w_kern w1)"
    "ref_recv K (StActive sock) s buf (of_nat n) w = (got, buf1, s1, w1)" by (rule conn_recv_pending [OF p r])
  from dgram.pause [OF s(2) buf s(4)] s(1,3) show "got = None \<and> conn_rested sa J c1 w1" by (simp add: conn_rested_def)
qed (use conn.send_quiet conn.recv_quiet conn.recv_length conn.recv_receives dgram.rested_fin in \<open>auto simp: conn_rested_def\<close>)

lemma datagrams_beside: "datagrams (beside K) fd n kv ds = datagrams K fd n (fst kv) ds"
  by (induction ds arbitrary: kv) (auto simp: beside_def split: prod.splits)

lemma beside_kern: "beside K kv c = (r, kv') \<Longrightarrow> K (fst kv) c = (r, fst kv')"
  by (auto simp: beside_def split: prod.splits)

text \<open>The vector that one message makes of an empty one, and what erasing its element leaves.\<close>

lemma on_msg_empty:
  assumes "cn_elems v = []"
  obtains v' rest e where "on_msg_udp grow ref_ctor v = (v', rest)" "cn_elems v' = [(e, [])]" "bs_ptr e = Some (cn_buffer v', 0)"
    "bs_storage e = Some (Udp ref_ctor)"
proof -
  obtain v' rest where r: "on_msg_udp grow ref_ctor v = (v', rest)" by (rule prod.exhaust)
  have "\<exists>e. cn_elems v' = [(e, [])] \<and> bs_ptr e = Some (cn_buffer v', 0) \<and> bs_storage e = Some (Udp ref_ctor)"
    using r assms
    by (cases "0 < cn_capacity v")
      (auto simp: on_msg_udp_def emplace_back_def base_socket_ctor_def ref_move_def ref_ctor_def Let_def)
  with that r show thesis by blast
qed

lemma erase_only_ref:
  assumes "cn_elems v = [(e, t)]" and "bs_ptr e = Some (cn_buffer v, 0)"
  shows "erase_at K 0 (put_object (cn_buffer v, 0) (Udp r) v, w) = (v\<lparr>cn_elems := []\<rparr>, w)"
  using assms by (simp add: erase_at_def erase_tail_def put_object_def deleter_def object_at_def)

lemma serve_one_ref:
  assumes v: "cn_elems v = [(e, [])]" "bs_ptr e = Some (cn_buffer v, 0)" "bs_storage e = Some (Udp s)"
    and s: "ar_set s" "si_fd (a_impl sock) = Some fd" "si_family (a_impl sock) = ipv4"
    and ds: "datagrams K fd (of_nat (length tmp)) (w_kern w) ds" "length tmp < 2 ^ 64"
    and J: "receive_keeps K fd (length tmp) J" "J (w_kern w)"
    and req: "concat (map snd ds) \<noteq> []" "create_response (to_text (concat (map snd ds))) = Inr resp"
  obtains tmp' w1 r w2 where "serve_from K (StActive sock) False tmp 0 v w = Some (None, v\<lparr>cn_elems := []\<rparr>, tmp', w2)"
    "length tmp' = length tmp" "J (w_kern w1)"
    "do_sys K (SysSendto fd (of_text resp) (of_nat (length resp)) 0 (fst (last ds))) w1 = (r, w2)" "adds receives w w1"
proof -
  have "ds \<noteq> []" using req(1) by auto
  with s ds J have p: "conn_pending K sock fd (fst (last ds)) J (length tmp) (Udp s) w (map snd ds)"
    by (simp add: ref_pending_def conn_pending_def) (intro exI [of _ ds], simp)
  obtain tmp' c1 w1 where vis: "length tmp' = length tmp" "conn_rested (fst (last ds)) J c1 w1"
    "visit_connection (conn_recv K (StActive sock)) (conn_send K (StActive sock)) (conn_finished (StActive sock)) False tmp (Udp s) [] w =
       (case conn_send K (StActive sock) c1 (of_text resp) (of_nat (length resp)) w1 of
          (sent, s2, w2) \<Rightarrow> Some (if sent = None \<or> \<not> False then Erased s2 else Again s2, tmp', w2))"
    "adds receives w w1"
    using udp_visit.visit_answers [OF p req] by blast
  then obtain s1 a where a: "c1 = Udp s1" "ar_set s1" "ar_remote s1 = Some a" "is_ipv4 (ap_addr a)"
    "sock_addr4 (ap_addr a) (ap_port a) = fst (last ds)" "J (w_kern w1)"
    by (auto simp: conn_rested_def ref_rested_def replies_to_def)
  obtain r w2 where sys: "do_sys K (SysSendto fd (of_text resp) (of_nat (length resp)) 0 (fst (last ds))) w1 = (r, w2)"
    by fastforce
  obtain sent where send: "conn_send K (StActive sock) c1 (of_text resp) (of_nat (length resp)) w1 = (sent, Udp s1, w2)"
    using a sys s(2,3) by (simp add: ref_send_def ref_active_def send_less_def impl_send_to_def send_to_impl_def is_ipv4_def)
  have "serve_from K (StActive sock) False tmp 0 v w = serve_from K (StActive sock) False tmp' 0 (v\<lparr>cn_elems := []\<rparr>) w2"
    using v vis(3) send one_connection(2) [OF v] by (subst serve_from.simps) (simp add: erase_only_ref [OF v(1,2)])
  also have "\<dots> = Some (None, v\<lparr>cn_elems := []\<rparr>, tmp', w2)" by (subst serve_from.simps) simp
  finally show ?thesis using vis(1) a(6) sys vis(4) by (rule that)
qed

text \<open>The message callback, called for a readable server socket, when the vector is empty.\<close>

lemma message_to_empty:
  assumes "en_state s = StActive sock" and "si_fd (a_impl sock) = Some L" and "is_connectionless pr"
    and "sv_on_conn s = Some (Some cb)" and "ob_handlers (en_obs s) = server_handlers" and "ob_unhandled (en_obs s) = None"
    and "epoll_proceed (beside K) (en_poll s) 10 w = ([\<lparr>ev_fd = L, ev_type = READ_READY\<rparr>], w1)"
    and "cn_elems (active_sockets w1) = []"
  obtains v e where "server_proceed (beside K) (epoll_traits (beside K)) (server_callbacks (beside K) grow pr) pr 10 (s, w)
      = (Inr True, (s, put_sockets v (upcall cb w1)))"
    "cn_elems v = [(e, [])]" "bs_ptr e = Some (cn_buffer v, 0)" "bs_storage e = Some (Udp ref_ctor)"
proof -
  let ?e = "\<lparr>ev_fd = L, ev_type = READ_READY\<rparr>"
  let ?call = "server_call (beside K) (epoll_traits (beside K)) (server_callbacks (beside K) grow pr) pr"
  obtain v rest e where v: "on_msg_udp grow ref_ctor (active_sockets w1) = (v, rest)" "cn_elems v = [(e, [])]"
    "bs_ptr e = Some (cn_buffer v, 0)" "bs_storage e = Some (Udp ref_ctor)" by (rule on_msg_empty [OF assms(8)])
  have calls: "calls_of (en_obs s) ?e = [SReadReady]"
    using assms(5) by (simp add: calls_of_def event_order_def) (simp add: event_type_defs)
  have fd: "get_fd s = L" using assms(1,2) by (simp add: get_fd_def impl_fd_def)
  have "active_sockets (upcall cb w1) = active_sockets w1" by (simp add: active_sockets_def upcall_def)
  then have "run_calls ?call (ev_fd ?e) (calls_of (en_obs s) ?e) (s, w1) = (1, None, (s, put_sockets v (upcall cb w1)))"
    using calls fd assms(3,4) v(1) by (simp add: call_on_msg_def server_callbacks_def)
  from server_proceed_one [OF _ assms(5,6) this] assms(7) that v(2-4) show ?thesis by simp
qed

text \<open>What is in the history between the start of the round and the answer.\<close>

lemma round_events:
  assumes "epoll_proceed K ep n w = (evs, w1)" and "adds receives (put_sockets v (upcall cb w1)) w2"
  obtains t where "w_trace w2 = t @ w_trace w" "\<forall>ev \<in> set t. receives ev \<or> is_epoll ev \<or> ev = Upcall cb"
proof -
  have "adds is_epoll w w1" using epoll_proceed_adds [of w K ep n] assms(1) by simp
  then obtain t1 where t1: "w_trace w1 = t1 @ w_trace w" "\<forall>ev \<in> set t1. is_epoll ev" by (auto simp: adds_def)
  obtain t2 where t2: "w_trace w2 = t2 @ Upcall cb # w_trace w1" "\<forall>ev \<in> set t2. receives ev"
    using assms(2) by (auto simp: adds_def put_sockets_def)
  from t1 t2 show ?thesis by (intro that [of "t2 @ Upcall cb # t1"]) auto
qed

text \<open>The round; the last call is made in a state \<open>k\<close> of the system of which \<open>J\<close> still holds.\<close>

lemma udp_round:
  assumes "en_state s = StActive sock" and "si_fd (a_impl sock) = Some L" and "si_family (a_impl sock) = ipv4"
    and "is_connectionless pr" and "sv_on_conn s = Some (Some cb)"
    and "ob_handlers (en_obs s) = server_handlers" and "ob_unhandled (en_obs s) = None"
    and "cn_elems (active_sockets w) = []" and "length tmp < 2 ^ 64"
    and "epoll_proceed (beside K) (en_poll s) 10 w = ([\<lparr>ev_fd = L, ev_type = READ_READY\<rparr>], w1)"
    and "datagrams K L (of_nat (length tmp)) (fst (w_kern w1)) ds"
    and "concat (map snd ds) \<noteq> []" and "create_response (to_text (concat (map snd ds))) = Inr resp"
    and J: "receive_keeps K L (length tmp) J" "J (fst (w_kern w1))"
  shows "\<exists>tmp' w' k r e t.
      server_round (beside K) (epoll_traits (beside K)) (server_callbacks (beside K) grow pr) pr tmp (s, w)
        = Some (None, tmp', (s, w'))
    \<and> length tmp' = length tmp \<and> cn_elems (active_sockets w') = []
    \<and> w_trace w' = Sys (SysSendto L (of_text resp) (of_nat (length resp)) 0 (fst (last ds))) r e # t @ w_trace w
    \<and> (\<forall>ev \<in> set t. receives ev \<or> is_epoll ev \<or> ev = Upcall cb)
    \<and> J k \<and> (\<exists>x. K k (SysSendto L (of_text resp) (of_nat (length resp)) 0 (fst (last ds))) = (x, fst (w_kern w')))"
proof -
  have "active_sockets w1 = active_sockets w"
    by (rule active_sockets_via [OF via_epoll(3) [OF assms(10)]])
  then have empty: "cn_elems (active_sockets w1) = []" using assms(8) by simp
  obtain v e where
    run: "server_proceed (beside K) (epoll_traits (beside K)) (server_callbacks (beside K) grow pr) pr 10 (s, w)
      = (Inr True, (s, put_sockets v (upcall cb w1)))"
    and v: "cn_elems v = [(e, [])]" "bs_ptr e = Some (cn_buffer v, 0)" "bs_storage e = Some (Udp ref_ctor)"
    by (rule message_to_empty [OF assms(1,2,4-7,10) empty])
  let ?w = "put_sockets v (upcall cb w1)"
  have ds: "datagrams (beside K) L (of_nat (length tmp)) (w_kern ?w) ds"
    using assms(11) by (simp add: datagrams_beside put_sockets_def upcall_def)
  have keeps: "receive_keeps (beside K) L (length tmp) (J \<circ> fst)" "(J \<circ> fst) (w_kern ?w)"
    using J by (auto simp: receive_keeps_def beside_def put_sockets_def upcall_def split: prod.splits)
  have "ar_set ref_ctor" by (simp add: ref_ctor_def)
  from serve_one_ref [OF v this assms(2,3) ds assms(9) keeps assms(12,13)] obtain tmp' w2 r w' where
    serve: "serve_from (beside K) (StActive sock) False tmp 0 v ?w = Some (None, v\<lparr>cn_elems := []\<rparr>, tmp', w')"
    "length tmp' = length tmp" "(J \<circ> fst) (w_kern w2)"
    "do_sys (beside K) (SysSendto L (of_text resp) (of_nat (length resp)) 0 (fst (last ds))) w2 = (r, w')" "adds receives ?w w2" .
  have sockets: "active_sockets ?w = v" "active_sockets (put_sockets u w') = u" "w_trace (put_sockets u w') = w_trace w'"
    "fst (w_kern (put_sockets u w')) = fst (w_kern w')" for u
    by (simp_all add: active_sockets_def put_sockets_def)
  have round: "server_round (beside K) (epoll_traits (beside K)) (server_callbacks (beside K) grow pr) pr tmp (s, w)
      = Some (None, tmp', (s, put_sockets (v\<lparr>cn_elems := []\<rparr>) w'))"
    using run serve(1) sockets(1) assms(1,4) by (simp add: server_round_def)
  have "\<exists>x. K (fst (w_kern w2)) (SysSendto L (of_text resp) (of_nat (length resp)) 0 (fst (last ds))) = (x, fst (w_kern w'))"
    using beside_kern do_sys_trace [OF serve(4)] by blast
  moreover have "J (fst (w_kern w2))" using serve(3) by simp
  moreover obtain y where "w_trace w' = Sys (SysSendto L (of_text resp) (of_nat (length resp)) 0 (fst (last ds))) (rp_ret r) y
      # w_trace w2" using do_sys_trace [OF serve(4)] by blast
  moreover obtain t where "w_trace w2 = t @ w_trace w" "\<forall>ev \<in> set t. receives ev \<or> is_epoll ev \<or> ev = Upcall cb"
    by (rule round_events [OF assms(10) serve(5)])
  ultimately show ?thesis using round serve(2) sockets
    by (intro exI [of _ tmp'] exI [of _ "put_sockets (v\<lparr>cn_elems := []\<rparr>) w'"] exI [of _ "fst (w_kern w2)"]
        exI [of _ "rp_ret r"] exI [of _ y] exI [of _ t]) simp
qed

text \<open>
  C13: A round of the example UDP server over IPv4 whose poll reports its socket readable and
  nothing else, and whose vector is empty, reads every datagram that waits on the socket,
  whoever sent it; when the joined text of all of them is not empty and the service answers it
  without an exception, the round sends exactly one message, the answer to the joined text, to
  the sender of the last datagram, the other senders getting no answer: besides that send it
  makes only the poll's call, the message callback and receives. It leaves the vector empty and
  the server as it was.
\<close>

theorem udp_round_answers:
  assumes "en_state s = StActive sock" and "si_fd (a_impl sock) = Some L" and "si_family (a_impl sock) = ipv4"
    and "is_connectionless pr" and "sv_on_conn s = Some (Some cb)"
    and "ob_handlers (en_obs s) = server_handlers" and "ob_unhandled (en_obs s) = None"
    and "cn_elems (active_sockets w) = []" and "length tmp < 2 ^ 64"
    and "epoll_proceed (beside K) (en_poll s) 10 w = ([\<lparr>ev_fd = L, ev_type = READ_READY\<rparr>], w1)"
    and "datagrams K L (of_nat (length tmp)) (fst (w_kern w1)) ds"
    and "concat (map snd ds) \<noteq> []" and "create_response (to_text (concat (map snd ds))) = Inr resp"
  shows "\<exists>tmp' w' r e t.
      server_round (beside K) (epoll_traits (beside K)) (server_callbacks (beside K) grow pr) pr tmp (s, w)
        = Some (None, tmp', (s, w'))
    \<and> length tmp' = length tmp \<and> cn_elems (active_sockets w') = []
    \<and> w_trace w' = Sys (SysSendto L (of_text resp) (of_nat (length resp)) 0 (fst (last ds))) r e # t @ w_trace w
    \<and> (\<forall>ev \<in> set t. receives ev \<or> is_epoll ev \<or> ev = Upcall cb)"
  using udp_round [OF assms, where J = "\<lambda>k. True" and grow = grow] unfolding receive_keeps_def by blast

text \<open>The witness: a server the message handlers of which are registered, and the system of two senders.\<close>

definition datagram_server :: "epoll_t server" where
  "datagram_server =
     (server_register_cbs sample_server)
       \<lparr>en_state := StActive udp_socket, sv_on_conn := Some (Some 0), sv_erase := Some (Some 1)\<rparr>"

lemma two_senders_events:
  "\<exists>w1. epoll_proceed (beside two_senders_os) (en_poll datagram_server) 10 (init_world (0, connections_ctor))
      = ([\<lparr>ev_fd = 5, ev_type = READ_READY\<rparr>], w1) \<and> fst (w_kern w1) = 0"
  by (simp add: datagram_server_def epoll_proceed_def two_senders_os_def beside_def do_sys_def c_int_def Let_def answer_def
      event_type_from_flags_def add_flag_def enum_or_def event_type_defs)

theorem udp_round_answers_witness:
  "\<exists>tmp' w' r e t.
     server_round (beside two_senders_os) (epoll_traits (beside two_senders_os))
       (server_callbacks (beside two_senders_os) Suc udp) udp [0, 0, 0] (datagram_server, init_world (0, connections_ctor))
       = Some (None, tmp', (datagram_server, w'))
   \<and> cn_elems (active_sockets w') = []
   \<and> w_trace w' = Sys (SysSendto 5 [104, 104] 2 0 [2, 0, 0, 1, 127, 0, 0, 1, 0, 0, 0, 0, 0, 0, 0, 0]) r e # t"
proof -
  obtain w1 where e: "epoll_proceed (beside two_senders_os) (en_poll datagram_server) 10 (init_world (0, connections_ctor))
      = ([\<lparr>ev_fd = 5, ev_type = READ_READY\<rparr>], w1)" and k: "fst (w_kern w1) = 0" using two_senders_events by blast
  have d: "datagrams two_senders_os 5 (of_nat (length [0, 0, 0 :: byte])) (fst (w_kern w1)) two_datagrams"
    using two_senders(1) k by simp
  from udp_round_answers [OF _ _ _ _ _ _ _ _ _ e d _ two_senders(2), of udp_socket udp 0 Suc] two_senders(3)
  show ?thesis
    by (auto simp: datagram_server_def server_register_empty udp_socket_def socket_impl_ctor_def udp_def
        active_sockets_def connections_ctor_def)
qed

end
