(* ===== verification/Udp_Exchange.thy ===== *)
theory Udp_Exchange
  imports Exchange Udp_Server_Props
begin

section \<open>A datagram and its answer\<close>

text \<open>
  The counterpart of \<open>Exchange\<close> for UDP, with a whole round of the example server. The client's
  world has the state of the system; the server's has its vector beside it. \<open>enter\<close> and \<open>leave\<close>
  take the state of the system from the one process to the other.
\<close>

definition enter :: "('k \<times> connections) world \<Rightarrow> 'k world \<Rightarrow> ('k \<times> connections) world" where
  "enter me other = me\<lparr>w_kern := (w_kern other, snd (w_kern me))\<rparr>"

definition leave :: "'k world \<Rightarrow> ('k \<times> connections) world \<Rightarrow> 'k world" where
  "leave me other = me\<lparr>w_kern := fst (w_kern other)\<rparr>"

lemma enter_leave_simps [simp]:
  "fst (w_kern (enter me other)) = w_kern other" "active_sockets (enter me other) = active_sockets me"
  "w_kern (leave me' other') = fst (w_kern other')" "w_errno (leave me' other') = w_errno me'"
  by (simp_all add: enter_def leave_def active_sockets_def)

text \<open>
  What UDP gives between two sockets as long as no datagram is lost: a datagram that a send took
  waits at the other socket, behind those that wait already and under the sender's address, until
  a receive takes it, cut to the size of the buffer. \<open>mail\<close> reads what waits at a descriptor off the
  system's state.
\<close>

definition posts ::
  "'k os \<Rightarrow> ('k \<Rightarrow> int \<Rightarrow> (byte list \<times> byte list) list) \<Rightarrow> int \<Rightarrow> byte list \<Rightarrow> int \<Rightarrow> byte list \<Rightarrow> bool" where
  "posts K mail a sa b sb \<longleftrightarrow>
     (\<forall>k buf r k'. K k (SysSendto a buf (of_nat (length buf)) 0 sb) = (r, k') \<and> rp_ret r \<noteq> -1 \<longrightarrow>
        mail k' b = mail k b @ [(sa, buf)] \<and> mail k' a = mail k a)
   \<and> (\<forall>k n r k'. K k (SysRecvfrom b n 0 sizeof_sockaddr_in) = (r, k') \<longrightarrow>
        mail k' a = mail k a
        \<and> (case mail k b of
             [] \<Rightarrow> rp_ret r = -1 \<and> rp_errno r = EAGAIN \<and> mail k' b = []
           | (s, c) # ds \<Rightarrow> rp_ret r = int (length (take (unat n) c)) \<and> rp_data r = take (unat n) c \<and> rp_addr r = s
                \<and> mail k' b = ds))"

definition polls_keep :: "'k os \<Rightarrow> ('k \<Rightarrow> int \<Rightarrow> (byte list \<times> byte list) list) \<Rightarrow> bool" where
  "polls_keep K mail \<longleftrightarrow> (\<forall>k e n t. mail (snd (K k (SysEpollWait e n t))) = mail k)"

definition sockaddr4 :: "byte list \<Rightarrow> bool" where
  "sockaddr4 sa \<longleftrightarrow> (\<exists>prt host. sa = sa_family AF_INET @ prt @ host @ replicate 8 0 \<and> length prt = 2 \<and> length host = 4)"

lemma posts_send:
  assumes "posts K mail a sa b sb" and "K k (SysSendto a buf (of_nat (length buf)) 0 sb) = (r, k')" and "rp_ret r \<noteq> -1"
  shows "mail k' b = mail k b @ [(sa, buf)]" and "mail k' a = mail k a"
  using assms unfolding posts_def by blast+

lemma posts_recv:
  assumes "posts K mail a sa b sb" and "K k (SysRecvfrom b n 0 sizeof_sockaddr_in) = (r, k')"
  shows "mail k' a = mail k a"
    and "mail k b = [] \<Longrightarrow> rp_ret r = -1 \<and> rp_errno r = EAGAIN \<and> mail k' b = []"
    and "mail k b = (s, c) # ds \<Longrightarrow> rp_ret r = int (length (take (unat n) c)) \<and> rp_data r = take (unat n) c
           \<and> rp_addr r = s \<and> mail k' b = ds"
proof -
  have "mail k' a = mail k a
      \<and> (case mail k b of
           [] \<Rightarrow> rp_ret r = -1 \<and> rp_errno r = EAGAIN \<and> mail k' b = []
         | (s, c) # ds \<Rightarrow> rp_ret r = int (length (take (unat n) c)) \<and> rp_data r = take (unat n) c \<and> rp_addr r = s
              \<and> mail k' b = ds)"
    using assms unfolding posts_def by blast
  then show "mail k' a = mail k a"
    "mail k b = [] \<Longrightarrow> rp_ret r = -1 \<and> rp_errno r = EAGAIN \<and> mail k' b = []"
    "mail k b = (s, c) # ds \<Longrightarrow> rp_ret r = int (length (take (unat n) c)) \<and> rp_data r = take (unat n) c
           \<and> rp_addr r = s \<and> mail k' b = ds"
    by auto
qed

text \<open>What waits at a descriptor is what the server's visit expects, each datagram cut to the buffer.\<close>

lemma posts_datagrams:
  assumes "posts K mail a sa b sb" and "mail k b = ds" and "\<forall>d \<in> set ds. sockaddr4 (fst d)"
  shows "datagrams K b n k (map (\<lambda>(s, c). (s, take (unat n) c)) ds)"
  using assms(2,3)
proof (induction ds arbitrary: k)
  case Nil
  obtain r k' where k: "K k (SysRecvfrom b n 0 sizeof_sockaddr_in) = (r, k')" by (rule prod.exhaust)
  with posts_recv(2) [OF assms(1) k] Nil show ?case by simp
next
  case (Cons d ds)
  obtain s c where d: "d = (s, c)" by (rule prod.exhaust)
  obtain r k' where k: "K k (SysRecvfrom b n 0 sizeof_sockaddr_in) = (r, k')" by (rule prod.exhaust)
  have r: "rp_ret r = int (length (take (unat n) c))" "rp_data r = take (unat n) c" "rp_addr r = s" "mail k' b = ds"
    using posts_recv(3) [OF assms(1) k] Cons.prems(1) d by simp_all
  have "datagrams K b n k' (map (\<lambda>(s, c). (s, take (unat n) c)) ds)" using Cons.IH [OF r(4)] Cons.prems(2) by simp
  moreover have "sockaddr4 s" using Cons.prems(2) d by simp
  ultimately show ?case using k r(1-3) d by (simp add: sockaddr4_def)
qed

subsection \<open>The client's side\<close>

text \<open>A connectionless client that may send to and receive from IPv4 addresses.\<close>

definition mails_on :: "'p client \<Rightarrow> int \<Rightarrow> byte list \<Rightarrow> bool" where
  "mails_on cl fd sb \<longleftrightarrow>
     (\<exists>sock. en_state cl = StActive sock \<and> si_fd (a_impl sock) = Some fd \<and> si_family (a_impl sock) = ipv4)
   \<and> (\<exists>a. cl_remote cl = Some a \<and> is_ipv4 (ap_addr a) \<and> sock_addr4 (ap_addr a) (ap_port a) = sb)"

lemma mails_send:
  assumes "mails_on cl a sb" and "is_connectionless pr"
    and "do_sys K (SysSendto a buf n 0 sb) w = (r, w1)" and "rp_ret r = int (length buf)" and "length buf < 2 ^ 63"
  shows "client_send K pr cl buf n w = (Some (of_nat (length buf)), w1)"
proof -
  have "(of_nat (length buf) :: size_t) \<noteq> -1"
  proof
    assume "(of_nat (length buf) :: size_t) = -1"
    then have "unat (of_nat (length buf) :: size_t) = unat (-1 :: size_t)" by simp
    with assms(5) show False by (simp add: unat_of_nat unsigned_minus_1_eq_mask mask_eq_exp_minus_1)
  qed
  with assms(1-4) show ?thesis
    by (auto simp: mails_on_def client_send_def send_less_def impl_send_to_def send_to_impl_def is_ipv4_def)
qed

lemma mails_recv:
  assumes "mails_on cl a sb" and "is_connectionless pr" and "posts K mail b sb a sa"
    and "mail (w_kern w) a = (s, c) # ds" and "sockaddr4 s" and "unat n \<le> length buf"
  obtains ad w1 where "client_recv K pr cl buf n w = (Some (ad, of_nat (length (take (unat n) c))), overlay buf (take (unat n) c), w1)"
    "mail (w_kern w1) a = ds"
proof -
  obtain sock where sock: "en_state cl = StActive sock" "si_fd (a_impl sock) = Some a" "si_family (a_impl sock) = ipv4"
    using assms(1) by (auto simp: mails_on_def)
  obtain r w0 where d: "do_sys K (SysRecvfrom a n 0 sizeof_sockaddr_in) w = (r, w0)" by fastforce
  then have k: "K (w_kern w) (SysRecvfrom a n 0 sizeof_sockaddr_in) = (r, w_kern w0)" using do_sys_trace by blast
  note r = posts_recv(3) [OF assms(3) k assms(4)]
  obtain prt host where s: "rp_addr r = sa_family AF_INET @ prt @ host @ replicate 8 0" "length prt = 2" "length host = 4"
    using assms(5) r unfolding sockaddr4_def by blast
  have "rp_ret r \<noteq> -1" using r by simp
  moreover have "ar_set ref_ctor" by (simp add: ref_ctor_def)
  ultimately obtain ad us where
    "ref_recv K (StActive sock) ref_ctor buf n w = (Some (ad, word_of_int (rp_ret r)), overlay buf (rp_data r),
       ref_ctor\<lparr>ar_remote := Some ad\<rparr>, mark_ubs us w0)" using ref_recv_some [OF _ sock(2,3) d _ s] by metis
  then have "receive_less K sock buf n 0 w = (Some (ad, word_of_int (rp_ret r)), overlay buf (rp_data r), mark_ubs us w0)"
    by (auto simp: ref_recv_def ref_active_def ref_ctor_def split: prod.splits option.splits)
  then have "client_recv K pr cl buf n w = (Some (ad, of_nat (length (take (unat n) c))), overlay buf (take (unat n) c), mark_ubs us w0)"
    using sock(1) assms(2) r by (simp add: client_recv_def)
  with r show ?thesis by (intro that [of ad "mark_ubs us w0"]) simp_all
qed

lemma mails_recv_none:
  assumes "mails_on cl a sb" and "is_connectionless pr" and "posts K mail b sb a sa" and "mail (w_kern w) a = []"
  obtains w1 where "client_recv K pr cl buf n w = (None, buf, w1)" "w_errno w1 = EAGAIN" "mail (w_kern w1) a = []"
proof -
  obtain sock where sock: "en_state cl = StActive sock" "si_fd (a_impl sock) = Some a" "si_family (a_impl sock) = ipv4"
    using assms(1) by (auto simp: mails_on_def)
  obtain r w0 where d: "do_sys K (SysRecvfrom a n 0 sizeof_sockaddr_in) w = (r, w0)" by fastforce
  then have k: "K (w_kern w) (SysRecvfrom a n 0 sizeof_sockaddr_in) = (r, w_kern w0)" using do_sys_trace by blast
  note r = posts_recv(2) [OF assms(3) k assms(4)]
  have "client_recv K pr cl buf n w = (None, buf, w0)"
    using sock assms(2) d r by (simp add: client_recv_def receive_less_def impl_receive_from_def recv_from_impl_def)
  with that r do_sys_trace [OF d] show ?thesis by simp
qed

lemma mails_finished: "mails_on cl a sb \<Longrightarrow> client_finished_recv cl w \<longleftrightarrow> w_errno w = EAGAIN"
  by (auto simp: mails_on_def client_finished_recv_def client_again_or_would_block_def again_def eagain_def
      active_would_block_def would_block_def)

lemma mails_response:
  assumes "mails_on cl a sb" and "is_connectionless pr" and "posts K mail b sb a sa"
    and "mail (w_kern w) a = [(s, c)]" and "sockaddr4 s"
  shows "\<exists>w'. read_response K pr cl [] w = Some (take 256 c, w')"
proof -
  let ?buf = "replicate 256 0 :: byte list"
  obtain ad w1 where one: "client_recv K pr cl ?buf 256 w = (Some (ad, of_nat (length (take 256 c))), overlay ?buf (take 256 c), w1)"
    and empty: "mail (w_kern w1) a = []"
    using mails_recv [OF assms(1-5), of 256 ?buf] by auto
  have len: "length (take 256 c) \<le> 256" by simp
  then have "take (unat (of_nat (length (take 256 c)) :: size_t)) (overlay ?buf (take 256 c)) = take 256 c"
    using take_overlay [of "take 256 c" ?buf] by (simp add: unat_of_nat)
  with one have first: "read_response K pr cl [] w =
      (if client_finished_recv cl w1 then Some (take 256 c, w1) else read_response K pr cl (take 256 c) w1)"
    by (subst read_response.simps) (simp add: Let_def)
  obtain w2 where two: "client_recv K pr cl ?buf 256 w1 = (None, ?buf, w2)" "w_errno w2 = EAGAIN"
    using mails_recv_none [OF assms(1-3) empty] by blast
  then have "read_response K pr cl (take 256 c) w1 = Some (take 256 c, w2)"
    by (subst read_response.simps) (simp add: mails_finished [OF assms(1)])
  with first show ?thesis by (cases "client_finished_recv cl w1") simp_all
qed

subsection \<open>Both\<close>

text \<open>The poll brings the server's round to the datagrams; they are still there when it reads them.\<close>

lemma polled:
  assumes "polls_keep K mail" and "epoll_proceed (beside K) ep t w = (evs, w1)"
  shows "mail (fst (w_kern w1)) = mail (fst (w_kern w))"
proof -
  obtain w0 r w2 where d: "do_sys (beside K) (SysEpollWait (ep_fd ep) (c_int (uint (ep_max_events ep))) (c_int t)) w0 = (r, w2)"
    "w_kern w0 = w_kern w" "w_kern w1 = w_kern w2"
  proof -
    let ?w0 = "w\<lparr>w_tl_events := Some (case w_tl_events w of Some n \<Rightarrow> n | None \<Rightarrow> unat (ep_max_events ep))\<rparr>"
    obtain r w2 where "do_sys (beside K) (SysEpollWait (ep_fd ep) (c_int (uint (ep_max_events ep))) (c_int t)) ?w0 = (r, w2)"
      by fastforce
    moreover from this have "w_kern w1 = w_kern w2"
      using assms(2) by (auto simp: epoll_proceed_def Let_def split: if_splits)
    ultimately show thesis using that [of ?w0 r w2] by simp
  qed
  have "beside K (w_kern w) (SysEpollWait (ep_fd ep) (c_int (uint (ep_max_events ep))) (c_int t)) = (r, w_kern w2)"
    using do_sys_trace [OF d(1)] d(2) by simp
  from beside_kern [OF this] assms(1) d(3) show ?thesis unfolding polls_keep_def by (metis snd_conv)
qed

text \<open>The server's round, of a mailbox with one request.\<close>

lemma mailed_round:
  assumes net: "posts K mail a sa b sb" "posts K mail b sb a sa" "polls_keep K mail" "sockaddr4 sa"
    and server: "en_state s = StActive sock" "si_fd (a_impl sock) = Some b" "si_family (a_impl sock) = ipv4"
      "is_connectionless pr" "sv_on_conn s = Some (Some cb)" "ob_handlers (en_obs s) = server_handlers"
      "ob_unhandled (en_obs s) = None" "cn_elems (active_sockets w) = []" "length tmp = 256"
    and event: "epoll_proceed (beside K) (en_poll s) 10 w = ([\<lparr>ev_fd = b, ev_type = READ_READY\<rparr>], w1)"
    and mail: "mail (fst (w_kern w)) b = [(sa, of_text request)]" "mail (fst (w_kern w)) a = []"
    and request: "request \<noteq> []" "length request \<le> 256" "create_response request = Inr response"
    and whole: "\<And>k. rp_ret (fst (K k (SysSendto b (of_text response) (of_nat (length response)) 0 sa))) \<noteq> -1"
  obtains tmp' w' where
    "server_round (beside K) (epoll_traits (beside K)) (server_callbacks (beside K) grow pr) pr tmp (s, w) = Some (None, tmp', (s, w'))"
    "cn_elems (active_sockets w') = []" "mail (fst (w_kern w')) a = [(sb, of_text response)]"
proof -
  let ?ds = "[(sa, of_text request)]" and ?J = "\<lambda>k. mail k a = []"
  have waits: "mail (fst (w_kern w1)) = mail (fst (w_kern w))" by (rule polled [OF net(3) event])
  have small: "length tmp < 2 ^ 64" "unat (of_nat (length tmp) :: size_t) = 256" using server(9) by simp_all
  have ds: "datagrams K b (of_nat (length tmp)) (fst (w_kern w1)) ?ds"
    using posts_datagrams [OF net(1), of "fst (w_kern w1)" ?ds "of_nat (length tmp)"] waits mail(1) net(4) request(2) small(2)
    by simp
  have keeps: "receive_keeps K b (length tmp) ?J"
    using posts_recv(1) [OF net(1)] by (auto simp: receive_keeps_def intro: posts_recv(1) [OF net(1) surjective_pairing, THEN trans])
  have "?J (fst (w_kern w1))" using waits mail(2) by simp
  moreover have "concat (map snd ?ds) \<noteq> []" using request(1) by (simp add: of_text_def)
  moreover have "create_response (to_text (concat (map snd ?ds))) = Inr response" using request(3) by simp
  ultimately obtain tmp' w' k x where
    round: "server_round (beside K) (epoll_traits (beside K)) (server_callbacks (beside K) grow pr) pr tmp (s, w) = Some (None, tmp', (s, w'))"
      "cn_elems (active_sockets w') = []"
    and k: "mail k a = []" "K k (SysSendto b (of_text response) (of_nat (length response)) 0 sa) = (x, fst (w_kern w'))"
    using udp_round [OF server(1-8) small(1) event ds _ _ keeps, where grow = grow] by auto
  have "rp_ret x \<noteq> -1" using whole [of k] k(2) by simp
  moreover have "K k (SysSendto b (of_text response) (of_nat (length (of_text response))) 0 sa) = (x, fst (w_kern w'))"
    using k(2) by simp
  ultimately have "mail (fst (w_kern w')) a = [(sb, of_text response)]" using posts_send(1) [OF net(2)] k(1) by fastforce
  with round show thesis by (rule that)
qed

text \<open>
  C6: A client and a server that exchange datagrams over IPv4 and a network that loses none and
  has none under way: when the request is not empty, fits into the server's buffer of 256 bytes
  and is answered by the service without an exception, the system takes both sends, the server's
  vector is empty and its poll reports its socket readable and nothing else, then the server's
  next round answers the request and leaves the vector empty, and the client's read callback
  then ends with the service's answer to the request, cut to the 256 bytes of its buffer.
\<close>

theorem datagram_and_answer:
  assumes net: "posts K mail a sa b sb" "posts K mail b sb a sa" "polls_keep K mail" "sockaddr4 sa" "sockaddr4 sb"
    and client: "mails_on cl a sb" "is_connectionless pr"
    and server: "en_state s = StActive sock" "si_fd (a_impl sock) = Some b" "si_family (a_impl sock) = ipv4"
      "sv_on_conn s = Some (Some cb)" "ob_handlers (en_obs s) = server_handlers" "ob_unhandled (en_obs s) = None"
      "cn_elems (active_sockets ws) = []" "length tmp = 256"
    and quiet: "mail (w_kern wc) a = []" "mail (w_kern wc) b = []"
    and request: "request \<noteq> []" "length request \<le> 256" "create_response request = Inr response"
    and whole: "\<And>k. rp_ret (fst (K k (SysSendto a (of_text request) (of_nat (length request)) 0 sb))) = int (length request)"
      "\<And>k. rp_ret (fst (K k (SysSendto b (of_text response) (of_nat (length response)) 0 sa))) \<noteq> -1"
    and event: "fst (epoll_proceed (beside K) (en_poll s) 10
        (enter ws (snd (client_send K pr cl (of_text request) (of_nat (length request)) wc)))) = [\<lparr>ev_fd = b, ev_type = READ_READY\<rparr>]"
  shows "\<exists>wc1 tmp' ws1 wc2.
      client_send K pr cl (of_text request) (of_nat (length request)) wc = (Some (of_nat (length request)), wc1)
    \<and> server_round (beside K) (epoll_traits (beside K)) (server_callbacks (beside K) grow pr) pr tmp (s, enter ws wc1)
        = Some (None, tmp', (s, ws1))
    \<and> cn_elems (active_sockets ws1) = []
    \<and> read_response K pr cl [] (leave wc1 ws1) = Some (take 256 (of_text response), wc2)"
proof -
  obtain r wc1 where d: "do_sys K (SysSendto a (of_text request) (of_nat (length request)) 0 sb) wc = (r, wc1)" by fastforce
  then have k: "K (w_kern wc) (SysSendto a (of_text request) (of_nat (length (of_text request))) 0 sb) = (r, w_kern wc1)"
    using do_sys_trace [OF d] by simp
  have ret: "rp_ret r = int (length (of_text request))" using k whole(1) by (metis fst_conv length_of_text)
  have send: "client_send K pr cl (of_text request) (of_nat (length request)) wc = (Some (of_nat (length request)), wc1)"
    using mails_send [OF client d ret] request(2) by simp
  have sent: "mail (w_kern wc1) b = [(sa, of_text request)]" "mail (w_kern wc1) a = []"
    using posts_send [OF net(1) k] ret quiet by simp_all
  obtain w1 where polled: "epoll_proceed (beside K) (en_poll s) 10 (enter ws wc1) = ([\<lparr>ev_fd = b, ev_type = READ_READY\<rparr>], w1)"
    using event unfolding send by (auto simp: prod_eq_iff)
  have entered: "cn_elems (active_sockets (enter ws wc1)) = []" "mail (fst (w_kern (enter ws wc1))) b = [(sa, of_text request)]"
    "mail (fst (w_kern (enter ws wc1))) a = []" using server(7) sent by simp_all
  obtain tmp' ws1 where round:
    "server_round (beside K) (epoll_traits (beside K)) (server_callbacks (beside K) grow pr) pr tmp (s, enter ws wc1)
        = Some (None, tmp', (s, ws1))"
    "cn_elems (active_sockets ws1) = []" "mail (fst (w_kern ws1)) a = [(sb, of_text response)]"
    by (rule mailed_round [OF net(1-4) server(1-3) client(2) server(4-6) entered(1) server(8) polled entered(2,3) request whole(2)])
  then have "mail (w_kern (leave wc1 ws1)) a = [(sb, of_text response)]" by simp
  from mails_response [OF client net(2) this net(5)] send round(1,2) show ?thesis by blast
qed

text \<open>The witness: a system with two mailboxes, one for each socket.\<close>

abbreviation address_of :: "size_t \<Rightarrow> byte list" where
  "address_of prt \<equiv> sock_addr4 (ap_addr (sample_addr prt)) (ap_port (sample_addr prt))"

type_synonym mailbox = "(byte list \<times> byte list) list"

definition letter :: "mailbox \<Rightarrow> size_t \<Rightarrow> reply" where
  "letter q n =
     (case q of
        [] \<Rightarrow> failure EAGAIN
      | (s, c) # ds \<Rightarrow> (answer (int (length (take (unat n) c))))\<lparr>rp_data := take (unat n) c, rp_addr := s\<rparr>)"

definition post_os :: "(mailbox \<times> mailbox) os" where
  "post_os k c =
     (case c of
        SysEpollWait ep n t \<Rightarrow> ((answer 1)\<lparr>rp_events := [(1, 5)]\<rparr>, k)
      | SysSendto fd buf n fl sa \<Rightarrow>
          (answer (int (length buf)),
           if fd = 7 then (fst k, snd k @ [(address_of 7778, buf)]) else (fst k @ [(address_of 7777, buf)], snd k))
      | SysRecvfrom fd n fl al \<Rightarrow>
          if fd = 7 then (letter (fst k) n, (tl (fst k), snd k)) else (letter (snd k) n, (fst k, tl (snd k)))
      | _ \<Rightarrow> (answer 0, k))"

definition mail_of :: "mailbox \<times> mailbox \<Rightarrow> int \<Rightarrow> mailbox" where
  "mail_of k fd = (if fd = 7 then fst k else snd k)"

lemma post_os_posts:
  "posts post_os mail_of 7 (address_of 7778) 5 (address_of 7777)"
  "posts post_os mail_of 5 (address_of 7777) 7 (address_of 7778)" "polls_keep post_os mail_of"
  by (auto simp: posts_def polls_keep_def post_os_def mail_of_def letter_def answer_def failure_def split: list.splits)

lemma address_of_sockaddr4: "sockaddr4 (address_of prt)"
  unfolding sockaddr4_def
  by (rule exI [of _ "htons prt"], rule exI [of _ "[127, 0, 0, 1]"])
    (simp add: sock_addr4_def sample_addr_def)

lemma post_os_event:
  "fst (epoll_proceed (beside post_os) (en_poll datagram_server) 10 w) = [\<lparr>ev_fd = 5, ev_type = READ_READY\<rparr>]"
  by (simp add: datagram_server_def epoll_proceed_def post_os_def beside_def do_sys_def c_int_def Let_def answer_def
      event_type_from_flags_def add_flag_def enum_or_def event_type_defs)

lemma mails_on_connected: "mails_on connected_client 7 (address_of 7777)"
  by (simp add: mails_on_def connected_client_def socket_impl_ctor_def sample_addr_def is_ipv4_def ipv4_def)

theorem datagram_and_answer_witness:
  "\<exists>wc1 tmp' ws1 wc2.
      client_send post_os udp connected_client (of_text ''hi'') 2 (init_world ([], [])) = (Some 2, wc1)
    \<and> server_round (beside post_os) (epoll_traits (beside post_os)) (server_callbacks (beside post_os) Suc udp) udp
        (replicate 256 0) (datagram_server, enter (init_world (([], []), connections_ctor)) wc1)
        = Some (None, tmp', (datagram_server, ws1))
    \<and> cn_elems (active_sockets ws1) = []
    \<and> read_response post_os udp connected_client [] (leave wc1 ws1) = Some (of_text ''hi'', wc2)"
proof -
  have "stream_words ''hi'' = [''hi'']" by (simp add: stream_words.simps is_space_def)
  then have resp: "create_response ''hi'' = Inr ''hi''"
    by (simp add: create_response_def parse_ints_def is_number_def is_digit_def)
  have server: "en_state datagram_server = StActive udp_socket" "si_fd (a_impl udp_socket) = Some 5"
    "si_family (a_impl udp_socket) = ipv4" "sv_on_conn datagram_server = Some (Some 0)"
    "ob_handlers (en_obs datagram_server) = server_handlers" "ob_unhandled (en_obs datagram_server) = None"
    by (simp_all add: datagram_server_def server_register_empty udp_socket_def socket_impl_ctor_def)
  have udp: "is_connectionless udp" by (simp add: udp_def)
  have empty: "cn_elems (active_sockets (init_world (([], []), connections_ctor))) = []"
    by (simp add: active_sockets_def connections_ctor_def)
  have quiet: "mail_of (w_kern (init_world ([], []))) fd = []" for fd by (simp add: mail_of_def)
  have whole: "rp_ret (fst (post_os k (SysSendto fd (of_text t) n 0 sa))) = int (length t)" for k fd t n sa
    by (simp add: post_os_def answer_def)
  have sends: "rp_ret (fst (post_os k (SysSendto fd (of_text t) n 0 sa))) \<noteq> -1" for k fd t n sa
    by (simp add: whole)
  have len: "length (replicate 256 0 :: byte list) = 256" by simp
  show ?thesis
    using datagram_and_answer [OF post_os_posts address_of_sockaddr4 address_of_sockaddr4 mails_on_connected udp server empty len
        quiet quiet _ _ resp whole sends post_os_event, of Suc]
    by (simp add: of_text_def)
qed

end
