(* ===== verification/Server_Stop.thy ===== *)
theory Server_Stop
  imports Server_Props
begin

section \<open>Stopping a server\<close>

text \<open>
  Models \<^verbatim>\<open>server_t::stop\<close>. It builds a \<^verbatim>\<open>socket_t\<close> from the address family, and the class has no
  such constructor: a program that calls \<^verbatim>\<open>stop\<close> does not compile. The constructor is therefore a
  parameter \<open>mk\<close>, which may make any calls and give any socket. The properties say what the rest of
  the function does around it.

  The function is \<^verbatim>\<open>noexcept\<close>: an exception of the close callback ends the process, as does the
  call of one that is not set.
\<close>

definition server_stop ::
  "'k os \<Rightarrow> ('p, 'k world) poll_traits \<Rightarrow> ('p, 'k) server_app \<Rightarrow> (int \<Rightarrow> 'k world \<Rightarrow> socket_t \<times> 'k world)
   \<Rightarrow> 'p server \<Rightarrow> 'k world \<Rightarrow> (exn + unit) \<times> 'p server \<times> 'k world" where
  "server_stop K PT A mk s w =
     (case call_erase A (get_fd s) (s, w) of
        (Some e, (s1, w1)) \<Rightarrow> (Inl Terminated, s1, w1)
      | (None, (s1, w1)) \<Rightarrow>
          (case mk (en_af s1) w1 of
             (sock, w2) \<Rightarrow>
               (case assign_state K (en_state s1) (StIdle (Some sock)) w2 of
                  (st, w3) \<Rightarrow>
                    (let s2 = s1\<lparr>en_state := st\<rparr>
                     in case pt_del PT (en_poll s2) (get_fd s2) w3 of
                          (_, w4) \<Rightarrow>
                            (Inr (), (server_unregister_cbs s2)\<lparr>sv_on_conn := None, sv_erase := None\<rparr>, w4)))))"

lemma server_unregister_all:
  "ob_handlers (en_obs s) = server_handlers \<Longrightarrow> ob_handlers (en_obs (server_unregister_cbs s)) = Map.empty"
  by (simp add: server_unregister_cbs_def server_handlers_def event_type_defs fun_eq_iff)

lemma server_unregister_simps [simp]:
  "en_state (server_unregister_cbs s) = en_state s" "en_af (server_unregister_cbs s) = en_af s"
  "en_poll (server_unregister_cbs s) = en_poll s"
  by (simp_all add: server_unregister_cbs_def)

lemma destroy_closes:
  assumes "impl_fds i = {L}"
  shows "\<exists>r e. w_trace (destroy_impl K i w) = Sys (SysClose L) r e # w_trace w"
  using assms
  by (cases "si_fd i"; cases "do_sys K (SysClose L) w")
    (auto simp: impl_fds_def destroy_impl_def impl_empty_def impl_close_def dest: do_sys_trace)

lemma state_dtor_closes:
  assumes "state_fds st = {L}"
  shows "\<exists>r e. w_trace (state_dtor K st w) = Sys (SysClose L) r e # w_trace w"
  using assms
  by (cases "(K, st, w)" rule: state_dtor.cases)
    (simp_all add: destroy_closes socket_dtor_def binded_dtor_def listening_dtor_def active_dtor_def)

lemma impl_fd_owned: "impl_fds i = {L} \<Longrightarrow> impl_fd i = L"
  by (cases "si_fd i") (simp_all add: impl_fds_def impl_fd_def)

lemma state_fd_owned: "state_fds st = {L} \<Longrightarrow> state_fd st = L"
  by (cases st rule: state_fd.cases) (simp_all add: impl_fd_owned)

text \<open>Only a server with a close callback survives \<^verbatim>\<open>stop\<close>, and what is left of it has none.\<close>

theorem stopping_twice_terminates:
  assumes "server_stop K PT A mk s w = (res, s', w')"
  shows "(sv_erase s = None \<or> sv_erase s = Some None \<longrightarrow> res = Inl Terminated \<and> w' = w)
    \<and> (res = Inr () \<longrightarrow> server_stop K PT A mk s' w' = (Inl Terminated, s', w'))"
proof -
  have "sv_erase s = None \<or> sv_erase s = Some None \<longrightarrow> res = Inl Terminated \<and> w' = w"
    using assms by (auto simp: server_stop_def call_erase_def)
  moreover have "server_stop K PT A mk s' w' = (Inl Terminated, s', w')" if "res = Inr ()"
  proof -
    have "sv_erase s' = None" using assms that by (auto simp: server_stop_def Let_def split: prod.splits option.splits)
    then show ?thesis by (simp add: server_stop_def call_erase_def)
  qed
  ultimately show ?thesis by blast
qed

theorem stop_removes_the_new_socket:
  assumes "\<not> idle s" and "state_fds (en_state s) = {L}" and "ob_handlers (en_obs s) = server_handlers"
    and "call_erase A L (s, w) = (None, (s, w1))" and "mk (en_af s) w1 = (k, w2)" and "si_fd (s_impl k) = Some M"
    and "server_stop K (epoll_traits K) A mk s w = (res, s', w')"
  shows "res = Inr () \<and> idle s' \<and> state_fds (en_state s') = {M} \<and> ob_handlers (en_obs s') = Map.empty
    \<and> (\<exists>r2 e2 r1 e1. w_trace w' = [Sys (SysEpollCtl (ep_fd (en_poll s)) EPOLL_CTL_DEL M None) r2 e2, Sys (SysClose L) r1 e1]
         @ w_trace w2)"
proof -
  have fd: "get_fd s = L" unfolding get_fd_def using assms(2) by (rule state_fd_owned)
  have assign: "assign_state K (en_state s) (StIdle (Some k)) w2 = (StIdle (Some k), state_dtor K (en_state s) w2)"
    using assms(1) unfolding idle_def by (cases "en_state s" rule: sock_state.exhaust) simp_all
  obtain r1 e1 where closed: "w_trace (state_dtor K (en_state s) w2) = Sys (SysClose L) r1 e1 # w_trace w2"
    using state_dtor_closes [OF assms(2)] by blast
  obtain r2 w3 where del: "do_sys K (SysEpollCtl (ep_fd (en_poll s)) EPOLL_CTL_DEL M None) (state_dtor K (en_state s) w2) = (r2, w3)"
    by fastforce
  have "get_fd (s\<lparr>en_state := StIdle (Some k)\<rparr>) = M" using assms(6) by (simp add: get_fd_def impl_fd_def)
  then have "res = Inr ()" "w' = w3"
    "s' = (server_unregister_cbs (s\<lparr>en_state := StIdle (Some k)\<rparr>))\<lparr>sv_on_conn := None, sv_erase := None\<rparr>"
    using assms(4,5,7) fd assign del by (simp_all add: server_stop_def del_socket_def epoll_ctl_def Let_def)
  with closed do_sys_trace [OF del] assms(3,6) show ?thesis
    by (auto simp: idle_def impl_fds_def server_unregister_all)
qed

text \<open>The witness: a constructor that opens a socket, as the factory of the class does.\<close>

definition opening_ctor :: "int \<Rightarrow> int list world \<Rightarrow> socket_t \<times> int list world" where
  "opening_ctor af w =
     (case socket_create counting_os tcp af w of
        (Some k, w1) \<Rightarrow> (k, w1)
      | (None, w1) \<Rightarrow> (\<lparr>s_impl = impl_default\<rparr>, w1))"

lemma opening_ctor_opens:
  "\<exists>k w2. opening_ctor ipv4 (upcall 1 (init_world [3, 7])) = (k, w2) \<and> si_fd (s_impl k) = Some 8"
  by (simp add: opening_ctor_def socket_create_def impl_open_def do_sys_def counting_os_def tcp_def answer_def Let_def
      impl_default_def move_impl_def upcall_def)

theorem stop_removes_the_new_socket_witness:
  "\<exists>s' w' r2 e2 r1 e1 t.
     server_stop counting_os (epoll_traits counting_os) keep_app opening_ctor listening_server (init_world [3, 7])
       = (Inr (), s', w')
   \<and> state_fds (en_state s') = {8}
   \<and> w_trace w' = Sys (SysEpollCtl 3 EPOLL_CTL_DEL 8 None) r2 e2 # Sys (SysClose 7) r1 e1 # t"
proof -
  obtain k w2 where mk: "opening_ctor ipv4 (upcall 1 (init_world [3, 7])) = (k, w2)" "si_fd (s_impl k) = Some 8"
    using opening_ctor_opens by blast
  have af: "en_af listening_server = ipv4"
    by (simp add: listening_server_def server_register_cbs_def)
  have erase: "call_erase keep_app 7 (listening_server, init_world [3, 7])
      = (None, (listening_server, upcall 1 (init_world [3, 7])))"
    by (simp add: call_erase_def keep_app_def)
  obtain res s' w' where run: "server_stop counting_os (epoll_traits counting_os) keep_app opening_ctor listening_server
      (init_world [3, 7]) = (res, s', w')" using prod_cases3 by blast
  from stop_removes_the_new_socket [OF _ _ _ erase _ mk(2) run] mk(1) af run show ?thesis
    by (auto simp: idle_def impl_fds_def socket_impl_ctor_def)
qed

text \<open>The witness: the same server, stopped twice, and one that was never started.\<close>

theorem stopping_twice_terminates_witness:
  "\<exists>s' w'. server_stop counting_os (epoll_traits counting_os) keep_app opening_ctor listening_server (init_world [3, 7])
       = (Inr (), s', w')
   \<and> fst (server_stop counting_os (epoll_traits counting_os) keep_app opening_ctor s' w') = Inl Terminated
   \<and> fst (server_stop counting_os (epoll_traits counting_os) keep_app opening_ctor sample_server (init_world [3])) = Inl Terminated"
proof -
  obtain res s' w' where run: "server_stop counting_os (epoll_traits counting_os) keep_app opening_ctor listening_server
      (init_world [3, 7]) = (res, s', w')" using prod_cases3 by blast
  have ok: "res = Inr ()"
    using run by (auto simp: server_stop_def call_erase_def keep_app_def Let_def split: prod.splits)
  obtain res2 s2 w2 where never: "server_stop counting_os (epoll_traits counting_os) keep_app opening_ctor sample_server
      (init_world [3]) = (res2, s2, w2)" using prod_cases3 by blast
  have "sv_erase sample_server = None"
    by (simp add: sample_server_def server_ctor_def endpoint_ctor_def endpoint.defs)
  with stopping_twice_terminates [OF never] stopping_twice_terminates [OF run] ok run never show ?thesis by simp
qed

end
