(* ===== verification/Locks.thy ===== *)
theory Locks
  imports Prelude
begin

section \<open>The locks of an endpoint\<close>

text \<open>
  An endpoint has two locks: its mutex (\<^verbatim>\<open>client_t::m_mutex\<close>, \<^verbatim>\<open>server_t::m_mutex\<close>) and
  the shared mutex of its observer (\<^verbatim>\<open>event_observer_t::m_mutex\<close>). The other theories run one
  thread, where the locks have no effect; here an operation is what it does to the locks, in the
  order of the code, and threads interleave. A thread that waits for a lock makes no step.
\<close>

subsection \<open>What each operation locks\<close>

datatype lock_op = AcqM | RelM | AcqX | RelX | AcqS | RelS

definition observer_add_locks :: "lock_op list" where
  "observer_add_locks = [AcqX, RelX]"

definition observer_remove_locks :: "lock_op list" where
  "observer_remove_locks = [AcqX, RelX]"

text \<open>
  \<open>bodies\<close>: what the callbacks lock that the handlers of the events run, one for each handler.
  Every handler holds the endpoint's mutex while it runs its callback.
\<close>

definition handler_locks :: "lock_op list \<Rightarrow> lock_op list" where
  "handler_locks body = AcqM # body @ [RelM]"

definition proceed_locks :: "lock_op list list \<Rightarrow> lock_op list" where
  "proceed_locks bodies = AcqS # concat (map handler_locks bodies) @ [RelS]"

definition client_start_locks :: "bool \<Rightarrow> lock_op list" where
  "client_start_locks created =
     AcqM # (if created then concat (replicate 6 observer_add_locks) else []) @ [RelM]"

definition client_stop_locks :: "lock_op list" where
  "client_stop_locks = AcqM # concat (replicate 5 observer_remove_locks) @ [RelM]"

definition server_start_locks :: "bool \<Rightarrow> lock_op list" where
  "server_start_locks created =
     AcqM # (if created then concat (replicate 5 observer_add_locks) else []) @ [RelM]"

text \<open>\<^verbatim>\<open>server_t::stop\<close> runs the close callback, which locks \<open>body\<close>, while it holds the mutex.\<close>

definition server_stop_locks :: "lock_op list \<Rightarrow> lock_op list" where
  "server_stop_locks body = AcqM # body @ concat (replicate 5 observer_remove_locks) @ [RelM]"

subsection \<open>Threads\<close>

text \<open>
  A mutex is held by one thread, the shared mutex by one writer or by readers. \<open>lock_do\<close> is the
  effect of an operation of thread \<open>i\<close>, \<open>None\<close> if it has to wait; a mutex that the thread
  holds itself is waited for as well.
\<close>

record locks =
  lk_mutex :: "nat option"
  lk_writer :: "nat option"
  lk_readers :: "nat set"

definition unlocked :: locks where
  "unlocked = \<lparr>lk_mutex = None, lk_writer = None, lk_readers = {}\<rparr>"

fun lock_do :: "nat \<Rightarrow> lock_op \<Rightarrow> locks \<Rightarrow> locks option" where
  "lock_do i AcqM l = (if lk_mutex l = None then Some (l\<lparr>lk_mutex := Some i\<rparr>) else None)"
| "lock_do i RelM l = Some (l\<lparr>lk_mutex := None\<rparr>)"
| "lock_do i AcqX l =
     (if lk_writer l = None \<and> lk_readers l = {} then Some (l\<lparr>lk_writer := Some i\<rparr>) else None)"
| "lock_do i RelX l = Some (l\<lparr>lk_writer := None\<rparr>)"
| "lock_do i AcqS l =
     (if lk_writer l = None \<and> i \<notin> lk_readers l then Some (l\<lparr>lk_readers := insert i (lk_readers l)\<rparr>) else None)"
| "lock_do i RelS l = Some (l\<lparr>lk_readers := lk_readers l - {i}\<rparr>)"

text \<open>A state is the locks and what each thread still has to do.\<close>

inductive lock_step :: "locks \<times> lock_op list list \<Rightarrow> locks \<times> lock_op list list \<Rightarrow> bool" where
  "i < length ts \<Longrightarrow> ts ! i = op # rest \<Longrightarrow> lock_do i op l = Some l'
   \<Longrightarrow> lock_step (l, ts) (l', ts[i := rest])"

inductive_cases lock_stepE: "lock_step (l, ts) s"

abbreviation lock_steps :: "locks \<times> lock_op list list \<Rightarrow> locks \<times> lock_op list list \<Rightarrow> bool" where
  "lock_steps \<equiv> lock_step\<^sup>*\<^sup>*"

definition all_done :: "lock_op list list \<Rightarrow> bool" where
  "all_done ts \<longleftrightarrow> (\<forall>t \<in> set ts. t = [])"

definition stuck :: "locks \<times> lock_op list list \<Rightarrow> bool" where
  "stuck s \<longleftrightarrow> \<not> all_done (snd s) \<and> (\<forall>s'. \<not> lock_step s s')"

lemma lock_steps_first:
  "i < length ts \<Longrightarrow> ts ! i = op # rest \<Longrightarrow> lock_do i op l \<noteq> None
   \<Longrightarrow> lock_steps (the (lock_do i op l), ts[i := rest]) s \<Longrightarrow> lock_steps (l, ts) s"
  by (auto intro: converse_rtranclp_into_rtranclp lock_step.intros)

subsection \<open>A thread that stops and one that proceeds\<close>

text \<open>
  Both threads hold the lock that the other one waits for: \<open>stop\<close> (and a \<open>start\<close> that
  has its socket) takes the mutex and then the observer's lock, \<open>proceed\<close> the observer's lock
  and then the mutex.
\<close>

lemma opposite_orders_stick:
  assumes "ts = [AcqM # AcqX # p, AcqS # AcqM # q]"
  shows "\<exists>s. lock_steps (unlocked, ts) s \<and> stuck s"
proof -
  let ?l = "\<lparr>lk_mutex = Some 0, lk_writer = None, lk_readers = {1}\<rparr>"
  have "lock_steps (unlocked, ts) (?l, [AcqX # p, AcqM # q])"
    unfolding assms
    by (rule lock_steps_first [where i = 0], simp, simp, simp add: unlocked_def)
       (rule lock_steps_first [where i = 1], simp, simp, simp_all add: unlocked_def)
  moreover have "stuck (?l, [AcqX # p, AcqM # q])"
    by (auto simp: stuck_def all_done_def less_Suc_eq elim!: lock_stepE)
  ultimately show ?thesis by blast
qed

text \<open>
  C29: A thread that stops or starts a client or a server, and one that proceeds with at least
  one handler to run can reach a state in which both wait for the lock the other one holds.
\<close>

theorem stop_and_proceed_deadlock:
  assumes "t \<in> {client_stop_locks, server_stop_locks [], client_start_locks True, server_start_locks True}" and "bodies \<noteq> []"
  shows "\<exists>s. lock_steps (unlocked, [t, proceed_locks bodies]) s \<and> stuck s"
proof -
  have "\<exists>p. t = AcqM # AcqX # p"
    using assms(1) by (auto simp: client_stop_locks_def server_stop_locks_def client_start_locks_def server_start_locks_def
        observer_add_locks_def observer_remove_locks_def numeral_eq_Suc)
  moreover have "\<exists>q. proceed_locks bodies = AcqS # AcqM # q"
    using assms(2) by (cases bodies) (simp_all add: proceed_locks_def handler_locks_def)
  ultimately show ?thesis using opposite_orders_stick by blast
qed

theorem stop_and_proceed_deadlock_witness:
  "\<exists>s. lock_steps (unlocked, [client_stop_locks, proceed_locks [[]]]) s \<and> stuck s"
  by (rule stop_and_proceed_deadlock) simp_all

theorem stop_in_a_callback_blocks:
  "\<exists>s. lock_steps (unlocked, [proceed_locks (client_stop_locks # bodies)]) s \<and> stuck s"
proof -
  obtain q where q: "proceed_locks (client_stop_locks # bodies) = AcqS # AcqM # AcqM # q"
    by (simp add: proceed_locks_def handler_locks_def client_stop_locks_def)
  let ?l = "\<lparr>lk_mutex = Some 0, lk_writer = None, lk_readers = {0}\<rparr>"
  have "lock_steps (unlocked, [AcqS # AcqM # AcqM # q]) (?l, [AcqM # q])"
    by (rule lock_steps_first [where i = 0], simp, simp, simp add: unlocked_def)
       (rule lock_steps_first [where i = 0], simp, simp, simp_all add: unlocked_def)
  moreover have "stuck (?l, [AcqM # q])" by (auto simp: stuck_def all_done_def elim!: lock_stepE)
  ultimately show ?thesis unfolding q by blast
qed

subsection \<open>Threads that keep one order\<close>

text \<open>
  \<open>disciplined outer m x r p\<close>: a thread that holds the mutex (\<open>m\<close>), the shared mutex as
  the writer (\<open>x\<close>) or as a reader (\<open>r\<close>) releases only what it holds, takes nothing twice,
  ends with nothing, and takes the two locks in one order: the mutex last if \<open>mutex_last\<close>,
  else first.
\<close>

fun disciplined :: "bool \<Rightarrow> bool \<Rightarrow> bool \<Rightarrow> bool \<Rightarrow> lock_op list \<Rightarrow> bool" where
  "disciplined mutex_last m x r [] \<longleftrightarrow> \<not> m \<and> \<not> x \<and> \<not> r"
| "disciplined mutex_last m x r (AcqM # p) \<longleftrightarrow> \<not> m \<and> (mutex_last \<or> \<not> x \<and> \<not> r) \<and> disciplined mutex_last True x r p"
| "disciplined mutex_last m x r (RelM # p) \<longleftrightarrow> m \<and> disciplined mutex_last False x r p"
| "disciplined mutex_last m x r (AcqX # p) \<longleftrightarrow> \<not> x \<and> \<not> r \<and> (mutex_last \<longrightarrow> \<not> m) \<and> disciplined mutex_last m True r p"
| "disciplined mutex_last m x r (RelX # p) \<longleftrightarrow> x \<and> disciplined mutex_last m False r p"
| "disciplined mutex_last m x r (AcqS # p) \<longleftrightarrow> \<not> x \<and> \<not> r \<and> (mutex_last \<longrightarrow> \<not> m) \<and> disciplined mutex_last m x True p"
| "disciplined mutex_last m x r (RelS # p) \<longleftrightarrow> r \<and> disciplined mutex_last m x False p"

definition holds_ok :: "bool \<Rightarrow> locks \<times> lock_op list list \<Rightarrow> bool" where
  "holds_ok mutex_last s \<longleftrightarrow>
     (\<forall>i < length (snd s). disciplined mutex_last (lk_mutex (fst s) = Some i) (lk_writer (fst s) = Some i)
        (i \<in> lk_readers (fst s)) (snd s ! i))
   \<and> (\<forall>i. lk_mutex (fst s) = Some i \<or> lk_writer (fst s) = Some i \<or> i \<in> lk_readers (fst s) \<longrightarrow> i < length (snd s))"

lemma holds_ok_step:
  assumes "lock_step s s'" and "holds_ok b s"
  shows "holds_ok b s'"
  using assms
proof (induction rule: lock_step.induct)
  case (1 i ts op rest l l')
  have d: "disciplined b (lk_mutex l = Some i) (lk_writer l = Some i) (i \<in> lk_readers l) (op # rest)"
    using 1 by (auto simp: holds_ok_def)
  have "disciplined b (lk_mutex l' = Some j) (lk_writer l' = Some j) (j \<in> lk_readers l') (ts[i := rest] ! j)"
    if j: "j < length ts" for j
  proof (cases "j = i")
    case True
    with 1(3) d j show ?thesis by (cases op) (auto split: if_splits)
  next
    case False
    have "disciplined b (lk_mutex l = Some j) (lk_writer l = Some j) (j \<in> lk_readers l) (ts ! j)"
      using 1(4) j by (simp add: holds_ok_def)
    moreover have "(lk_mutex l' = Some j) = (lk_mutex l = Some j)" "(lk_writer l' = Some j) = (lk_writer l = Some j)"
      "(j \<in> lk_readers l') = (j \<in> lk_readers l)"
      using 1(3) d False by (cases op; auto split: if_splits)+
    ultimately show ?thesis using False by simp
  qed
  moreover have "j < length ts" if "lk_mutex l' = Some j \<or> lk_writer l' = Some j \<or> j \<in> lk_readers l'" for j
    using that 1 by (cases op) (auto simp: holds_ok_def split: if_splits)
  ultimately show ?case by (simp add: holds_ok_def)
qed

lemma lock_stepI:
  "i < length ts \<Longrightarrow> ts ! i = op # rest \<Longrightarrow> lock_do i op l \<noteq> None \<Longrightarrow> \<exists>s'. lock_step (l, ts) s'"
  by (auto intro: lock_step.intros)

lemma holds_ok_progress:
  assumes "holds_ok b (l, ts)" and "\<not> all_done ts"
  shows "\<exists>s'. lock_step (l, ts) s'"
proof -
  have d: "i < length ts \<Longrightarrow> disciplined b (lk_mutex l = Some i) (lk_writer l = Some i) (i \<in> lk_readers l) (ts ! i)"
    and held: "lk_mutex l = Some i \<or> lk_writer l = Some i \<or> i \<in> lk_readers l \<Longrightarrow> i < length ts" for i
    using assms(1) by (auto simp: holds_ok_def)
  define inner where "inner i \<longleftrightarrow> (if b then lk_mutex l = Some i else lk_writer l = Some i \<or> i \<in> lk_readers l)" for i
  define outer where "outer i \<longleftrightarrow> (if b then lk_writer l = Some i \<or> i \<in> lk_readers l else lk_mutex l = Some i)" for i
  obtain i where i: "i < length ts" "ts ! i \<noteq> []" "inner i \<or> ((\<forall>j. \<not> inner j) \<and> (outer i \<or> (\<forall>j. \<not> outer j)))"
  proof (cases "\<exists>i. inner i \<or> outer i")
    case True
    then obtain i where i: "inner i \<or> ((\<forall>j. \<not> inner j) \<and> outer i)" by blast
    then have h: "lk_mutex l = Some i \<or> lk_writer l = Some i \<or> i \<in> lk_readers l"
      by (auto simp: inner_def outer_def split: if_splits)
    then have "i < length ts" by (rule held)
    moreover from d [OF this] h have "ts ! i \<noteq> []" by auto
    ultimately show ?thesis using i that by blast
  next
    case False
    from assms(2) obtain i where "i < length ts" "ts ! i \<noteq> []" by (auto simp: all_done_def in_set_conv_nth)
    with False that show ?thesis by blast
  qed
  obtain op rest where op: "ts ! i = op # rest" using i(2) by (cases "ts ! i") auto
  have "lock_do i op l \<noteq> None"
    using d [OF i(1)] i(3) op by (cases op; cases b) (auto simp: inner_def outer_def)
  with i(1) op show ?thesis by (rule lock_stepI)
qed

lemma holds_ok_released:
  assumes "holds_ok b (l, replicate n [])"
  shows "l = unlocked"
proof -
  have none: "lk_mutex l \<noteq> Some i \<and> lk_writer l \<noteq> Some i \<and> i \<notin> lk_readers l" for i
  proof -
    have "i < n \<Longrightarrow> disciplined b (lk_mutex l = Some i) (lk_writer l = Some i) (i \<in> lk_readers l) (replicate n [] ! i)"
      using assms unfolding holds_ok_def fst_conv snd_conv length_replicate by blast
    then have "i < n \<Longrightarrow> lk_mutex l \<noteq> Some i \<and> lk_writer l \<noteq> Some i \<and> i \<notin> lk_readers l" by simp
    moreover have "lk_mutex l = Some i \<or> lk_writer l = Some i \<or> i \<in> lk_readers l \<Longrightarrow> i < n"
      using assms unfolding holds_ok_def fst_conv snd_conv length_replicate by blast
    ultimately show ?thesis by blast
  qed
  have "lk_mutex l = None" by (rule ccontr) (use none in blast)
  moreover have "lk_writer l = None" by (rule ccontr) (use none in blast)
  moreover have "lk_readers l = {}" using none by blast
  ultimately show ?thesis by (simp add: unlocked_def)
qed

lemma holds_ok_finishes:
  "holds_ok b (l, ts) \<Longrightarrow> lock_steps (l, ts) (unlocked, replicate (length ts) [])"
proof (induction "sum_list (map length ts)" arbitrary: l ts rule: less_induct)
  case less
  show ?case
  proof (cases "all_done ts")
    case True
    then have "ts = replicate (length ts) []" by (simp add: all_done_def replicate_eqI)
    with less.prems holds_ok_released show ?thesis by (metis rtranclp.rtrancl_refl)
  next
    case False
    then obtain s' where s': "lock_step (l, ts) s'" using holds_ok_progress [OF less.prems] by blast
    then obtain i op rest l' where st: "i < length ts" "ts ! i = op # rest" "s' = (l', ts[i := rest])"
      by (auto elim: lock_stepE)
    have "length (ts ! i) \<le> sum_list (map length ts)" using elem_le_sum_list [of i "map length ts"] st(1) by simp
    then have "sum_list (map length (ts[i := rest])) < sum_list (map length ts)"
      using st(1,2) by (simp add: map_update sum_list_update)
    from less.hyps [OF this] holds_ok_step [OF s' less.prems] st
    have "lock_steps s' (unlocked, replicate (length ts) [])" by simp
    with s' show ?thesis by (rule converse_rtranclp_into_rtranclp)
  qed
qed

lemma holds_ok_steps: "lock_steps s s' \<Longrightarrow> holds_ok b s \<Longrightarrow> holds_ok b s'"
  by (induction rule: rtranclp_induct) (auto intro: holds_ok_step)

lemma lock_steps_length: "lock_steps s s' \<Longrightarrow> length (snd s') = length (snd s)"
  by (induction rule: rtranclp_induct) (auto elim!: lock_step.cases)

lemma disciplined_append:
  "disciplined b m x r p \<Longrightarrow> disciplined b False False False q \<Longrightarrow> disciplined b m x r (p @ q)"
  by (induction b m x r p rule: disciplined.induct) auto

lemma disciplined_concat:
  "\<forall>p \<in> set ps. disciplined b False False False p \<Longrightarrow> disciplined b False False False (concat ps)"
  by (induction ps) (auto intro: disciplined_append)

lemma disciplined_handlers:
  "disciplined True False False True (concat (replicate n (handler_locks [])) @ [RelS])"
  by (induction n) (simp_all add: handler_locks_def)

lemma disciplined_operations:
  "disciplined b False False False observer_add_locks" "disciplined b False False False observer_remove_locks"
  "disciplined True False False False (proceed_locks (replicate n []))"
  "disciplined False False False False (client_start_locks c)"
  "disciplined False False False False client_stop_locks"
  "disciplined False False False False (server_start_locks c)"
  "disciplined False False False False (server_stop_locks [])"
  using disciplined_handlers [of n]
  by (simp_all add: observer_add_locks_def observer_remove_locks_def proceed_locks_def client_start_locks_def
      client_stop_locks_def server_start_locks_def server_stop_locks_def numeral_eq_Suc)

definition proceeding :: "lock_op list set" where
  "proceeding = range (\<lambda>n. proceed_locks (replicate n [])) \<union> {observer_add_locks, observer_remove_locks}"

definition reconfiguring :: "lock_op list set" where
  "reconfiguring = range client_start_locks \<union> range server_start_locks
     \<union> {client_stop_locks, server_stop_locks [], observer_add_locks, observer_remove_locks}"

text \<open>
  C28: Any number of threads that only proceed and register handlers on one endpoint, or only
  start, stop and register handlers, with callbacks that themselves lock nothing, never get
  stuck: from every state they can reach, all of them can run to their end, and then no lock is
  held.
\<close>

theorem threads_of_one_kind_finish:
  assumes "set (concat tss) \<subseteq> proceeding \<or> set (concat tss) \<subseteq> reconfiguring"
    and "lock_steps (unlocked, map concat tss) s"
  shows "lock_steps s (unlocked, replicate (length tss) [])"
proof -
  obtain b where b: "\<forall>p \<in> set (concat tss). disciplined b False False False p"
    using assms(1) disciplined_operations unfolding proceeding_def reconfiguring_def by blast
  have "disciplined b False False False (concat t)" if "t \<in> set tss" for t
    using b that by (intro disciplined_concat) auto
  then have "holds_ok b (unlocked, map concat tss)" by (simp add: holds_ok_def unlocked_def)
  with assms(2) have "holds_ok b s" by (rule holds_ok_steps)
  then show ?thesis
    using holds_ok_finishes [of b "fst s" "snd s"] lock_steps_length [OF assms(2)] by simp
qed

theorem threads_of_one_kind_finish_witness:
  "lock_steps (unlocked, map concat [[proceed_locks [[], []], observer_add_locks], [proceed_locks [[]]]])
     (unlocked, [[], []])"
proof -
  have "set (concat [[proceed_locks [[], []], observer_add_locks], [proceed_locks [[]]]]) \<subseteq> proceeding"
    using image_eqI [of "proceed_locks [[], []]" "\<lambda>n. proceed_locks (replicate n [])" 2 UNIV]
      image_eqI [of "proceed_locks [[]]" "\<lambda>n. proceed_locks (replicate n [])" 1 UNIV]
    by (simp add: proceeding_def numeral_2_eq_2)
  from threads_of_one_kind_finish [OF disjI1 [OF this] rtranclp.rtrancl_refl] show ?thesis
    by (simp add: numeral_2_eq_2)
qed

end
