(* ===== verification/Spec2Isabelle.thy ===== *)
theory Spec2Isabelle
  imports Client_Program_Props Udp_Exchange Server_Stop Locks
begin

text \<open>
  \<^bold>\<open>StronglyTypedSockets\<close>: a C++17 library that gives sockets types by their state, an epoll
  wrapper, an observer of events, TCP and UDP clients and servers on top of them, and an example
  service with its two programs. This development models the library and the programs and states
  what they promise, and where they do not keep it.

  \<^bold>\<open>How the program is put together.\<close> \<^verbatim>\<open>socket_impl\<close> owns a descriptor and makes the system
  calls. \<^verbatim>\<open>socket_t\<close>, \<^verbatim>\<open>binded_socket_t\<close>, \<^verbatim>\<open>listening_socket_t\<close> and
  \<^verbatim>\<open>active_socket_t\<close> wrap it; the policies in \<^verbatim>\<open>include/policy\<close> give each of them the
  operations its state allows, and an operation that changes the state moves the
  \<^verbatim>\<open>socket_impl\<close> into an object of the next class. \<^verbatim>\<open>epoll_t\<close> reports events;
  \<^verbatim>\<open>event_observer_t\<close> maps them to handlers; \<^verbatim>\<open>endpoint_t\<close> joins an observer, a poll and a
  variant of the socket states; \<^verbatim>\<open>client_t\<close> and \<^verbatim>\<open>server_t\<close> register the handlers and
  drive the variant. The example server keeps accepted connections in a vector of
  \<^verbatim>\<open>base_socket\<close> and answers requests with \<^verbatim>\<open>service_t\<close>; the example client sends lines
  and prints responses.

  \<^bold>\<open>The world.\<close> The operating system is a parameter \<open>K\<close> of every definition that makes a
  call: a function from its state and a call to a reply and the next state. A \<open>world\<close> is that
  state with \<^verbatim>\<open>errno\<close>, the storage of static and thread duration that the library uses, and a
  history of every call, callback and undefined behaviour. What a property relies on about the
  system is a hypothesis on \<open>K\<close> (\<open>posix_fds\<close>: descriptors are fresh when created and stay
  open until closed; \<open>delivers\<close>: what a connection has to read; \<open>at_eof\<close>: a closed peer;
  \<open>linked\<close>: two connected descriptors pass bytes on in order; \<open>posts\<close>: datagrams between two sockets
  arrive in order and whole).
  The text conversions of the C library are the parameter \<open>N\<close> with the laws \<open>inet_laws\<close>.
  The functions of an application are a parameter \<open>A\<close> with its contract.

  \<^bold>\<open>Theories, in the order of the code.\<close>
  \<^item> \<^verbatim>\<open>Prelude\<close>: the collections of simplification rules, lists and words, exceptions and
    undefined behaviours, \<^verbatim>\<open>utils/mbind.h\<close> and \<^verbatim>\<open>utils/enum_op.h\<close>.
  \<^item> \<^verbatim>\<open>Os\<close>: calls, replies, worlds, the descriptors that a history leaves open
    (\<open>open_fds\<close>), runs that make certain calls only (\<open>via\<close>), two systems for witnesses.
  \<^item> \<^verbatim>\<open>Numerals\<close>: \<^verbatim>\<open>std::stoi\<close> and decimal numerals.
  \<^item> \<^verbatim>\<open>In_Address\<close>: \<^verbatim>\<open>in_address_t\<close>, its parser and printers; round trip.
  \<^item> \<^verbatim>\<open>Sockaddr\<close>, \<^verbatim>\<open>Socket_Impl\<close>: \<^verbatim>\<open>socket_impl.cpp\<close>, every member; the bytes of
    socket addresses and what \<^verbatim>\<open>parse_addr\<close> reads and writes beyond its objects.
  \<^item> \<^verbatim>\<open>Typed_Sockets\<close>, \<^verbatim>\<open>Typed_Safety\<close>: the four classes and five policies. The abstract
    specification is the socket protocol: from a history alone, the phase in which the system sees
    each descriptor (\<open>phases\<close>) and whether every call was allowed in it
    (\<open>well_ordered\<close>). Every program over the typed sockets refines it, phases only go forward in
    their order, and without move assignments nothing leaks.
  \<^item> \<^verbatim>\<open>Epoll\<close>, \<^verbatim>\<open>Poll_Traits\<close>: \<^verbatim>\<open>epoll.cpp\<close>, event masks bit by bit, the thread's
    event buffer; the adapters, with the locale \<open>poll_contract\<close> for what endpoints rely on.
  \<^item> \<^verbatim>\<open>Event_Observer\<close>: the loop of \<^verbatim>\<open>proceed\<close> refines a specification by lists of calls,
    in which the bits of a mask, and not the code's chain of tests, say what is called and in which order;
    the locales \<open>handler_contract\<close> and \<open>exception_contract\<close> carry invariants of handlers to
    invariants of \<^verbatim>\<open>proceed\<close>.
  \<^item> \<^verbatim>\<open>Endpoint\<close>, \<^verbatim>\<open>Endpoint_Protocol\<close>: the variant of socket states, its assignment and
    destruction, the descriptors an object owns (\<open>accounts\<close>); an endpoint as a program over
    one typed socket.
  \<^item> \<^verbatim>\<open>Client\<close>, \<^verbatim>\<open>Client_Safety\<close>, \<^verbatim>\<open>Client_Props\<close>, \<^verbatim>\<open>Client_Protocol\<close>:
    \<^verbatim>\<open>client.tpp\<close>; the type invariant, the account of descriptors, callbacks and their order,
    the refinement of the socket protocol. The locales \<open>connector\<close> and
    \<open>protocol_connector\<close> are the interface of the two sockets that connect.
  \<^item> \<^verbatim>\<open>Accepted\<close>, \<^verbatim>\<open>Server\<close>, \<^verbatim>\<open>Server_Props\<close>, \<^verbatim>\<open>Server_Protocol\<close>:
    \<^verbatim>\<open>accepted_sock.h\<close>, \<^verbatim>\<open>accepted_sock_ref.h\<close> and \<^verbatim>\<open>server.tpp\<close>, with the same groups.
    \<^verbatim>\<open>Server_Stop\<close>: \<^verbatim>\<open>server_t::stop\<close>, around a constructor that is a parameter, since
    \<^verbatim>\<open>socket_t\<close> does not have the one it calls.
  \<^item> \<^verbatim>\<open>Service\<close>, \<^verbatim>\<open>App\<close>: the example service; the visit of one connection by the example
    server. The locales \<open>send_recv\<close> and \<open>visited\<close> are the interface
    \<^verbatim>\<open>send_recv_i\<close> that it relies on, interpreted on both classes that implement it and on the
    virtual calls.
  \<^item> \<^verbatim>\<open>Connections\<close>, \<^verbatim>\<open>Connections_Props\<close>: \<^verbatim>\<open>base_socket.h\<close> and the vector of
    connections with its places in memory: growth, erasure and the pointers that they leave behind.
  \<^item> \<^verbatim>\<open>Server_Main\<close>, \<^verbatim>\<open>Server_Main_Props\<close>, \<^verbatim>\<open>Server_Runs\<close>,
    \<^verbatim>\<open>Server_Program_Props\<close>, \<^verbatim>\<open>Udp_Server_Props\<close>: \<^verbatim>\<open>server_main.cpp\<close> from
    \<^verbatim>\<open>argv\<close> to the end of the process. The locale \<open>guarded\<close> is what a run needs of the calls
    that connections make, \<open>server_run\<close> carries it through the callbacks, the rounds and the exit;
    it is instantiated once for TCP, where no call touches the listening socket, and once for UDP,
    where a run makes no calls but polls and the exchange of datagrams. Up to the first undefined
    behaviour the server's object and its socket stay as they were.
  \<^item> \<^verbatim>\<open>Async_Stdin\<close>, \<^verbatim>\<open>Client_Main\<close>, \<^verbatim>\<open>Client_Main_Props\<close>,
    \<^verbatim>\<open>Client_Program_Props\<close>: \<^verbatim>\<open>async_stdin.cpp\<close> and \<^verbatim>\<open>client_main.cpp\<close>. Every run of the
    example client follows the socket protocol, and one that returns leaves no descriptor behind; how
    signals and the end of the input act on it.
  \<^item> \<^verbatim>\<open>Exchange\<close>, \<^verbatim>\<open>Udp_Exchange\<close>: the two programs over one system, a request and its
    response, over TCP and, with a whole round of the server, over UDP.
  \<^item> \<^verbatim>\<open>Locks\<close>: what each operation does to the two locks of an endpoint, and interleavings
    of threads as a step relation: where threads can block each other and where they cannot.

  \<^bold>\<open>Loops.\<close> Loops over a list are structural. The three receive loops
  (\<open>drain\<close>, \<open>serve_from\<close>, \<open>read_response\<close>) need not end and are partial functions into
  options: \<open>None\<close> is a run that never leaves the loop. That they end is proved for requests and
  responses that arrive in pieces and then pause, and that they do not where the peer has closed. No
  definition uses fuel. The main loops take a list of rounds, each with what the environment adds to
  it (the signals that arrive, what \<^verbatim>\<open>poll\<close> says of the standard input); a run that is
  still in its loop when the list ends has the exit status \<open>Running\<close>.

  \<^bold>\<open>Undefined behaviour\<close> is an entry of the history. A definition has to return something after
  one, and marks the place instead of guessing what the code does there: the connect of a moved-from
  socket, the closure of the second connect of a process, a visit or a destruction through a dangling
  pointer are entries without calls, and a read callback that never ends is the entry
  \<open>NoReturn\<close>. What follows such an entry is not a claim about the program: the properties about
  whole histories of sockets and of the servers speak of \<open>defined_part\<close>, the history in front of the
  first entry that \<open>derails\<close> the process, or assume a run without one. Only the reads behind a socket
  address that every accept and receive makes do not derail: they bring unspecified bytes. Where a
  property is about such a defect itself, its conclusion ends at the entry.

  \<^bold>\<open>Contracts of callbacks.\<close> \<open>app_ok\<close> and \<open>app_follows\<close> for clients, \<open>sapp_ok\<close> and
  \<open>sapp_follows\<close> for servers: a callback leaves the object that calls it as it is and keeps to calls
  that the property allows; it may throw, unless the property says that it does not.

  \<^bold>\<open>Not modelled.\<close> \<^verbatim>\<open>accepted_sock_ref::native_handle\<close>: it calls a member that
  \<^verbatim>\<open>std::variant\<close> does not have, so no program that uses it compiles. The output streams.
  Overload sets, macros, pure interfaces and forward declarations, which have no behaviour of their
  own, and the test programs.

  \<^bold>\<open>Simplifications.\<close> What \<^verbatim>\<open>poll\<close> and the reads of the standard input answer is an argument of
  the example client. A signal is handled at the end of the round in which it arrives, in front of
  the next test of \<^verbatim>\<open>main_loop\<close>, and does not interrupt a system call. The
  contents of a moved-from \<^verbatim>\<open>std::string\<close> in the vector is taken to be empty. Data races other
  than through the order of the locks are not modelled: \<^verbatim>\<open>client_t::connect\<close>, \<^verbatim>\<open>send\<close> and
  \<^verbatim>\<open>recv\<close> take no lock at all.
\<close>

end
